(* ===== verification/Prelude.thy ===== *)
theory Prelude
  imports Complex_Main "HOL-Library.Word" "HOL-Library.AList" "HOL-Library.Multiset"
    "HOL-Library.Sublist"
begin

text \<open>
  Shared vocabulary of the development: the \<open>Result\<close> type with its \<open>?\<close> operator and
  \<open>try_for_each\<close>, the hash map as an association list with distinct keys, the machine
  integers of the source at their width, decimal printing and parsing, the string operations
  of the standard library the source calls, and the generic lemmas on lists and words that
  the component theories share.
\<close>

section \<open>Collections of rewrite rules\<close>

named_theorems wf_simps \<open>what a successful validation means\<close>
named_theorems res_simps \<open>case analysis on results\<close>

section \<open>Results\<close>

text \<open>
  \<open>Result<T, E>\<close> is the sum \<open>'e + 'a\<close> with \<open>Inl\<close> for \<open>Err\<close>. \<open>and_then\<close> is what
  the \<open>?\<close> operator does; \<open>try_for_each\<close> is a \<open>for\<close> loop whose body ends in \<open>?\<close>.
\<close>

fun and_then :: "'e + 'a \<Rightarrow> ('a \<Rightarrow> 'e + 'b) \<Rightarrow> 'e + 'b" where
  "and_then (Inl e) f = Inl e"
| "and_then (Inr x) f = f x"

fun try_for_each :: "('a \<Rightarrow> 'e + unit) \<Rightarrow> 'a list \<Rightarrow> 'e + unit" where
  "try_for_each f [] = Inr ()"
| "try_for_each f (x # xs) = and_then (f x) (\<lambda>_. try_for_each f xs)"

definition is_ok :: "'e + 'a \<Rightarrow> bool" where
  "is_ok r = (case r of Inl _ \<Rightarrow> False | Inr _ \<Rightarrow> True)"

lemma is_ok_simps [simp]: "is_ok (Inl e) = False" "is_ok (Inr x) = True"
  by (simp_all add: is_ok_def)

lemma and_then_eq_Inr [res_simps]:
  "and_then r f = Inr y \<longleftrightarrow> (\<exists>x. r = Inr x \<and> f x = Inr y)"
  by (cases r) auto

lemma and_then_eq_Inl [res_simps]:
  "and_then r f = Inl e \<longleftrightarrow> r = Inl e \<or> (\<exists>x. r = Inr x \<and> f x = Inl e)"
  by (cases r) auto

lemma Inr_unit_ex [simp]: "(\<exists>u::unit. r = Inr u \<and> P u) \<longleftrightarrow> r = Inr () \<and> P ()"
  by auto

lemma try_for_each_ok: "try_for_each f xs = Inr () \<longleftrightarrow> (\<forall>x\<in>set xs. f x = Inr ())"
  by (induction xs) (auto simp: and_then_eq_Inr)

lemma try_for_each_first_err:
  "\<lbrakk>\<forall>y\<in>set ys. f y = Inr (); f x = Inl e\<rbrakk> \<Longrightarrow> try_for_each f (ys @ x # zs) = Inl e"
  by (induction ys) auto

text \<open>
  The shape every \<open>validate\<close> method has: an early return of an error when a condition
  holds.
\<close>

definition guard_err :: "bool \<Rightarrow> 'e \<Rightarrow> 'e + unit" where
  "guard_err bad e = (if bad then Inl e else Inr ())"

lemma guard_err_ok [simp]: "guard_err bad e = Inr () \<longleftrightarrow> \<not> bad"
  by (simp add: guard_err_def)

lemma guard_err_err [simp]: "guard_err bad e = Inl e' \<longleftrightarrow> bad \<and> e' = e"
  by (auto simp: guard_err_def)

section \<open>Hash maps\<close>

text \<open>
  \<open>std::collections::HashMap\<close> as an association list whose keys are distinct; the order of
  the list is one order in which an iteration may meet the entries. \<open>insert\<close> replaces the
  value of a present key, \<open>remove\<close> drops the entry.
\<close>

type_synonym ('k, 'v) hashmap = "('k \<times> 'v) list"

abbreviation hm_get :: "('k, 'v) hashmap \<Rightarrow> 'k \<Rightarrow> 'v option" where
  "hm_get \<equiv> map_of"

abbreviation hm_insert :: "'k \<Rightarrow> 'v \<Rightarrow> ('k, 'v) hashmap \<Rightarrow> ('k, 'v) hashmap" where
  "hm_insert \<equiv> AList.update"

abbreviation hm_remove :: "'k \<Rightarrow> ('k, 'v) hashmap \<Rightarrow> ('k, 'v) hashmap" where
  "hm_remove \<equiv> AList.delete"

abbreviation hm_values :: "('k, 'v) hashmap \<Rightarrow> 'v list" where
  "hm_values m \<equiv> map snd m"

abbreviation hm_keys :: "('k, 'v) hashmap \<Rightarrow> 'k list" where
  "hm_keys m \<equiv> map fst m"

abbreviation hm_wf :: "('k, 'v) hashmap \<Rightarrow> bool" where
  "hm_wf m \<equiv> distinct (map fst m)"

lemma hm_get_insert [simp]: "hm_get (hm_insert k v m) = (hm_get m)(k \<mapsto> v)"
  by (rule ext) (simp add: update_conv')

lemma hm_get_remove [simp]: "hm_get (hm_remove k m) = (hm_get m)(k := None)"
  by (rule ext) (simp add: delete_conv')

lemma hm_wf_insert [intro]: "hm_wf m \<Longrightarrow> hm_wf (hm_insert k v m)"
  by (rule distinct_update)

lemma hm_wf_remove [intro]: "hm_wf m \<Longrightarrow> hm_wf (hm_remove k m)"
  by (rule distinct_delete)

lemma hm_in_set: "hm_wf m \<Longrightarrow> (k, v) \<in> set m \<longleftrightarrow> hm_get m k = Some v"
  by simp

lemma set_hm_insert: "hm_wf m \<Longrightarrow>
    set (hm_insert k v m) = insert (k, v) {e \<in> set m. fst e \<noteq> k}"
  by (induction m) (auto split: if_splits intro: rev_image_eqI)

lemma set_hm_remove: "set (hm_remove k m) = {e \<in> set m. fst e \<noteq> k}"
  by (auto simp: AList.delete_eq)

lemma hm_insert_fresh: "k \<notin> set (hm_keys m) \<Longrightarrow> hm_insert k v m = m @ [(k, v)]"
  by (induction m) auto

lemma hm_keys_insert: "fst ` set (hm_insert k v m) = insert k (fst ` set m)"
  by (induction m) auto

lemma hm_remove_absent: "k \<notin> set (hm_keys m) \<Longrightarrow> hm_remove k m = m"
  by (induction m) (auto simp: AList.delete_eq)

lemma list_all_update: "\<lbrakk>list_all P xs; P x\<rbrakk> \<Longrightarrow> list_all P (xs[i := x])"
  using set_update_subset_insert [of xs i x] by (auto simp: list_all_iff)

section \<open>Machine integers\<close>

text \<open>
  The source's integers at their width: \<open>+\<close> and \<open>-\<close> wrap, as Rust's do in the release
  profile of \<open>Cargo.toml\<close>, which leaves overflow checks off. A signed integer is compared
  through \<open>sint\<close>.
\<close>

type_synonym i8 = "8 word"
type_synonym u8 = "8 word"
type_synonym u16 = "16 word"
type_synonym i32 = "32 word"
type_synonym u32 = "32 word"
type_synonym u64 = "64 word"

definition i32_max0 :: "i32 \<Rightarrow> i32" where
  "i32_max0 x = (if sint x < 0 then 0 else x)"

lemma sint_i32_bounds: "- 2147483648 \<le> sint (x :: i32)" "sint (x :: i32) \<le> 2147483647"
  using sint_ge [of x] sint_lt [of x] by simp_all

lemma sint_i32_add:
  fixes x y :: i32
  assumes "- 2147483648 \<le> sint x + sint y" and "sint x + sint y \<le> 2147483647"
  shows "sint (x + y) = sint x + sint y"
  using assms by (simp add: sint_word_ariths signed_take_bit_int_eq_self)

lemma sint_i32_sub:
  fixes x y :: i32
  assumes "- 2147483648 \<le> sint x - sint y" and "sint x - sint y \<le> 2147483647"
  shows "sint (x - y) = sint x - sint y"
  using assms by (simp add: sint_word_ariths signed_take_bit_int_eq_self)

lemma sint_i32_sub_le:
  fixes x y :: i32
  assumes "0 \<le> sint y" and "sint y \<le> sint x"
  shows "sint (x - y) = sint x - sint y"
  using assms sint_i32_bounds [of x] by (intro sint_i32_sub) linarith+

lemma sint_i32_eq: "sint (x :: i32) = sint y \<longleftrightarrow> x = y"
  by (auto intro: signed_word_eqI)

lemma sint_i32_max0: "sint (i32_max0 x) = max 0 (sint x)"
  by (simp add: i32_max0_def)

lemma unat_u64_Suc: "(x :: u64) \<noteq> - 1 \<Longrightarrow> unat (x + 1) = Suc (unat x)"
  by (metis add.commute add_eq_0_iff unatSuc)

section \<open>Decimal numbers as text\<close>

text \<open>\<open>Display\<close> for integers, and \<open>str::parse::<i64>\<close>.\<close>

definition digit_char :: "nat \<Rightarrow> char" where
  "digit_char d = char_of (48 + d)"

definition is_digit :: "char \<Rightarrow> bool" where
  "is_digit c = (48 \<le> (of_char c :: nat) \<and> (of_char c :: nat) \<le> 57)"

definition digit_val :: "char \<Rightarrow> nat" where
  "digit_val c = of_char c - 48"

fun show_nat :: "nat \<Rightarrow> string" where
  "show_nat n = (if n < 10 then [digit_char n] else show_nat (n div 10) @ [digit_char (n mod 10)])"

declare show_nat.simps [simp del]

definition show_int :: "int \<Rightarrow> string" where
  "show_int i = (if i < 0 then ''-'' @ show_nat (nat (- i)) else show_nat (nat i))"

fun digits_val :: "nat \<Rightarrow> string \<Rightarrow> nat" where
  "digits_val acc [] = acc"
| "digits_val acc (c # cs) = digits_val (10 * acc + digit_val c) cs"

definition parse_digits :: "string \<Rightarrow> nat option" where
  "parse_digits s = (if s \<noteq> [] \<and> list_all is_digit s then Some (digits_val 0 s) else None)"

definition parse_i64 :: "string \<Rightarrow> int option" where
  "parse_i64 s =
     (let v = (case s of
                 [] \<Rightarrow> None
               | c # cs \<Rightarrow>
                   if c = CHR ''-'' then map_option (\<lambda>n. - int n) (parse_digits cs)
                   else if c = CHR ''+'' then map_option int (parse_digits cs)
                   else map_option int (parse_digits s))
      in case v of
           None \<Rightarrow> None
         | Some i \<Rightarrow> if - (2 ^ 63) \<le> i \<and> i < 2 ^ 63 then Some i else None)"

lemma digit_char_simps:
  assumes "d < 10"
  shows "is_digit (digit_char d)" "digit_val (digit_char d) = d"
  using assms by (simp_all add: is_digit_def digit_char_def digit_val_def of_char_of)

lemma show_nat_digits: "list_all is_digit (show_nat n) \<and> show_nat n \<noteq> []"
proof (induction n rule: show_nat.induct)
  case (1 n)
  then show ?case
    by (subst (1 2) show_nat.simps) (auto simp: digit_char_simps)
qed

lemma digits_val_append: "digits_val acc (xs @ ys) = digits_val (digits_val acc xs) ys"
  by (induction xs arbitrary: acc) auto

lemma digits_val_show: "digits_val 0 (show_nat n) = n"
proof (induction n rule: show_nat.induct)
  case (1 n)
  then show ?case
    by (subst show_nat.simps) (auto simp: digits_val_append digit_char_simps)
qed

lemma parse_digits_show [simp]: "parse_digits (show_nat n) = Some n"
  by (simp add: parse_digits_def show_nat_digits digits_val_show)

lemma show_nat_inj [simp]: "show_nat m = show_nat n \<longleftrightarrow> m = n"
  by (metis digits_val_show)

lemma show_nat_ne_Nil [simp]: "show_nat n \<noteq> []"
  using show_nat_digits by blast

lemma not_digit: "\<not> is_digit (CHR ''-'')" "\<not> is_digit (CHR ''+'')"
  by (simp_all add: is_digit_def)

lemma dash_notin_show: "CHR ''-'' \<notin> set (show_nat n)"
  using show_nat_digits [of n] not_digit by (auto simp: list_all_iff)

lemma hd_show_nat: "c # cs = show_nat n \<Longrightarrow> c \<noteq> CHR ''-'' \<and> c \<noteq> CHR ''+''"
  using show_nat_digits [of n] not_digit by (cases "show_nat n") (auto simp: list_all_iff)

lemma parse_i64_show_int:
  assumes "- (2 ^ 63) \<le> i" and "i < 2 ^ 63"
  shows "parse_i64 (show_int i) = Some i"
proof (cases "i < 0")
  case True
  then show ?thesis
    using assms by (simp add: parse_i64_def show_int_def)
next
  case False
  obtain c cs where s: "show_nat (nat i) = c # cs"
    by (cases "show_nat (nat i)") simp_all
  with hd_show_nat [of c cs "nat i"] have "c \<noteq> CHR ''-''" "c \<noteq> CHR ''+''" by simp_all
  moreover from s have "parse_digits (c # cs) = Some (nat i)"
    by (metis parse_digits_show)
  ultimately show ?thesis
    using False assms s by (simp add: parse_i64_def show_int_def)
qed

definition quoted :: "string \<Rightarrow> string" where
  "quoted s = CHR 0x27 # s @ [CHR 0x27]"

text \<open>A text with a dash and a decimal number appended can be taken apart again.\<close>

lemma dash_show_inj:
  "a @ CHR ''-'' # show_nat m = b @ CHR ''-'' # show_nat n \<longleftrightarrow> a = b \<and> m = n"
proof
  assume eq: "a @ CHR ''-'' # show_nat m = b @ CHR ''-'' # show_nat n"
  have tw: "takeWhile (\<lambda>c. c \<noteq> CHR ''-'') (rev (x @ CHR ''-'' # show_nat k)) = rev (show_nat k)" for x k
    using dash_notin_show [of k] by (auto simp: takeWhile_append2 takeWhile_tail)
  have "rev (show_nat m) = rev (show_nat n)"
    using tw [of a m] tw [of b n] eq by metis
  then show "a = b \<and> m = n"
    using eq by auto
qed simp

section \<open>Stateful fallible operations\<close>

text \<open>
  An operation that may fail and that changes a state returns its result with the new state;
  the state at an error is the one the early return leaves behind. \<open>sbind\<close> is the \<open>?\<close>
  operator between two such operations.
\<close>

definition sbind :: "('s \<Rightarrow> ('e + 'a) \<times> 's) \<Rightarrow> ('a \<Rightarrow> 's \<Rightarrow> ('e + 'b) \<times> 's) \<Rightarrow> 's \<Rightarrow> ('e + 'b) \<times> 's" where
  "sbind m f s = (case m s of (Inl e, s') \<Rightarrow> (Inl e, s') | (Inr x, s') \<Rightarrow> f x s')"

definition slift :: "'e + 'a \<Rightarrow> 's \<Rightarrow> ('e + 'a) \<times> 's" where
  "slift r s = (r, s)"

lemma sbind_Inr:
  "sbind m f s = (Inr y, s'') \<longleftrightarrow> (\<exists>x s'. m s = (Inr x, s') \<and> f x s' = (Inr y, s''))"
  by (auto simp: sbind_def split: prod.splits sum.splits)

lemma sbind_Inl:
  "sbind m f s = (Inl e, s'') \<longleftrightarrow>
     m s = (Inl e, s'') \<or> (\<exists>x s'. m s = (Inr x, s') \<and> f x s' = (Inl e, s''))"
  by (auto simp: sbind_def split: prod.splits sum.splits)

lemma sbind_cases:
  obtains (err) e s' where "m s = (Inl e, s')" "sbind m f s = (Inl e, s')"
    | (ok) x s' where "m s = (Inr x, s')" "sbind m f s = f x s'"
  by (cases "m s"; cases "fst (m s)") (auto simp: sbind_def)

lemma slift_eq [simp]: "slift r s = (r', s') \<longleftrightarrow> r = r' \<and> s = s'"
  by (auto simp: slift_def)

fun try_map :: "('a \<Rightarrow> 'e + 'b) \<Rightarrow> 'a list \<Rightarrow> 'e + 'b list" where
  "try_map f [] = Inr []"
| "try_map f (x # xs) = and_then (f x) (\<lambda>y. and_then (try_map f xs) (\<lambda>ys. Inr (y # ys)))"

lemma try_map_ok: "\<forall>x\<in>set xs. f x = Inr (g x) \<Longrightarrow> try_map f xs = Inr (map g xs)"
  by (induction xs) auto

section \<open>Invariants of reachable states\<close>

inductive reachable :: "('s \<Rightarrow> bool) \<Rightarrow> ('s \<Rightarrow> 's \<Rightarrow> bool) \<Rightarrow> 's \<Rightarrow> bool" for init step where
  reach_init: "init s \<Longrightarrow> reachable init step s"
| reach_step: "\<lbrakk>reachable init step s; step s s'\<rbrakk> \<Longrightarrow> reachable init step s'"

text \<open>
  What a component owes for an invariant: it holds initially and every step keeps it. Then
  every reachable state satisfies it.
\<close>

locale inductive_invariant =
  fixes init :: "'s \<Rightarrow> bool"
    and step :: "'s \<Rightarrow> 's \<Rightarrow> bool"
    and inv :: "'s \<Rightarrow> bool"
  assumes inv_init: "init s \<Longrightarrow> inv s"
    and inv_step: "\<lbrakk>inv s; step s s'\<rbrakk> \<Longrightarrow> inv s'"
begin

lemma reachable_inv: "reachable init step s \<Longrightarrow> inv s"
  by (induction rule: reachable.induct) (auto intro: inv_init inv_step)

lemma rtranclp_inv: "\<lbrakk>step\<^sup>*\<^sup>* s s'; inv s\<rbrakk> \<Longrightarrow> inv s'"
  by (induction rule: rtranclp_induct) (auto intro: inv_step)

end

end
