(* ===== verification/Nomad_Error.thy ===== *)
theory Nomad_Error
  imports Rust_Str
begin

text \<open>
  \<open>src/src/error.rs\<close>: the error type of every fallible operation, its \<open>Display\<close>, and the
  crate's \<open>Result\<close>. The four variants that wrap an error of a library carry its text.
\<close>

datatype error =
    Io string
  | Serialize string
  | TomlParse string
  | Database string
  | Config string
  | Runtime string
  | Validation string

type_synonym 'a result = "error + 'a"

fun error_display :: "error \<Rightarrow> string" where
  "error_display (Io e) = ''io error: '' @ e"
| "error_display (Serialize e) = ''serialisation error: '' @ e"
| "error_display (TomlParse e) = ''toml parse error: '' @ e"
| "error_display (Database e) = ''database error: '' @ e"
| "error_display (Config e) = ''config error: '' @ e"
| "error_display (Runtime e) = ''runtime error: '' @ e"
| "error_display (Validation e) = ''validation error: '' @ e"

text \<open>The text of an error names its variant, so no two errors are displayed alike.\<close>

lemma error_display_inj: "error_display a = error_display b \<longleftrightarrow> a = b"
  by (cases a; cases b) auto

section \<open>The contract of a validator\<close>

text \<open>
  Every \<open>validate\<close> method of the crate promises to accept exactly the values that are well
  formed. What a loop that validates the members of a collection then means is proved once,
  here, and used at every interpretation.
\<close>

locale validator =
  fixes validate :: "'a \<Rightarrow> unit result"
    and valid :: "'a \<Rightarrow> bool"
  assumes validate_iff: "validate x = Inr () \<longleftrightarrow> valid x"
begin

lemma validate_all_iff: "try_for_each validate xs = Inr () \<longleftrightarrow> (\<forall>x\<in>set xs. valid x)"
  by (simp add: try_for_each_ok validate_iff)

lemma validate_cases: "(validate x = Inr () \<and> valid x) \<or> (\<exists>e. validate x = Inl e \<and> \<not> valid x)"
  using validate_iff [of x] by (cases "validate x") auto

lemma validate_all_reports_first:
  assumes "\<forall>y\<in>set ys. valid y" and "validate x = Inl e"
  shows "try_for_each validate (ys @ x # zs) = Inl e"
  using assms by (intro try_for_each_first_err) (auto simp: validate_iff)

end

end
