(* ===== verification/Constraint.thy ===== *)
theory Constraint
  imports Nomad_Error
begin

text \<open>
  \<open>src/src/constraint.rs\<close>: hard constraints, affinities and spread targets of a task group.
  The \<open>regex\<close> and \<open>semver\<close> crates are parameters, gathered in the record \<open>crates\<close>:
  compiling a pattern gives a matcher or fails, parsing a version or a version requirement
  gives a value or fails.
\<close>

record 'v crates =
  regex_new :: "string \<Rightarrow> (string \<Rightarrow> bool) option"
  version_parse :: "string \<Rightarrow> 'v option"
  version_req_parse :: "string \<Rightarrow> ('v \<Rightarrow> bool) option"

definition KNOWN_OPERANDS :: "string list" where
  "KNOWN_OPERANDS =
     [''='', ''!='', ''>'', ''>='', ''<'', ''<='', ''regexp'', ''version'', ''set_contains'',
      ''distinct_hosts'', ''distinct_property'']"

record constraint =
  c_left :: string
  c_right :: string
  c_operand :: string

definition constraint_validate :: "constraint \<Rightarrow> unit result" where
  "constraint_validate c =
     and_then (guard_err (c_left c = []) (Config ''constraint left target cannot be empty'')) (\<lambda>_.
     and_then (guard_err (c_right c = [] \<and> c_operand c \<notin> {''distinct_hosts'', ''distinct_property''})
                 (Config ''constraint right target cannot be empty'')) (\<lambda>_.
     guard_err (c_operand c \<notin> set KNOWN_OPERANDS)
       (Config (''unknown constraint operand '' @ quoted (c_operand c)))))"

text \<open>\<open>cmp_num\<close>: both sides must parse as \<open>i64\<close>.\<close>

definition cmp_num :: "string \<Rightarrow> string \<Rightarrow> (int \<Rightarrow> int \<Rightarrow> bool) \<Rightarrow> bool" where
  "cmp_num l r cmp =
     (case parse_i64 l of
        None \<Rightarrow> False
      | Some a \<Rightarrow> (case parse_i64 r of None \<Rightarrow> False | Some b \<Rightarrow> cmp a b))"

definition eval_regexp :: "'v crates \<Rightarrow> string \<Rightarrow> string \<Rightarrow> bool" where
  "eval_regexp X val pattern =
     (case regex_new X pattern of None \<Rightarrow> False | Some is_match \<Rightarrow> is_match val)"

definition eval_version :: "'v crates \<Rightarrow> string \<Rightarrow> string \<Rightarrow> bool" where
  "eval_version X val constr =
     (case version_parse X val of
        None \<Rightarrow> False
      | Some ver \<Rightarrow> (case version_req_parse X (trim constr) of None \<Rightarrow> False | Some req \<Rightarrow> req ver))"

definition constraint_satisfied_by ::
    "'v crates \<Rightarrow> constraint \<Rightarrow> (string, string) hashmap \<Rightarrow> bool" where
  "constraint_satisfied_by X c attributes =
     (let attr_val = (case hm_get attributes (c_left c) of None \<Rightarrow> [] | Some v \<Rightarrow> v);
          right = c_right c; op = c_operand c
      in if op = ''='' then attr_val = right
         else if op = ''!='' then attr_val \<noteq> right
         else if op = ''>'' then cmp_num attr_val right (\<lambda>a b. a > b)
         else if op = ''>='' then cmp_num attr_val right (\<lambda>a b. a \<ge> b)
         else if op = ''<'' then cmp_num attr_val right (\<lambda>a b. a < b)
         else if op = ''<='' then cmp_num attr_val right (\<lambda>a b. a \<le> b)
         else if op = ''regexp'' then eval_regexp X attr_val right
         else if op = ''version'' then eval_version X attr_val right
         else if op = ''set_contains'' then list_ex (\<lambda>v. trim v = right) (split_on (CHR '','') attr_val)
         else if op = ''distinct_hosts'' \<or> op = ''distinct_property'' then True
         else False)"

record affinity =
  a_left :: string
  a_right :: string
  a_operand :: string
  a_weight :: i8

definition affinity_validate :: "affinity \<Rightarrow> unit result" where
  "affinity_validate a =
     and_then (guard_err (\<not> (- 100 \<le> sint (a_weight a) \<and> sint (a_weight a) \<le> 100))
                 (Config (''affinity weight '' @ show_int (sint (a_weight a))
                            @ '' out of range [-100, 100]''))) (\<lambda>_.
     and_then (guard_err (a_left a = []) (Config ''affinity left target cannot be empty'')) (\<lambda>_.
     guard_err (a_operand a \<notin> set KNOWN_OPERANDS)
       (Config (''unknown affinity operand '' @ quoted (a_operand a)))))"

definition affinity_satisfied_by ::
    "'v crates \<Rightarrow> affinity \<Rightarrow> (string, string) hashmap \<Rightarrow> bool" where
  "affinity_satisfied_by X a attributes =
     (let attr_val = (case hm_get attributes (a_left a) of None \<Rightarrow> [] | Some v \<Rightarrow> v);
          right = a_right a; op = a_operand a
      in if op = ''='' then attr_val = right
         else if op = ''!='' then attr_val \<noteq> right
         else if op = ''>'' then cmp_num attr_val right (\<lambda>x y. x > y)
         else if op = ''>='' then cmp_num attr_val right (\<lambda>x y. x \<ge> y)
         else if op = ''<'' then cmp_num attr_val right (\<lambda>x y. x < y)
         else if op = ''<='' then cmp_num attr_val right (\<lambda>x y. x \<le> y)
         else if op = ''regexp'' then eval_regexp X attr_val right
         else if op = ''version'' then eval_version X attr_val right
         else if op = ''set_contains'' then list_ex (\<lambda>v. trim v = right) (split_on (CHR '','') attr_val)
         else if op = ''distinct_hosts'' \<or> op = ''distinct_property'' then True
         else False)"

record spread_target =
  st_value :: string
  st_percent :: u8

record spread =
  sp_attribute :: string
  sp_targets :: "spread_target list"

text \<open>The percents are summed in a \<open>u16\<close>, which wraps.\<close>

definition spread_total :: "spread \<Rightarrow> u16" where
  "spread_total s = fold (\<lambda>t acc. acc + ucast (st_percent t)) (sp_targets s) 0"

definition spread_validate :: "spread \<Rightarrow> unit result" where
  "spread_validate s =
     and_then (guard_err (sp_attribute s = []) (Config ''spread attribute cannot be empty'')) (\<lambda>_.
     guard_err (spread_total s > 100)
       (Config (''spread target percents sum to '' @ show_nat (unat (spread_total s))
                  @ '', exceeding 100'')))"

section \<open>What the validators accept\<close>

definition constraint_ok :: "constraint \<Rightarrow> bool" where
  "constraint_ok c \<longleftrightarrow> c_left c \<noteq> [] \<and> c_operand c \<in> set KNOWN_OPERANDS \<and>
     (c_right c \<noteq> [] \<or> c_operand c \<in> {''distinct_hosts'', ''distinct_property''})"

interpretation cv: validator constraint_validate constraint_ok
  by unfold_locales (auto simp: constraint_validate_def constraint_ok_def res_simps)

text \<open>An affinity and a constraint with the same targets and operand agree on every node.\<close>

lemma affinity_as_constraint:
  "affinity_satisfied_by X a attrs =
     constraint_satisfied_by X \<lparr>c_left = a_left a, c_right = a_right a, c_operand = a_operand a\<rparr> attrs"
  by (simp add: affinity_satisfied_by_def constraint_satisfied_by_def)

lemma satisfied_known_operand:
  "constraint_satisfied_by X c attrs \<Longrightarrow> c_operand c \<in> set KNOWN_OPERANDS"
  by (auto simp: constraint_satisfied_by_def KNOWN_OPERANDS_def Let_def split: if_splits)

text \<open>A numeric comparison with the decimal text of two integers compares the integers.\<close>

lemma cmp_num_show:
  assumes "- (2 ^ 63) \<le> a" "a < 2 ^ 63" "- (2 ^ 63) \<le> b" "b < 2 ^ 63"
  shows "cmp_num (show_int a) (show_int b) cmp = cmp a b"
  using assms by (simp add: cmp_num_def parse_i64_show_int)

section \<open>The spread total\<close>

lemma fold_spread_total:
  "fold (\<lambda>t acc. acc + ucast (st_percent t)) ts (c :: u16) =
     c + of_nat (sum_list (map (\<lambda>t. unat (st_percent t)) ts))"
  by (induction ts arbitrary: c) (simp_all add: add.assoc of_nat_unat)

lemma sum_percent_bound:
  "sum_list (map (\<lambda>t. unat (st_percent t)) ts) \<le> 255 * length ts"
proof (induction ts)
  case Nil
  then show ?case by simp
next
  case (Cons t ts)
  have "unat (st_percent t) < 2 ^ LENGTH(8)" by (rule unsigned_less)
  with Cons show ?case by simp
qed

lemma unat_spread_total:
  assumes "length (sp_targets s) \<le> 257"
  shows "unat (spread_total s) = sum_list (map (\<lambda>t. unat (st_percent t)) (sp_targets s))"
proof -
  have "sum_list (map (\<lambda>t. unat (st_percent t)) (sp_targets s)) < 2 ^ 16"
    using sum_percent_bound [of "sp_targets s"] assms by simp
  then show ?thesis
    by (simp add: spread_total_def fold_spread_total unat_of_nat)
qed

end
