(* ===== verification/Jobspec.thy ===== *)
theory Jobspec
  imports Constraint
begin

text \<open>
  \<open>src/src/jobspec.rs\<close> and \<open>src/src/id.rs\<close>: jobs, task groups, tasks and resources with
  their validation, and the identifier types. The identifiers are newtypes around
  \<open>String\<close> with the string's equality and hash, so they are type synonyms here. A driver
  configuration value is the \<open>Value\<close> enum of \<open>serde_json\<close>, a number kept as its text.
\<close>

type_synonym job_id = string
type_synonym node_id = string
type_synonym alloc_id = string
type_synonym eval_id = string

datatype json =
    Null
  | Bool bool
  | Number string
  | String string
  | Array "json list"
  | Object "(string \<times> json) list"

definition JOB_DEFAULT_PRIORITY :: i32 where "JOB_DEFAULT_PRIORITY = 50"
definition JOB_MIN_PRIORITY :: i32 where "JOB_MIN_PRIORITY = 1"
definition JOB_MAX_PRIORITY :: i32 where "JOB_MAX_PRIORITY = 100"

lemmas priority_defs = JOB_DEFAULT_PRIORITY_def JOB_MIN_PRIORITY_def JOB_MAX_PRIORITY_def

record resources =
  cpu_mhz :: i32
  memory_mb :: i32
  network_mbps :: i32

definition resources_default :: resources where
  "resources_default = \<lparr>cpu_mhz = 100, memory_mb = 256, network_mbps = 0\<rparr>"

record task =
  tk_name :: string
  tk_driver :: string
  tk_config :: "(string, json) hashmap"
  tk_resources :: resources

record task_group =
  tg_name :: string
  tg_count :: i32
  tg_tasks :: "task list"
  tg_constraints :: "constraint list"
  tg_affinities :: "affinity list"
  tg_spreads :: "spread list"

record job =
  jb_name :: string
  jb_meta :: "(string, string) hashmap"
  jb_datacenters :: "string list"
  jb_task_groups :: "task_group list"
  jb_priority :: i32

definition job_default :: job where
  "job_default = \<lparr>jb_name = [], jb_meta = [], jb_datacenters = [''dc1''], jb_task_groups = [],
                  jb_priority = JOB_DEFAULT_PRIORITY\<rparr>"

section \<open>Validation\<close>

definition priority_in_range :: "i32 \<Rightarrow> bool" where
  "priority_in_range p \<longleftrightarrow> sint JOB_MIN_PRIORITY \<le> sint p \<and> sint p \<le> sint JOB_MAX_PRIORITY"

definition resources_validate :: "resources \<Rightarrow> unit result" where
  "resources_validate r =
     and_then (guard_err (sint (cpu_mhz r) < 0)
       (Validation (''cpu_mhz cannot be negative ('' @ show_int (sint (cpu_mhz r)) @ '')''))) (\<lambda>_.
     and_then (guard_err (sint (memory_mb r) < 0)
       (Validation (''memory_mb cannot be negative ('' @ show_int (sint (memory_mb r)) @ '')''))) (\<lambda>_.
     guard_err (sint (network_mbps r) < 0)
       (Validation (''network_mbps cannot be negative ('' @ show_int (sint (network_mbps r)) @ '')''))))"

definition task_validate :: "task \<Rightarrow> unit result" where
  "task_validate t =
     and_then (guard_err (tk_name t = []) (Validation ''task name cannot be empty'')) (\<lambda>_.
     and_then (guard_err (tk_driver t = [])
       (Validation (''task '' @ quoted (tk_name t) @ '' driver cannot be empty''))) (\<lambda>_.
     resources_validate (tk_resources t)))"

text \<open>The loop over the tasks, with the set of names seen so far.\<close>

fun check_tasks :: "string \<Rightarrow> string set \<Rightarrow> task list \<Rightarrow> unit result" where
  "check_tasks gname seen [] = Inr ()"
| "check_tasks gname seen (t # ts) =
     (if tk_name t \<in> seen
      then Inl (Validation (''duplicate task name '' @ quoted (tk_name t)
                              @ '' in task group '' @ quoted gname))
      else and_then (task_validate t) (\<lambda>_. check_tasks gname (insert (tk_name t) seen) ts))"

definition task_group_validate :: "task_group \<Rightarrow> unit result" where
  "task_group_validate g =
     and_then (guard_err (tg_name g = []) (Validation ''task group name cannot be empty'')) (\<lambda>_.
     and_then (guard_err (sint (tg_count g) < 0)
       (Validation (''task group '' @ quoted (tg_name g) @ '' count cannot be negative (''
                      @ show_int (sint (tg_count g)) @ '')''))) (\<lambda>_.
     and_then (guard_err (tg_tasks g = [])
       (Validation (''task group '' @ quoted (tg_name g) @ '' has no tasks''))) (\<lambda>_.
     check_tasks (tg_name g) {} (tg_tasks g))))"

definition job_validate :: "job \<Rightarrow> unit result" where
  "job_validate j =
     and_then (guard_err (jb_name j = []) (Validation ''job name cannot be empty'')) (\<lambda>_.
     and_then (guard_err (\<not> priority_in_range (jb_priority j))
       (Validation (''priority '' @ show_int (sint (jb_priority j)) @ '' out of range [''
                      @ show_int (sint JOB_MIN_PRIORITY) @ '', ''
                      @ show_int (sint JOB_MAX_PRIORITY) @ '']''))) (\<lambda>_.
     and_then (guard_err (jb_datacenters j = [])
       (Validation ''at least one datacenter is required'')) (\<lambda>_.
     and_then (guard_err (list_ex (\<lambda>d. d = []) (jb_datacenters j))
       (Validation ''datacenter names cannot be empty'')) (\<lambda>_.
     try_for_each task_group_validate (jb_task_groups j)))))"

section \<open>Well-formed jobs\<close>

text \<open>
  The three dimensions of a resource vector, so that a statement about every dimension is
  written once.
\<close>

definition dims :: "(resources \<Rightarrow> i32) set" where
  "dims = {cpu_mhz, memory_mb, network_mbps}"

lemma ball_dims: "(\<forall>d\<in>dims. P d) \<longleftrightarrow> P cpu_mhz \<and> P memory_mb \<and> P network_mbps"
  by (auto simp: dims_def)

lemma in_dims [simp, intro]: "cpu_mhz \<in> dims" "memory_mb \<in> dims" "network_mbps \<in> dims"
  by (auto simp: dims_def)

definition resources_ok :: "resources \<Rightarrow> bool" where
  "resources_ok r \<longleftrightarrow> (\<forall>d\<in>dims. 0 \<le> sint (d r))"

definition task_ok :: "task \<Rightarrow> bool" where
  "task_ok t \<longleftrightarrow> tk_name t \<noteq> [] \<and> tk_driver t \<noteq> [] \<and> resources_ok (tk_resources t)"

definition task_group_ok :: "task_group \<Rightarrow> bool" where
  "task_group_ok g \<longleftrightarrow> tg_name g \<noteq> [] \<and> 0 \<le> sint (tg_count g) \<and> tg_tasks g \<noteq> [] \<and>
     distinct (map tk_name (tg_tasks g)) \<and> (\<forall>t\<in>set (tg_tasks g). task_ok t)"

definition job_ok :: "job \<Rightarrow> bool" where
  "job_ok j \<longleftrightarrow> jb_name j \<noteq> [] \<and> 1 \<le> sint (jb_priority j) \<and> sint (jb_priority j) \<le> 100 \<and>
     jb_datacenters j \<noteq> [] \<and> [] \<notin> set (jb_datacenters j) \<and>
     (\<forall>g\<in>set (jb_task_groups j). task_group_ok g)"

interpretation rv: validator resources_validate resources_ok
  by unfold_locales (auto simp: resources_validate_def resources_ok_def ball_dims res_simps)

interpretation tv: validator task_validate task_ok
  by unfold_locales (auto simp: task_validate_def task_ok_def res_simps rv.validate_iff)

lemma check_tasks_ok:
  "check_tasks gname seen ts = Inr () \<longleftrightarrow>
     distinct (map tk_name ts) \<and> (\<forall>t\<in>set ts. task_ok t \<and> tk_name t \<notin> seen)"
  by (induction gname seen ts rule: check_tasks.induct)
    (auto simp: res_simps tv.validate_iff image_iff)

interpretation gv: validator task_group_validate task_group_ok
  by unfold_locales
    (auto simp: task_group_validate_def task_group_ok_def res_simps check_tasks_ok)

lemma priority_in_range_iff: "priority_in_range p \<longleftrightarrow> 1 \<le> sint p \<and> sint p \<le> 100"
  by (simp add: priority_in_range_def priority_defs)

interpretation jv: validator job_validate job_ok
  by unfold_locales
    (auto simp: job_validate_def job_ok_def res_simps gv.validate_all_iff priority_in_range_iff
       list_ex_iff)

end
