(* ===== verification/Entities.thy ===== *)
theory Entities
  imports Jobspec
begin

text \<open>
  \<open>src/src/node.rs\<close>, \<open>src/src/alloc.rs\<close> and \<open>src/src/eval.rs\<close>: cluster nodes,
  allocations and evaluations, their status enums with the wire strings, their validation
  and their predicates.
\<close>

section \<open>Nodes\<close>

datatype node_status = NInit | NReady | NDown | NDisconnected

fun node_status_as_str :: "node_status \<Rightarrow> string" where
  "node_status_as_str NInit = ''initializing''"
| "node_status_as_str NReady = ''ready''"
| "node_status_as_str NDown = ''down''"
| "node_status_as_str NDisconnected = ''disconnected''"

datatype scheduling_eligibility = Eligible | Ineligible

record node =
  nd_id :: node_id
  nd_name :: string
  nd_datacenter :: string
  nd_class :: string
  nd_resources :: resources
  nd_status :: node_status
  nd_eligibility :: scheduling_eligibility
  nd_draining :: bool
  nd_attributes :: "(string, string) hashmap"
  nd_drivers :: "(string, bool) hashmap"

definition node_validate :: "node \<Rightarrow> unit result" where
  "node_validate n =
     and_then (guard_err (nd_id n = []) (Validation ''node id cannot be empty'')) (\<lambda>_.
     and_then (guard_err (nd_name n = []) (Validation ''node name cannot be empty'')) (\<lambda>_.
     guard_err (nd_datacenter n = []) (Validation ''node datacenter cannot be empty'')))"

definition node_is_ready :: "node \<Rightarrow> bool" where
  "node_is_ready n \<longleftrightarrow>
     nd_status n = NReady \<and> nd_eligibility n = Eligible \<and> \<not> nd_draining n"

definition has_healthy_driver :: "node \<Rightarrow> string \<Rightarrow> bool" where
  "has_healthy_driver n driver = (case hm_get (nd_drivers n) driver of None \<Rightarrow> False | Some b \<Rightarrow> b)"

definition node_ok :: "node \<Rightarrow> bool" where
  "node_ok n \<longleftrightarrow> nd_id n \<noteq> [] \<and> nd_name n \<noteq> [] \<and> nd_datacenter n \<noteq> []"

interpretation nv: validator node_validate node_ok
  by unfold_locales (auto simp: node_validate_def node_ok_def res_simps)

section \<open>Allocations\<close>

datatype desired_status = DRun | DStop | DEvict

fun desired_status_as_str :: "desired_status \<Rightarrow> string" where
  "desired_status_as_str DRun = ''run''"
| "desired_status_as_str DStop = ''stop''"
| "desired_status_as_str DEvict = ''evict''"

datatype client_status = CPending | CRunning | CComplete | CFailed | CLost

fun client_status_as_str :: "client_status \<Rightarrow> string" where
  "client_status_as_str CPending = ''pending''"
| "client_status_as_str CRunning = ''running''"
| "client_status_as_str CComplete = ''complete''"
| "client_status_as_str CFailed = ''failed''"
| "client_status_as_str CLost = ''lost''"

definition client_status_is_terminal :: "client_status \<Rightarrow> bool" where
  "client_status_is_terminal s \<longleftrightarrow> s \<in> {CComplete, CFailed, CLost}"

record allocation =
  al_id :: alloc_id
  al_eval_id :: eval_id
  al_node_id :: node_id
  al_job_id :: job_id
  al_task_group :: string
  al_desired_status :: desired_status
  al_client_status :: client_status
  al_resources :: resources

definition alloc_validate :: "allocation \<Rightarrow> unit result" where
  "alloc_validate a =
     and_then (guard_err (al_id a = []) (Validation ''alloc id cannot be empty'')) (\<lambda>_.
     and_then (guard_err (al_node_id a = []) (Validation ''alloc node_id cannot be empty'')) (\<lambda>_.
     and_then (guard_err (al_job_id a = []) (Validation ''alloc job_id cannot be empty'')) (\<lambda>_.
     guard_err (al_task_group a = []) (Validation ''alloc task_group cannot be empty''))))"

definition alloc_is_terminal :: "allocation \<Rightarrow> bool" where
  "alloc_is_terminal a = client_status_is_terminal (al_client_status a)"

definition alloc_ok :: "allocation \<Rightarrow> bool" where
  "alloc_ok a \<longleftrightarrow> al_id a \<noteq> [] \<and> al_node_id a \<noteq> [] \<and> al_job_id a \<noteq> [] \<and> al_task_group a \<noteq> []"

interpretation av: validator alloc_validate alloc_ok
  by unfold_locales (auto simp: alloc_validate_def alloc_ok_def res_simps)

section \<open>Evaluations\<close>

datatype eval_trigger =
  JobRegister | JobDeregister | NodeUpdate | NodeDrain | AllocFailure | MaxPlanAttempts

fun eval_trigger_as_str :: "eval_trigger \<Rightarrow> string" where
  "eval_trigger_as_str JobRegister = ''job-register''"
| "eval_trigger_as_str JobDeregister = ''job-deregister''"
| "eval_trigger_as_str NodeUpdate = ''node-update''"
| "eval_trigger_as_str NodeDrain = ''node-drain''"
| "eval_trigger_as_str AllocFailure = ''alloc-failure''"
| "eval_trigger_as_str MaxPlanAttempts = ''max-plan-attempts''"

datatype eval_status = EBlocked | EPending | EComplete | EFailed | ECanceled

fun eval_status_as_str :: "eval_status \<Rightarrow> string" where
  "eval_status_as_str EBlocked = ''blocked''"
| "eval_status_as_str EPending = ''pending''"
| "eval_status_as_str EComplete = ''complete''"
| "eval_status_as_str EFailed = ''failed''"
| "eval_status_as_str ECanceled = ''canceled''"

definition eval_status_is_terminal :: "eval_status \<Rightarrow> bool" where
  "eval_status_is_terminal s \<longleftrightarrow> s \<in> {EComplete, EFailed, ECanceled}"

record evaluation =
  ev_id :: eval_id
  ev_job_id :: job_id
  ev_priority :: i32
  ev_trigger :: eval_trigger
  ev_status :: eval_status

definition eval_validate :: "evaluation \<Rightarrow> unit result" where
  "eval_validate e =
     and_then (guard_err (ev_id e = []) (Validation ''eval id cannot be empty'')) (\<lambda>_.
     and_then (guard_err (ev_job_id e = []) (Validation ''eval job_id cannot be empty'')) (\<lambda>_.
     guard_err (\<not> priority_in_range (ev_priority e))
       (Validation (''priority '' @ show_int (sint (ev_priority e)) @ '' out of range (''
                      @ show_int (sint JOB_MIN_PRIORITY) @ ''-''
                      @ show_int (sint JOB_MAX_PRIORITY) @ '')''))))"

definition eval_is_schedulable :: "evaluation \<Rightarrow> bool" where
  "eval_is_schedulable e \<longleftrightarrow> ev_status e = EPending"

definition eval_ok :: "evaluation \<Rightarrow> bool" where
  "eval_ok e \<longleftrightarrow> ev_id e \<noteq> [] \<and> ev_job_id e \<noteq> [] \<and>
     1 \<le> sint (ev_priority e) \<and> sint (ev_priority e) \<le> 100"

interpretation ev: validator eval_validate eval_ok
  by unfold_locales
    (auto simp: eval_validate_def eval_ok_def res_simps priority_in_range_iff)

section \<open>Wire strings\<close>

text \<open>The wire strings of each enum are pairwise distinct.\<close>

lemma node_status_as_str_inj: "inj node_status_as_str"
proof (rule injI)
  fix x y show "node_status_as_str x = node_status_as_str y \<Longrightarrow> x = y"
    by (cases x; cases y) simp_all
qed

lemma desired_status_as_str_inj: "inj desired_status_as_str"
proof (rule injI)
  fix x y show "desired_status_as_str x = desired_status_as_str y \<Longrightarrow> x = y"
    by (cases x; cases y) simp_all
qed

lemma client_status_as_str_inj: "inj client_status_as_str"
proof (rule injI)
  fix x y show "client_status_as_str x = client_status_as_str y \<Longrightarrow> x = y"
    by (cases x; cases y) simp_all
qed

section \<open>Sample entities\<close>

text \<open>A node, a job with one group and an evaluation, the shared input of the witnesses.\<close>

definition sample_node :: node where
  "sample_node =
     \<lparr>nd_id = ''n1'', nd_name = ''node-1'', nd_datacenter = ''dc1'', nd_class = [],
      nd_resources = \<lparr>cpu_mhz = 1000, memory_mb = 1024, network_mbps = 100\<rparr>,
      nd_status = NReady, nd_eligibility = Eligible, nd_draining = False,
      nd_attributes = [(''cpu.arch'', ''amd64'')], nd_drivers = [(''raw_exec'', True)]\<rparr>"

definition sample_group :: task_group where
  "sample_group =
     \<lparr>tg_name = ''web'', tg_count = 2,
      tg_tasks = [\<lparr>tk_name = ''server'', tk_driver = ''raw_exec'', tk_config = [],
                   tk_resources = \<lparr>cpu_mhz = 300, memory_mb = 256, network_mbps = 10\<rparr>\<rparr>],
      tg_constraints = [], tg_affinities = [], tg_spreads = []\<rparr>"

definition sample_job :: job where
  "sample_job =
     \<lparr>jb_name = ''shop'', jb_meta = [], jb_datacenters = [''dc1''],
      jb_task_groups = [sample_group], jb_priority = 50\<rparr>"

definition sample_eval :: evaluation where
  "sample_eval =
     \<lparr>ev_id = ''e1'', ev_job_id = ''shop'', ev_priority = 50, ev_trigger = JobRegister,
      ev_status = EPending\<rparr>"

end
