(* ===== verification/Disk.thy ===== *)
theory Disk
  imports Nomad_Error
begin

text \<open>
  What the source uses of \<open>std::fs\<close>, \<open>std::path\<close> and \<open>BufRead::lines\<close>. A disk maps paths to
  contents. The environment decides which operation fails: \<open>faults\<close> gives, for the number
  of the operation, the message of the failure and how far the operation had got (0: it
  changed nothing; k + 1: the file had been opened and k bytes had been written).
\<close>

type_synonym path = "string list"

record disk =
  files :: "path \<rightharpoonup> string"
  faults :: "nat \<Rightarrow> (string \<times> nat) option"
  ops :: nat

section \<open>Paths\<close>

text \<open>A path is the list of its components; the extension starts at the last inner dot.\<close>

definition file_stem :: "string \<Rightarrow> string" where
  "file_stem f =
     (let back = dropWhile (\<lambda>c. c \<noteq> CHR ''.'') (rev f)
      in if length back \<le> 1 then f else rev (tl back))"

definition with_extension :: "path \<Rightarrow> string \<Rightarrow> path" where
  "with_extension p ext =
     (if p = [] \<or> last p = ''..'' then p else butlast p @ [file_stem (last p) @ ''.'' @ ext])"

section \<open>Operations\<close>

definition fs_op :: "(disk \<Rightarrow> 'a result \<times> disk) \<Rightarrow> (nat \<Rightarrow> disk \<Rightarrow> disk) \<Rightarrow> disk \<Rightarrow> 'a result \<times> disk" where
  "fs_op good bad d =
     (case faults d (ops d) of
        None \<Rightarrow> good (d\<lparr>ops := Suc (ops d)\<rparr>)
      | Some (msg, k) \<Rightarrow> (Inl (Io msg), bad k (d\<lparr>ops := Suc (ops d)\<rparr>)))"

definition fs_exists :: "path \<Rightarrow> disk \<Rightarrow> bool" where
  "fs_exists p d = (files d p \<noteq> None)"

definition fs_read :: "path \<Rightarrow> disk \<Rightarrow> string result \<times> disk" where
  "fs_read p =
     fs_op (\<lambda>d. (case files d p of None \<Rightarrow> Inl (Io ''entity not found'') | Some c \<Rightarrow> Inr c, d)) (\<lambda>_ d. d)"

text \<open>\<open>read_to_string\<close> reads the bytes and refuses those that are not UTF-8.\<close>

definition fs_read_to_string :: "path \<Rightarrow> disk \<Rightarrow> string result \<times> disk" where
  "fs_read_to_string p d =
     (case fs_read p d of
        (Inl e, d') \<Rightarrow> (Inl e, d')
      | (Inr bytes, d') \<Rightarrow>
          ((if valid_utf8 bytes then Inr bytes else Inl (Io ''stream did not contain valid UTF-8'')), d'))"

definition fs_write :: "path \<Rightarrow> string \<Rightarrow> disk \<Rightarrow> unit result \<times> disk" where
  "fs_write p bytes =
     fs_op (\<lambda>d. (Inr (), d\<lparr>files := (files d)(p \<mapsto> bytes)\<rparr>))
       (\<lambda>k d. case k of 0 \<Rightarrow> d | Suc n \<Rightarrow> d\<lparr>files := (files d)(p \<mapsto> take n bytes)\<rparr>)"

definition fs_create :: "path \<Rightarrow> disk \<Rightarrow> unit result \<times> disk" where
  "fs_create p = fs_op (\<lambda>d. (Inr (), d\<lparr>files := (files d)(p \<mapsto> [])\<rparr>)) (\<lambda>_ d. d)"

definition content :: "path \<Rightarrow> disk \<Rightarrow> string" where
  "content p d = (case files d p of None \<Rightarrow> [] | Some c \<Rightarrow> c)"

definition fs_open_append :: "path \<Rightarrow> disk \<Rightarrow> unit result \<times> disk" where
  "fs_open_append p = fs_op (\<lambda>d. (Inr (), d\<lparr>files := (files d)(p \<mapsto> content p d)\<rparr>)) (\<lambda>_ d. d)"

definition write_all :: "path \<Rightarrow> string \<Rightarrow> disk \<Rightarrow> unit result \<times> disk" where
  "write_all p bytes =
     fs_op (\<lambda>d. (Inr (), d\<lparr>files := (files d)(p \<mapsto> content p d @ bytes)\<rparr>))
       (\<lambda>k d. case k of 0 \<Rightarrow> d | Suc n \<Rightarrow> d\<lparr>files := (files d)(p \<mapsto> content p d @ take n bytes)\<rparr>)"

definition fs_rename :: "path \<Rightarrow> path \<Rightarrow> disk \<Rightarrow> unit result \<times> disk" where
  "fs_rename a b =
     fs_op (\<lambda>d. case files d a of
                 None \<Rightarrow> (Inl (Io ''entity not found''), d)
               | Some c \<Rightarrow> (Inr (), d\<lparr>files := ((files d)(a := None))(b \<mapsto> c)\<rparr>))
       (\<lambda>_ d. d)"

lemmas fs_defs =
  fs_read_def fs_write_def fs_create_def fs_open_append_def write_all_def fs_rename_def

lemma fs_op_Inr:
  "fs_op good bad d = (Inr x, d') \<longleftrightarrow>
     faults d (ops d) = None \<and> good (d\<lparr>ops := Suc (ops d)\<rparr>) = (Inr x, d')"
  by (auto simp: fs_op_def split: option.splits)

text \<open>A disk without faults, and that it stays so.\<close>

definition reliable :: "disk \<Rightarrow> bool" where
  "reliable d \<longleftrightarrow> faults d = (\<lambda>_. None)"

lemma fs_op_reliable: "reliable d \<Longrightarrow> fs_op good bad d = good (d\<lparr>ops := Suc (ops d)\<rparr>)"
  by (simp add: fs_op_def reliable_def)

lemma fs_ops_files:
  "fs_read p d = (Inr c, d') \<Longrightarrow> files d p = Some c \<and> files d' = files d"
  "fs_write p c d = (Inr (), d') \<Longrightarrow> files d' = (files d)(p \<mapsto> c)"
  "fs_create p d = (Inr (), d') \<Longrightarrow> files d' = (files d)(p \<mapsto> [])"
  "fs_open_append p d = (Inr (), d') \<Longrightarrow> files d' = (files d)(p \<mapsto> content p d)"
  "write_all p c d = (Inr (), d') \<Longrightarrow> files d' = (files d)(p \<mapsto> content p d @ c)"
  by (auto simp: fs_defs fs_op_Inr content_def split: option.splits)

lemma fs_rename_files:
  "fs_rename a b d = (Inr (), d') \<Longrightarrow>
     \<exists>c. files d a = Some c \<and> files d' = ((files d)(a := None))(b \<mapsto> c)"
  by (auto simp: fs_defs fs_op_Inr split: option.splits)

text \<open>What an operation that fails leaves on the disk.\<close>

lemma fs_ops_failed:
  "fs_read p d = (Inl e, d') \<Longrightarrow> files d' = files d"
  "fs_create p d = (Inl e, d') \<Longrightarrow> files d' = files d"
  "fs_open_append p d = (Inl e, d') \<Longrightarrow> files d' = files d"
  "fs_rename p p' d = (Inl e, d') \<Longrightarrow> files d' = files d"
  "write_all p c d = (Inl e, d') \<Longrightarrow>
     files d' = files d \<or> (\<exists>k. files d' = (files d)(p \<mapsto> content p d @ take k c))"
  "fs_write p c d = (Inl e, d') \<Longrightarrow> files d' = files d \<or> (\<exists>k. files d' = (files d)(p \<mapsto> take k c))"
  by (auto simp: fs_defs fs_op_def content_def split: option.splits nat.splits)

section \<open>Lines\<close>

text \<open>
  \<open>BufRead::lines\<close>: the text between line feeds, without a final empty piece and without
  a carriage return at the end of a line.
\<close>

definition strip_cr :: "string \<Rightarrow> string" where
  "strip_cr l = (if l \<noteq> [] \<and> last l = CHR 0x0D then butlast l else l)"

definition lines_of :: "string \<Rightarrow> string list" where
  "lines_of s =
     (let ps = split_on (CHR 0x0A) s
      in map strip_cr (if last ps = [] then butlast ps else ps))"

lemma split_on_cons:
  "c \<notin> set l \<Longrightarrow> split_on c (l @ c # rest) = l # split_on c rest"
  by (induction l) auto

lemma split_on_lines:
  "(\<And>l. l \<in> set ls \<Longrightarrow> c \<notin> set l) \<Longrightarrow>
     split_on c (concat (map (\<lambda>l. l @ [c]) ls)) = ls @ [[]]"
  by (induction ls) (auto simp: split_on_cons)

definition line_text :: "string \<Rightarrow> bool" where
  "line_text l \<longleftrightarrow> l \<noteq> [] \<and> CHR 0x0A \<notin> set l \<and> last l \<noteq> CHR 0x0D"

text \<open>Lines written one after the other are read back as they were.\<close>

lemma lines_of_concat:
  assumes "\<forall>l\<in>set ls. line_text l"
  shows "lines_of (concat (map (\<lambda>l. l @ [CHR 0x0A]) ls)) = ls"
proof -
  have "split_on (CHR 0x0A) (concat (map (\<lambda>l. l @ [CHR 0x0A]) ls)) = ls @ [[]]"
    using assms by (intro split_on_lines) (auto simp: line_text_def)
  then show ?thesis
    using assms by (auto simp: lines_of_def line_text_def strip_cr_def intro: map_idI)
qed

end
