(* ===== verification/State.thy ===== *)
theory State
  imports Entities Disk
begin

text \<open>
  \<open>src/src/state.rs\<close> and \<open>src/src/fsm.rs\<close>: the in-memory cluster state with its four
  tables, and the state machine that applies a command to it. An operation with a mutable
  receiver returns its result together with the new state. The JSON codec of
  \<open>serde_json\<close> that \<open>save\<close> and \<open>load\<close> call is an argument of those two operations.
\<close>

section \<open>The store and its operations\<close>

record state_store =
  st_jobs :: "(string, job) hashmap"
  st_nodes :: "(node_id, node) hashmap"
  st_allocs :: "(alloc_id, allocation) hashmap"
  st_evals :: "(eval_id, evaluation) hashmap"

definition state_new :: state_store where
  "state_new = \<lparr>st_jobs = [], st_nodes = [], st_allocs = [], st_evals = []\<rparr>"

definition upsert_job :: "job \<Rightarrow> state_store \<Rightarrow> unit result \<times> state_store" where
  "upsert_job j s =
     (case job_validate j of
        Inl e \<Rightarrow> (Inl e, s)
      | Inr _ \<Rightarrow> (Inr (), s\<lparr>st_jobs := hm_insert (jb_name j) j (st_jobs s)\<rparr>))"

definition get_job :: "state_store \<Rightarrow> string \<Rightarrow> job option" where
  "get_job s = hm_get (st_jobs s)"

definition delete_job :: "string \<Rightarrow> state_store \<Rightarrow> unit result \<times> state_store" where
  "delete_job name s =
     (case hm_get (st_jobs s) name of
        None \<Rightarrow> (Inl (Validation (''job '' @ quoted name @ '' not found'')), s)
      | Some _ \<Rightarrow> (Inr (), s\<lparr>st_jobs := hm_remove name (st_jobs s)\<rparr>))"

definition list_jobs :: "state_store \<Rightarrow> job list" where
  "list_jobs s = hm_values (st_jobs s)"

definition upsert_node :: "node \<Rightarrow> state_store \<Rightarrow> unit result \<times> state_store" where
  "upsert_node n s =
     (case node_validate n of
        Inl e \<Rightarrow> (Inl e, s)
      | Inr _ \<Rightarrow> (Inr (), s\<lparr>st_nodes := hm_insert (nd_id n) n (st_nodes s)\<rparr>))"

definition get_node :: "state_store \<Rightarrow> string \<Rightarrow> node option" where
  "get_node s = hm_get (st_nodes s)"

definition list_nodes :: "state_store \<Rightarrow> node list" where
  "list_nodes s = hm_values (st_nodes s)"

definition upsert_alloc :: "allocation \<Rightarrow> state_store \<Rightarrow> unit result \<times> state_store" where
  "upsert_alloc a s =
     (case alloc_validate a of
        Inl e \<Rightarrow> (Inl e, s)
      | Inr _ \<Rightarrow> (Inr (), s\<lparr>st_allocs := hm_insert (al_id a) a (st_allocs s)\<rparr>))"

definition get_alloc :: "state_store \<Rightarrow> string \<Rightarrow> allocation option" where
  "get_alloc s = hm_get (st_allocs s)"

definition list_allocs :: "state_store \<Rightarrow> allocation list" where
  "list_allocs s = hm_values (st_allocs s)"

definition allocs_by_node :: "state_store \<Rightarrow> string \<Rightarrow> allocation list" where
  "allocs_by_node s n = filter (\<lambda>a. al_node_id a = n) (hm_values (st_allocs s))"

definition allocs_by_job :: "state_store \<Rightarrow> string \<Rightarrow> allocation list" where
  "allocs_by_job s j = filter (\<lambda>a. al_job_id a = j) (hm_values (st_allocs s))"

definition upsert_eval :: "evaluation \<Rightarrow> state_store \<Rightarrow> unit result \<times> state_store" where
  "upsert_eval e s =
     (case eval_validate e of
        Inl err \<Rightarrow> (Inl err, s)
      | Inr _ \<Rightarrow> (Inr (), s\<lparr>st_evals := hm_insert (ev_id e) e (st_evals s)\<rparr>))"

definition get_eval :: "state_store \<Rightarrow> string \<Rightarrow> evaluation option" where
  "get_eval s = hm_get (st_evals s)"

definition list_evals :: "state_store \<Rightarrow> evaluation list" where
  "list_evals s = hm_values (st_evals s)"

definition state_save ::
    "(state_store \<Rightarrow> string result) \<Rightarrow> path \<Rightarrow> state_store \<Rightarrow> disk \<Rightarrow> unit result \<times> disk" where
  "state_save to_vec path s = sbind (slift (to_vec s)) (\<lambda>bytes. fs_write path bytes)"

definition validate_store :: "state_store \<Rightarrow> unit result" where
  "validate_store store =
     and_then (try_for_each job_validate (hm_values (st_jobs store))) (\<lambda>_.
     and_then (try_for_each node_validate (hm_values (st_nodes store))) (\<lambda>_.
     and_then (try_for_each alloc_validate (hm_values (st_allocs store))) (\<lambda>_.
     try_for_each eval_validate (hm_values (st_evals store)))))"

definition state_load ::
    "(string \<Rightarrow> state_store result) \<Rightarrow> path \<Rightarrow> disk \<Rightarrow> state_store result \<times> disk" where
  "state_load from_slice path =
     sbind (fs_read path) (\<lambda>bytes.
     sbind (slift (from_slice bytes)) (\<lambda>store.
     sbind (slift (validate_store store)) (\<lambda>_.
     slift (Inr store))))"

section \<open>The command interpreter\<close>

datatype command =
    UpsertJob job
  | DeregisterJob string
  | UpsertNode node
  | UpsertAlloc allocation
  | UpsertEval evaluation

record fsm =
  fsm_state :: state_store

definition fsm_new :: fsm where
  "fsm_new = \<lparr>fsm_state = state_new\<rparr>"

fun state_apply :: "command \<Rightarrow> state_store \<Rightarrow> unit result \<times> state_store" where
  "state_apply (UpsertJob j) s = upsert_job j s"
| "state_apply (DeregisterJob name) s = delete_job name s"
| "state_apply (UpsertNode n) s = upsert_node n s"
| "state_apply (UpsertAlloc a) s = upsert_alloc a s"
| "state_apply (UpsertEval e) s = upsert_eval e s"

definition fsm_apply :: "command \<Rightarrow> fsm \<Rightarrow> unit result \<times> fsm" where
  "fsm_apply c f = (case state_apply c (fsm_state f) of (r, s) \<Rightarrow> (r, f\<lparr>fsm_state := s\<rparr>))"

section \<open>The contract of a table\<close>

text \<open>
  A table is well formed when its keys are distinct, every entry sits under its own key and
  every entry is valid.
\<close>

definition table_ok :: "('a \<Rightarrow> 'k) \<Rightarrow> ('a \<Rightarrow> bool) \<Rightarrow> ('k, 'a) hashmap \<Rightarrow> bool" where
  "table_ok key valid m \<longleftrightarrow> hm_wf m \<and> (\<forall>(k, x)\<in>set m. k = key x \<and> valid x)"

lemma table_ok_Nil [simp]: "table_ok key valid []"
  by (simp add: table_ok_def)

lemma table_ok_insert:
  assumes "table_ok key valid m" and "valid x"
  shows "table_ok key valid (hm_insert (key x) x m)"
proof -
  have wf: "hm_wf m" using assms(1) by (simp add: table_ok_def)
  have "\<forall>(k, y)\<in>set (hm_insert (key x) x m). k = key y \<and> valid y"
    using assms by (auto simp: set_hm_insert [OF wf] table_ok_def)
  then show ?thesis
    using hm_wf_insert [OF wf] by (simp add: table_ok_def)
qed

lemma table_ok_remove: "table_ok key valid m \<Longrightarrow> table_ok key valid (hm_remove k m)"
  by (auto simp: table_ok_def set_hm_remove distinct_delete)

lemma table_ok_values:
  "table_ok key valid m \<Longrightarrow> x \<in> set (hm_values m) \<longleftrightarrow> hm_get m (key x) = Some x"
  by (force simp: table_ok_def hm_in_set [symmetric])

lemma table_ok_get:
  "\<lbrakk>table_ok key valid m; hm_get m k = Some x\<rbrakk> \<Longrightarrow> key x = k \<and> valid x"
  by (auto simp: table_ok_def dest!: map_of_SomeD)

lemma table_ok_keys: "table_ok key valid m \<Longrightarrow> map key (hm_values m) = hm_keys m"
  by (auto simp: table_ok_def)

lemma table_ok_distinct_keys: "table_ok key valid m \<Longrightarrow> distinct (map key (hm_values m))"
  by (simp only: table_ok_keys) (simp add: table_ok_def)

text \<open>
  What the store promises of one of its tables: an upsert of a valid value succeeds and
  changes exactly the entry of its key, an upsert of an invalid one fails and changes
  nothing, and the listing holds exactly the stored values.
\<close>

locale table =
  fixes key :: "'a \<Rightarrow> string"
    and valid :: "'a \<Rightarrow> bool"
    and upsert :: "'a \<Rightarrow> 's \<Rightarrow> unit result \<times> 's"
    and get :: "'s \<Rightarrow> string \<Rightarrow> 'a option"
    and listing :: "'s \<Rightarrow> 'a list"
    and wf :: "'s \<Rightarrow> bool"
  assumes upsert_valid: "valid x \<Longrightarrow> \<exists>s'. upsert x s = (Inr (), s') \<and> get s' = (get s)(key x \<mapsto> x)"
    and upsert_invalid: "\<not> valid x \<Longrightarrow> \<exists>e. upsert x s = (Inl e, s)"
    and upsert_wf: "wf s \<Longrightarrow> wf (snd (upsert x s))"
    and listing_iff: "wf s \<Longrightarrow> x \<in> set (listing s) \<longleftrightarrow> get s (key x) = Some x"
    and get_wf: "\<lbrakk>wf s; get s k = Some x\<rbrakk> \<Longrightarrow> key x = k \<and> valid x"
begin

lemma upsert_ok_iff: "fst (upsert x s) = Inr () \<longleftrightarrow> valid x"
  using upsert_valid [of x s] upsert_invalid [of x s] by (cases "valid x") auto

lemma get_after_upsert: "valid x \<Longrightarrow> get (snd (upsert x s)) k = (if k = key x then Some x else get s k)"
  using upsert_valid [of x s] by auto

lemma failed_upsert_keeps: "fst (upsert x s) = Inl e \<Longrightarrow> snd (upsert x s) = s"
  using upsert_valid [of x s] upsert_invalid [of x s] by (cases "valid x") auto

lemma listing_after_upsert:
  assumes "wf s" and "valid x"
  shows "set (listing (snd (upsert x s))) = insert x {y \<in> set (listing s). key y \<noteq> key x}"
  using assms by (auto simp: listing_iff upsert_wf get_after_upsert split: if_splits)

lemma listed_valid: "\<lbrakk>wf s; x \<in> set (listing s)\<rbrakk> \<Longrightarrow> valid x"
  using listing_iff get_wf by blast

end

section \<open>The invariant of the store\<close>

definition state_ok :: "state_store \<Rightarrow> bool" where
  "state_ok s \<longleftrightarrow> table_ok jb_name job_ok (st_jobs s) \<and> table_ok nd_id node_ok (st_nodes s) \<and>
     table_ok al_id alloc_ok (st_allocs s) \<and> table_ok ev_id eval_ok (st_evals s)"

lemma state_ok_new [simp]: "state_ok state_new"
  by (simp add: state_ok_def state_new_def)

lemmas state_op_defs =
  upsert_job_def upsert_node_def upsert_alloc_def upsert_eval_def delete_job_def
  get_job_def get_node_def get_alloc_def get_eval_def
  list_jobs_def list_nodes_def list_allocs_def list_evals_def

lemma upsert_job_cases:
  "(job_ok x \<and> upsert_job x s = (Inr (), s\<lparr>st_jobs := hm_insert (jb_name x) x (st_jobs s)\<rparr>)) \<or>
   (\<not> job_ok x \<and> (\<exists>e. job_validate x = Inl e \<and> upsert_job x s = (Inl e, s)))"
  using jv.validate_cases [of x] by (auto simp: upsert_job_def)

interpretation jobs: table jb_name job_ok upsert_job get_job list_jobs state_ok
proof (unfold_locales, goal_cases)
  case (3 s x) then show ?case
    using upsert_job_cases [of x s] by (auto simp: state_ok_def table_ok_insert)
next
  case (4 s x) then show ?case
    by (auto simp: state_ok_def list_jobs_def get_job_def simp del: set_map dest: table_ok_values)
next
  case (5 s k x) then show ?case
    by (auto simp: state_ok_def get_job_def dest: table_ok_get)
next
  case (1 x s) then show ?case
    using upsert_job_cases [of x s] by (auto simp: get_job_def)
next
  case (2 x s) then show ?case
    using upsert_job_cases [of x s] by auto
qed

lemma upsert_node_cases:
  "(node_ok x \<and> upsert_node x s = (Inr (), s\<lparr>st_nodes := hm_insert (nd_id x) x (st_nodes s)\<rparr>)) \<or>
   (\<not> node_ok x \<and> (\<exists>e. node_validate x = Inl e \<and> upsert_node x s = (Inl e, s)))"
  using nv.validate_cases [of x] by (auto simp: upsert_node_def)

interpretation nodes: table nd_id node_ok upsert_node get_node list_nodes state_ok
proof (unfold_locales, goal_cases)
  case (3 s x) then show ?case
    using upsert_node_cases [of x s] by (auto simp: state_ok_def table_ok_insert)
next
  case (4 s x) then show ?case
    by (auto simp: state_ok_def list_nodes_def get_node_def simp del: set_map dest: table_ok_values)
next
  case (5 s k x) then show ?case
    by (auto simp: state_ok_def get_node_def dest: table_ok_get)
next
  case (1 x s) then show ?case
    using upsert_node_cases [of x s] by (auto simp: get_node_def)
next
  case (2 x s) then show ?case
    using upsert_node_cases [of x s] by auto
qed

lemma upsert_alloc_cases:
  "(alloc_ok x \<and> upsert_alloc x s = (Inr (), s\<lparr>st_allocs := hm_insert (al_id x) x (st_allocs s)\<rparr>)) \<or>
   (\<not> alloc_ok x \<and> (\<exists>e. alloc_validate x = Inl e \<and> upsert_alloc x s = (Inl e, s)))"
  using av.validate_cases [of x] by (auto simp: upsert_alloc_def)

interpretation allocs: table al_id alloc_ok upsert_alloc get_alloc list_allocs state_ok
proof (unfold_locales, goal_cases)
  case (3 s x) then show ?case
    using upsert_alloc_cases [of x s] by (auto simp: state_ok_def table_ok_insert)
next
  case (4 s x) then show ?case
    by (auto simp: state_ok_def list_allocs_def get_alloc_def simp del: set_map dest: table_ok_values)
next
  case (5 s k x) then show ?case
    by (auto simp: state_ok_def get_alloc_def dest: table_ok_get)
next
  case (1 x s) then show ?case
    using upsert_alloc_cases [of x s] by (auto simp: get_alloc_def)
next
  case (2 x s) then show ?case
    using upsert_alloc_cases [of x s] by auto
qed

lemma upsert_eval_cases:
  "(eval_ok x \<and> upsert_eval x s = (Inr (), s\<lparr>st_evals := hm_insert (ev_id x) x (st_evals s)\<rparr>)) \<or>
   (\<not> eval_ok x \<and> (\<exists>e. eval_validate x = Inl e \<and> upsert_eval x s = (Inl e, s)))"
  using ev.validate_cases [of x] by (auto simp: upsert_eval_def)

interpretation evals: table ev_id eval_ok upsert_eval get_eval list_evals state_ok
proof (unfold_locales, goal_cases)
  case (3 s x) then show ?case
    using upsert_eval_cases [of x s] by (auto simp: state_ok_def table_ok_insert)
next
  case (4 s x) then show ?case
    by (auto simp: state_ok_def list_evals_def get_eval_def simp del: set_map dest: table_ok_values)
next
  case (5 s k x) then show ?case
    by (auto simp: state_ok_def get_eval_def dest: table_ok_get)
next
  case (1 x s) then show ?case
    using upsert_eval_cases [of x s] by (auto simp: get_eval_def)
next
  case (2 x s) then show ?case
    using upsert_eval_cases [of x s] by auto
qed

section \<open>Commands keep the invariant\<close>

definition command_ok :: "command \<Rightarrow> state_store \<Rightarrow> bool" where
  "command_ok c s =
     (case c of
        UpsertJob j \<Rightarrow> job_ok j
      | DeregisterJob name \<Rightarrow> get_job s name \<noteq> None
      | UpsertNode n \<Rightarrow> node_ok n
      | UpsertAlloc a \<Rightarrow> alloc_ok a
      | UpsertEval e \<Rightarrow> eval_ok e)"

lemma delete_job_ok: "state_ok s \<Longrightarrow> state_ok (snd (delete_job name s))"
  by (auto simp: delete_job_def state_ok_def table_ok_remove split: option.split)

lemma state_apply_ok: "state_ok s \<Longrightarrow> state_ok (snd (state_apply c s))"
  by (cases c) (simp_all add: jobs.upsert_wf nodes.upsert_wf allocs.upsert_wf evals.upsert_wf
      delete_job_ok)

lemma state_apply_iff: "fst (state_apply c s) = Inr () \<longleftrightarrow> command_ok c s"
  by (cases c) (auto simp: command_ok_def jobs.upsert_ok_iff nodes.upsert_ok_iff
      allocs.upsert_ok_iff evals.upsert_ok_iff delete_job_def get_job_def split: option.split)

lemma state_apply_failed: "fst (state_apply c s) = Inl e \<Longrightarrow> snd (state_apply c s) = s"
  by (cases c) (auto simp: jobs.failed_upsert_keeps nodes.failed_upsert_keeps
      allocs.failed_upsert_keeps evals.failed_upsert_keeps delete_job_def split: option.splits)

lemma fsm_apply_state:
  "fst (fsm_apply c f) = fst (state_apply c (fsm_state f))"
  "fsm_state (snd (fsm_apply c f)) = snd (state_apply c (fsm_state f))"
  by (simp_all add: fsm_apply_def split: prod.split)

section \<open>Saving and loading\<close>

text \<open>
  What is relied on of the JSON codec: what it encodes it decodes to a store with the same
  four tables.
\<close>

definition store_codec_ok :: "(state_store \<Rightarrow> string result) \<Rightarrow> (string \<Rightarrow> state_store result) \<Rightarrow> bool" where
  "store_codec_ok to_vec from_slice \<longleftrightarrow> (\<forall>s bytes. to_vec s = Inr bytes \<longrightarrow> from_slice bytes = Inr s)"

lemma validate_store_ok: "state_ok s \<Longrightarrow> validate_store s = Inr ()"
  by (auto simp: validate_store_def state_ok_def table_ok_def res_simps jv.validate_all_iff
      nv.validate_all_iff av.validate_all_iff ev.validate_all_iff)

lemma validate_store_entries:
  "validate_store s = Inr () \<longleftrightarrow>
     (\<forall>j\<in>set (list_jobs s). job_ok j) \<and> (\<forall>n\<in>set (list_nodes s). node_ok n) \<and>
     (\<forall>a\<in>set (list_allocs s). alloc_ok a) \<and> (\<forall>e\<in>set (list_evals s). eval_ok e)"
  by (simp add: validate_store_def res_simps jv.validate_all_iff nv.validate_all_iff
      av.validate_all_iff ev.validate_all_iff list_jobs_def list_nodes_def list_allocs_def
      list_evals_def)

lemma state_load_valid:
  "fst (state_load from_slice p d) = Inr st \<Longrightarrow> validate_store st = Inr ()"
  by (auto simp: state_load_def sbind_def slift_def split: prod.splits sum.splits)

lemma save_then_load:
  assumes "store_codec_ok to_vec from_slice" "state_ok s" "to_vec s = Inr bytes" "reliable d"
  shows "\<exists>d'. state_save to_vec p s d = (Inr (), d') \<and> fst (state_load from_slice p d') = Inr s"
proof -
  let ?d = "d\<lparr>ops := Suc (ops d), files := (files d)(p \<mapsto> bytes)\<rparr>"
  have "reliable ?d" using assms(4) by (simp add: reliable_def)
  with assms have "fst (state_load from_slice p ?d) = Inr s"
    by (simp add: state_load_def sbind_def slift_def fs_read_def fs_op_reliable store_codec_ok_def
        validate_store_ok)
  moreover have "state_save to_vec p s d = (Inr (), ?d)"
    using assms by (simp add: state_save_def sbind_def slift_def fs_write_def fs_op_reliable)
  ultimately show ?thesis by blast
qed

text \<open>C39. Saving and loading. A well-formed store that can be serialised is saved to a working disk
  and loaded back as it was; and whatever a file holds, a store that is loaded from it consists of
  valid jobs, nodes, allocations and evaluations only.\<close>

theorem save_load_roundtrip:
  assumes codec: "store_codec_ok to_vec from_slice"
  shows "(state_ok s \<and> to_vec s = Inr bytes \<and> reliable d \<longrightarrow>
     (\<exists>d'. state_save to_vec p s d = (Inr (), d') \<and> fst (state_load from_slice p d') = Inr s)) \<and>
   (fst (state_load from_slice p d) = Inr st \<longrightarrow>
     (\<forall>j\<in>set (list_jobs st). job_ok j) \<and> (\<forall>n\<in>set (list_nodes st). node_ok n) \<and>
     (\<forall>a\<in>set (list_allocs st). alloc_ok a) \<and> (\<forall>e\<in>set (list_evals st). eval_ok e))"
proof (rule conjI; rule impI)
  assume "state_ok s \<and> to_vec s = Inr bytes \<and> reliable d"
  with save_then_load [OF codec] show "\<exists>d'. state_save to_vec p s d = (Inr (), d') \<and> fst (state_load from_slice p d') = Inr s"
    by blast
next
  assume "fst (state_load from_slice p d) = Inr st"
  from state_load_valid [OF this] show
    "(\<forall>j\<in>set (list_jobs st). job_ok j) \<and> (\<forall>n\<in>set (list_nodes st). node_ok n) \<and>
     (\<forall>a\<in>set (list_allocs st). alloc_ok a) \<and> (\<forall>e\<in>set (list_evals st). eval_ok e)"
    by (simp add: validate_store_entries)
qed

lemma save_load_roundtrip_witness:
  "\<exists>d'. state_save (\<lambda>s. if s = state_new then Inr ''{}'' else Inl (Serialize [])) [''state.json''] state_new
          \<lparr>files = Map.empty, faults = (\<lambda>_. None), ops = 0\<rparr> = (Inr (), d') \<and>
        fst (state_load (\<lambda>_. Inr state_new) [''state.json''] d') = Inr state_new"
  by (rule save_load_roundtrip [THEN conjunct1, rule_format, where bytes = "''{}''"])
    (auto simp: store_codec_ok_def state_ok_def table_ok_def state_new_def reliable_def split: if_splits)

end
