(* ===== verification/Raft.thy ===== *)
theory Raft
  imports State
begin

text \<open>
  \<open>src/src/raft.rs\<close>: the single-node consensus group. The node's log is kept next to the
  state machine; \<open>propose\<close> appends the command, applies it and takes it back when the state
  machine rejects it.
\<close>

datatype raft_role = Leader | Follower | Candidate

record raft_node =
  rn_id :: string
  rn_role :: raft_role
  rn_log :: "command list"
  rn_fsm :: fsm

definition raft_new :: "string \<Rightarrow> raft_node" where
  "raft_new i = \<lparr>rn_id = i, rn_role = Follower, rn_log = [], rn_fsm = fsm_new\<rparr>"

definition raft_bootstrap :: "string \<Rightarrow> raft_node" where
  "raft_bootstrap i = (raft_new i)\<lparr>rn_role := Leader\<rparr>"

definition is_leader :: "raft_node \<Rightarrow> bool" where
  "is_leader r \<longleftrightarrow> rn_role r = Leader"

definition propose :: "command \<Rightarrow> raft_node \<Rightarrow> unit result \<times> raft_node" where
  "propose c r =
     (if \<not> is_leader r then (Inl (Runtime ''not the leader, cannot propose''), r)
      else
        let r1 = r\<lparr>rn_log := rn_log r @ [c]\<rparr>
        in case fsm_apply c (rn_fsm r1) of
             (Inl e, f) \<Rightarrow> (Inl e, r1\<lparr>rn_fsm := f, rn_log := butlast (rn_log r1)\<rparr>)
           | (Inr _, f) \<Rightarrow> (Inr (), r1\<lparr>rn_fsm := f\<rparr>))"

definition raft_state :: "raft_node \<Rightarrow> state_store" where
  "raft_state r = fsm_state (rn_fsm r)"

definition committed_index :: "raft_node \<Rightarrow> nat" where
  "committed_index r = length (rn_log r)"

definition leader_addr :: "raft_node \<Rightarrow> string option" where
  "leader_addr r = None"

section \<open>Proposing a command\<close>

lemma propose_follower:
  "\<not> is_leader r \<Longrightarrow> propose c r = (Inl (Runtime ''not the leader, cannot propose''), r)"
  by (simp add: propose_def)

lemma propose_leader:
  assumes "is_leader r"
  shows "propose c r =
    (case state_apply c (raft_state r) of
       (Inl e, _) \<Rightarrow> (Inl e, r)
     | (Inr _, s) \<Rightarrow> (Inr (), r\<lparr>rn_log := rn_log r @ [c], rn_fsm := (rn_fsm r)\<lparr>fsm_state := s\<rparr>\<rparr>))"
proof (cases "state_apply c (raft_state r)")
  case (Pair res s)
  have "s = raft_state r" if "res = Inl e" for e
    using state_apply_failed [of c "raft_state r" e] Pair that by simp
  with Pair assms show ?thesis
    by (cases res) (simp_all add: propose_def fsm_apply_def raft_state_def)
qed

lemma propose_ok_iff:
  "fst (propose c r) = Inr () \<longleftrightarrow> is_leader r \<and> command_ok c (raft_state r)"
  using state_apply_iff [of c "raft_state r"]
  by (cases "is_leader r") (auto simp: propose_follower propose_leader split: prod.splits sum.splits)

lemma propose_error_keeps: "fst (propose c r) = Inl e \<Longrightarrow> snd (propose c r) = r"
  by (cases "is_leader r") (auto simp: propose_follower propose_leader split: prod.splits sum.splits)

lemma propose_ok_cases:
  assumes "propose c r = (Inr (), r')"
  obtains s where "is_leader r" "state_apply c (raft_state r) = (Inr (), s)" "raft_state r' = s"
    "rn_log r' = rn_log r @ [c]" "rn_role r' = rn_role r" "rn_id r' = rn_id r"
proof -
  have lead: "is_leader r" using assms propose_ok_iff [of c r] by simp
  obtain res s where ap: "state_apply c (raft_state r) = (res, s)" by fastforce
  then have "res = Inr ()"
    using assms propose_ok_iff [of c r] state_apply_iff [of c "raft_state r"] by simp
  with ap assms lead show ?thesis
    by (intro that [of s]) (auto simp: propose_leader raft_state_def)
qed

section \<open>The log replays to the state\<close>

text \<open>
  \<open>replay\<close> applies a log to a store and fails when a command is rejected. What consensus
  promises: the log of a node replays without a rejection, from the empty store, to the
  state the node serves.
\<close>

fun replay :: "command list \<Rightarrow> state_store \<Rightarrow> state_store option" where
  "replay [] s = Some s"
| "replay (c # cs) s =
     (case state_apply c s of (Inl _, _) \<Rightarrow> None | (Inr _, s') \<Rightarrow> replay cs s')"

lemma replay_append:
  "replay (xs @ ys) s = (case replay xs s of None \<Rightarrow> None | Some s' \<Rightarrow> replay ys s')"
  by (induction xs arbitrary: s) (auto split: prod.split sum.split)

lemma replay_ok: "\<lbrakk>replay cs s = Some s'; state_ok s\<rbrakk> \<Longrightarrow> state_ok s'"
proof (induction cs arbitrary: s)
  case Nil
  then show ?case by simp
next
  case (Cons c cs)
  then show ?case
    using state_apply_ok [of s c] by (auto split: prod.splits sum.splits)
qed

definition raft_init :: "raft_node \<Rightarrow> bool" where
  "raft_init r \<longleftrightarrow> (\<exists>i. r = raft_new i \<or> r = raft_bootstrap i)"

definition raft_step :: "raft_node \<Rightarrow> raft_node \<Rightarrow> bool" where
  "raft_step r r' \<longleftrightarrow> (\<exists>c. r' = snd (propose c r))"

definition raft_inv :: "raft_node \<Rightarrow> bool" where
  "raft_inv r \<longleftrightarrow> replay (rn_log r) state_new = Some (raft_state r)"

lemma raft_inv_ok: "raft_inv r \<Longrightarrow> state_ok (raft_state r)"
  by (auto simp: raft_inv_def intro: replay_ok)

lemma raft_inv_propose: "raft_inv r \<Longrightarrow> raft_inv (snd (propose c r))"
proof (cases "propose c r")
  case (Pair res r')
  assume inv: "raft_inv r"
  show ?thesis
  proof (cases res)
    case (Inl e)
    with Pair inv propose_error_keeps [of c r e] show ?thesis by simp
  next
    case (Inr u)
    with Pair have "propose c r = (Inr (), r')" by simp
    then obtain s where "state_apply c (raft_state r) = (Inr (), s)" "raft_state r' = s"
      "rn_log r' = rn_log r @ [c]" by (rule propose_ok_cases)
    with inv Pair show ?thesis by (simp add: raft_inv_def replay_append)
  qed
qed

lemma raft_init_inv: "raft_init r \<Longrightarrow> raft_inv r"
  by (auto simp: raft_init_def raft_inv_def raft_new_def raft_bootstrap_def raft_state_def fsm_new_def)

interpretation raft_node_inv: inductive_invariant raft_init raft_step raft_inv
  by unfold_locales (auto simp: raft_step_def intro: raft_init_inv raft_inv_propose)

text \<open>C14. In every node a sequence of proposals can reach, the log replays without a rejection
  from the empty store to exactly the state that reads are served from, and that state is well
  formed.\<close>

theorem raft_log_replays:
  assumes "reachable raft_init raft_step r"
  shows "replay (rn_log r) state_new = Some (raft_state r) \<and> state_ok (raft_state r)"
  using raft_node_inv.reachable_inv [OF assms] raft_inv_ok [of r] by (simp add: raft_inv_def)

theorem raft_log_replays_witness:
  "(let r = snd (propose (UpsertNode sample_node) (raft_bootstrap ''n1''))
    in committed_index r = 1 \<and> replay (rn_log r) state_new = Some (raft_state r) \<and>
       state_ok (raft_state r))"
proof -
  let ?r = "snd (propose (UpsertNode sample_node) (raft_bootstrap ''n1''))"
  have "reachable raft_init raft_step ?r"
    by (rule reach_step [OF reach_init [of _ "raft_bootstrap ''n1''"]])
      (auto simp: raft_init_def raft_step_def)
  moreover have "committed_index ?r = 1"
    by code_simp
  ultimately show ?thesis
    unfolding Let_def using raft_log_replays [of ?r] by simp
qed

text \<open>A proposal is accepted exactly on the leader and for a command the store accepts; an
  accepted one is appended to the log and applied to the state, a refused one changes nothing
  at all and, off the leader, says why.\<close>

theorem propose_behaviour:
  "(fst (propose c r) = Inr () \<longleftrightarrow> is_leader r \<and> command_ok c (raft_state r)) \<and>
   (case propose c r of
      (Inr _, r') \<Rightarrow> rn_log r' = rn_log r @ [c] \<and> raft_state r' = snd (state_apply c (raft_state r)) \<and>
                    committed_index r' = Suc (committed_index r) \<and> rn_role r' = rn_role r
    | (Inl e, r') \<Rightarrow> r' = r \<and> (is_leader r \<or> e = Runtime ''not the leader, cannot propose''))"
  using propose_ok_iff [of c r]
  by (cases "is_leader r")
    (auto simp: propose_follower propose_leader raft_state_def committed_index_def
      split: prod.splits sum.splits)

end
