(* ===== verification/Eval_Queue.thy ===== *)
theory Eval_Queue
  imports Entities "HOL-Library.Product_Lexorder"
begin

text \<open>
  \<open>src/src/eval_queue.rs\<close>: the queue of pending evaluations, with the evaluations in flight
  and the blocked ones. Time is a number of nanoseconds; an operation that reads the clock gets
  the reading as an argument. The \<open>BinaryHeap\<close> of the standard library is the list of its
  members; \<open>pop\<close> takes a greatest one in the order of \<open>PendingEval\<close>.
\<close>

section \<open>The order of pending evaluations\<close>

definition MAX_DEQUEUE :: u32 where "MAX_DEQUEUE = 3"

record pending_eval =
  pe_seq :: u64
  pe_eval :: evaluation
  pe_dequeues :: u32
  pe_dequeued_at :: "nat option"

datatype ordering = Less | Equal | Greater

definition i32_cmp :: "i32 \<Rightarrow> i32 \<Rightarrow> ordering" where
  "i32_cmp a b = (if sint a < sint b then Less else if a = b then Equal else Greater)"

definition u64_cmp :: "u64 \<Rightarrow> u64 \<Rightarrow> ordering" where
  "u64_cmp a b = (if a < b then Less else if a = b then Equal else Greater)"

definition pe_eq :: "pending_eval \<Rightarrow> pending_eval \<Rightarrow> bool" where
  "pe_eq a b \<longleftrightarrow> ev_priority (pe_eval a) = ev_priority (pe_eval b) \<and> pe_seq a = pe_seq b"

definition pe_cmp :: "pending_eval \<Rightarrow> pending_eval \<Rightarrow> ordering" where
  "pe_cmp a b =
     (case i32_cmp (ev_priority (pe_eval a)) (ev_priority (pe_eval b)) of
        Equal \<Rightarrow> u64_cmp (pe_seq b) (pe_seq a)
      | ord \<Rightarrow> ord)"

definition pe_key :: "pending_eval \<Rightarrow> int \<times> nat" where
  "pe_key pe = (- sint (ev_priority (pe_eval pe)), unat (pe_seq pe))"

lemma i32_cmp_iff:
  "i32_cmp a b = Less \<longleftrightarrow> sint a < sint b" "i32_cmp a b = Equal \<longleftrightarrow> a = b"
  "i32_cmp a b = Greater \<longleftrightarrow> sint b < sint a"
  using sint_i32_eq [of a b] by (auto simp: i32_cmp_def)

lemma u64_cmp_iff:
  "u64_cmp a b = Less \<longleftrightarrow> unat a < unat b" "u64_cmp a b = Equal \<longleftrightarrow> a = b"
  "u64_cmp a b = Greater \<longleftrightarrow> unat b < unat a"
  by (auto simp: u64_cmp_def word_less_nat_alt word_unat_eq_iff)

lemma pe_cmp_key:
  "pe_cmp a b = Greater \<longleftrightarrow> pe_key a < pe_key b"
  "pe_cmp a b = Less \<longleftrightarrow> pe_key b < pe_key a"
  "pe_cmp a b = Equal \<longleftrightarrow> pe_eq a b"
  by (auto simp: pe_cmp_def pe_key_def pe_eq_def i32_cmp_iff u64_cmp_iff sint_i32_eq less_prod_def
      split: ordering.splits)

section \<open>The heap\<close>

definition heap_push :: "pending_eval \<Rightarrow> pending_eval list \<Rightarrow> pending_eval list" where
  "heap_push x h = h @ [x]"

fun heap_max :: "pending_eval \<Rightarrow> pending_eval list \<Rightarrow> pending_eval" where
  "heap_max m [] = m"
| "heap_max m (x # xs) = heap_max (if pe_cmp x m = Greater then x else m) xs"

fun heap_pop :: "pending_eval list \<Rightarrow> (pending_eval \<times> pending_eval list) option" where
  "heap_pop [] = None"
| "heap_pop (x # xs) = (let m = heap_max x xs in Some (m, remove1 m (x # xs)))"

lemma heap_max_in: "heap_max m xs \<in> set (m # xs)"
  by (induction xs arbitrary: m) (auto split: if_splits)

lemma heap_max_least: "y \<in> set (m # xs) \<Longrightarrow> pe_key (heap_max m xs) \<le> pe_key y"
proof (induction xs arbitrary: m y)
  case (Cons x xs)
  let ?w = "if pe_cmp x m = Greater then x else m"
  have w: "pe_key ?w \<le> pe_key x" "pe_key ?w \<le> pe_key m"
    by (auto simp: pe_cmp_key)
  have "pe_key (heap_max ?w xs) \<le> pe_key z" if "z \<in> set (?w # xs)" for z
    using that by (rule Cons.IH)
  from order_trans [OF this [of ?w] w(1)] order_trans [OF this [of ?w] w(2)] this Cons.prems
  show ?case by auto
qed simp

text \<open>
  What the queue relies on of a heap: pushing adds one member, popping takes away a member with
  the least key, and fails only on an empty heap. A list that holds the members in the order of
  their keys then is the order in which they leave.
\<close>

locale min_key_heap =
  fixes push :: "'a \<Rightarrow> 'h \<Rightarrow> 'h"
    and pop :: "'h \<Rightarrow> ('a \<times> 'h) option"
    and members :: "'h \<Rightarrow> 'a multiset"
    and key :: "'a \<Rightarrow> 'k::linorder"
  assumes members_push: "members (push x h) = add_mset x (members h)"
    and pop_None: "pop h = None \<longleftrightarrow> members h = {#}"
    and pop_Some: "pop h = Some (x, h') \<Longrightarrow>
          members h = add_mset x (members h') \<and> (\<forall>y\<in>#members h. key x \<le> key y)"
begin

definition leaves_as :: "'h \<Rightarrow> 'a list \<Rightarrow> bool" where
  "leaves_as h xs \<longleftrightarrow> mset xs = members h \<and> sorted (map key xs) \<and> distinct (map key xs)"

lemma leaves_as_push:
  assumes "leaves_as h xs" and "\<forall>y\<in>set xs. key y \<noteq> key x"
  shows "leaves_as (push x h) (insort_key key x xs)"
proof -
  have "distinct (map key (insort_key key x xs))"
    using assms(2) assms(1) [unfolded leaves_as_def, THEN conjunct2, THEN conjunct2]
    by (induction xs) (auto simp: set_insort_key)
  with assms show ?thesis
    by (simp add: leaves_as_def members_push sorted_insort_key)
qed

lemma leaves_as_pop:
  assumes "leaves_as h (x # xs)"
  shows "\<exists>h'. pop h = Some (x, h') \<and> leaves_as h' xs"
proof -
  have ne: "members h \<noteq> {#}" using assms by (auto simp: leaves_as_def)
  then obtain y h' where pop: "pop h = Some (y, h')" using pop_None [of h] by (cases "pop h") auto
  from pop_Some [OF pop] have h: "members h = add_mset y (members h')" and least: "\<forall>z\<in>#members h. key y \<le> key z"
    by auto
  have mem: "members h = add_mset x (mset xs)" using assms by (simp add: leaves_as_def)
  have "y \<in> set (x # xs)" using h mem by (metis insert_iff set_mset_add_mset_insert set_mset_mset list.set(2) union_single_eq_member)
  moreover have "key y \<le> key x" using least mem by simp
  moreover have "key y \<noteq> key x \<and> key x \<le> key y" if "y \<in> set xs"
    using assms that by (auto simp: leaves_as_def image_iff)
  ultimately have "y = x" by auto
  with h mem assms pop show ?thesis by (auto simp: leaves_as_def)
qed

lemma leaves_as_unique:
  assumes "leaves_as h xs" and "mset ys = members h"
  shows "sort_key key ys = xs"
proof (rule sort_key_inj_key_eq)
  show "mset ys = mset xs" using assms by (simp add: leaves_as_def)
  then show "inj_on key (set ys)"
    using assms mset_eq_setD by (fastforce simp: leaves_as_def distinct_map)
qed (use assms in \<open>simp add: leaves_as_def\<close>)

lemma leaves_as_Nil: "leaves_as h [] \<Longrightarrow> pop h = None"
  by (simp add: leaves_as_def pop_None)

end

interpretation pq: min_key_heap heap_push heap_pop mset pe_key
proof (unfold_locales, goal_cases)
  case (1 x h) then show ?case by (simp add: heap_push_def)
next
  case (2 h) then show ?case by (cases h) (simp_all add: Let_def)
next
  case (3 h x h')
  then obtain a as where h: "h = a # as" "x = heap_max a as" "h' = remove1 x h"
    by (cases h) (auto simp: Let_def)
  then show ?case
    using heap_max_in [of a as] heap_max_least [of _ a as] by (auto simp: insert_DiffM)
qed

section \<open>The queue and its operations\<close>

record eval_queue =
  q_heap :: "pending_eval list"
  q_next_seq :: u64
  q_in_flight :: "(eval_id, pending_eval) hashmap"
  q_blocked :: "evaluation list"
  q_poisoned :: bool

definition queue_new :: eval_queue where
  "queue_new = \<lparr>q_heap = [], q_next_seq = 0, q_in_flight = [], q_blocked = [], q_poisoned = False\<rparr>"

definition poison_err :: error where
  "poison_err = Runtime ''eval queue mutex poisoned''"

text \<open>Pushing an evaluation under the next sequence number.\<close>

definition push_seq :: "evaluation \<Rightarrow> u32 \<Rightarrow> eval_queue \<Rightarrow> eval_queue" where
  "push_seq e n q =
     q\<lparr>q_next_seq := q_next_seq q + 1,
       q_heap := heap_push \<lparr>pe_seq = q_next_seq q, pe_eval = e, pe_dequeues = n, pe_dequeued_at = None\<rparr>
                   (q_heap q)\<rparr>"

definition enqueue :: "evaluation \<Rightarrow> eval_queue \<Rightarrow> unit result \<times> eval_queue" where
  "enqueue e q = (if q_poisoned q then (Inl poison_err, q) else (Inr (), push_seq e 0 q))"

definition dequeue :: "nat \<Rightarrow> eval_queue \<Rightarrow> evaluation option result \<times> eval_queue" where
  "dequeue now q =
     (if q_poisoned q then (Inl poison_err, q)
      else case heap_pop (q_heap q) of
             None \<Rightarrow> (Inr None, q)
           | Some (pe, h) \<Rightarrow>
               let pe' = pe\<lparr>pe_dequeues := pe_dequeues pe + 1, pe_dequeued_at := Some now\<rparr>;
                   e = pe_eval pe'
               in (Inr (Some e),
                   q\<lparr>q_heap := h, q_in_flight := hm_insert (ev_id e) pe' (q_in_flight q)\<rparr>))"

definition ack :: "eval_id \<Rightarrow> eval_queue \<Rightarrow> unit result \<times> eval_queue" where
  "ack i q = (if q_poisoned q then (Inl poison_err, q)
              else (Inr (), q\<lparr>q_in_flight := hm_remove i (q_in_flight q)\<rparr>))"

text \<open>What \<open>nack\<close> and \<open>reap_expired\<close> do with one identifier.\<close>

definition requeue :: "eval_id \<Rightarrow> eval_queue \<Rightarrow> eval_queue" where
  "requeue i q =
     (case hm_get (q_in_flight q) i of
        None \<Rightarrow> q
      | Some pe \<Rightarrow>
          let q1 = q\<lparr>q_in_flight := hm_remove i (q_in_flight q)\<rparr>
          in if pe_dequeues pe < MAX_DEQUEUE then push_seq (pe_eval pe) (pe_dequeues pe) q1 else q1)"

definition nack :: "eval_id \<Rightarrow> eval_queue \<Rightarrow> unit result \<times> eval_queue" where
  "nack i q = (if q_poisoned q then (Inl poison_err, q) else (Inr (), requeue i q))"

text \<open>
  \<open>clock k\<close> is the reading of the clock when the entry with key \<open>k\<close> is looked at. The elapsed
  time saturates at zero.
\<close>

definition is_expired :: "(eval_id \<Rightarrow> nat) \<Rightarrow> nat \<Rightarrow> eval_id \<times> pending_eval \<Rightarrow> bool" where
  "is_expired clock timeout e =
     (case pe_dequeued_at (snd e) of None \<Rightarrow> False | Some t \<Rightarrow> timeout \<le> clock (fst e) - t)"

definition reap_expired :: "(eval_id \<Rightarrow> nat) \<Rightarrow> nat \<Rightarrow> eval_queue \<Rightarrow> nat result \<times> eval_queue" where
  "reap_expired clock timeout q =
     (if q_poisoned q then (Inl poison_err, q)
      else let expired = map fst (filter (is_expired clock timeout) (q_in_flight q))
           in (Inr (length expired), fold requeue expired q))"

definition block :: "evaluation \<Rightarrow> eval_queue \<Rightarrow> unit result \<times> eval_queue" where
  "block e q = (if q_poisoned q then (Inl poison_err, q)
                else (Inr (), q\<lparr>q_blocked := q_blocked q @ [e]\<rparr>))"

definition unblock_all :: "eval_queue \<Rightarrow> nat result \<times> eval_queue" where
  "unblock_all q =
     (if q_poisoned q then (Inl poison_err, q)
      else (Inr (length (q_blocked q)), fold (\<lambda>e. push_seq e 0) (q_blocked q) (q\<lparr>q_blocked := []\<rparr>)))"

definition in_flight_len :: "eval_queue \<Rightarrow> nat" where
  "in_flight_len q = (if q_poisoned q then 0 else length (q_in_flight q))"

definition blocked_len :: "eval_queue \<Rightarrow> nat" where
  "blocked_len q = (if q_poisoned q then 0 else length (q_blocked q))"

definition queue_len :: "eval_queue \<Rightarrow> nat" where
  "queue_len q = (if q_poisoned q then 0 else length (q_heap q))"

definition queue_is_empty :: "eval_queue \<Rightarrow> bool" where
  "queue_is_empty q \<longleftrightarrow> queue_len q = 0"

record queue_depth =
  qd_pending :: nat
  qd_in_flight :: nat
  qd_blocked :: nat

definition depth :: "eval_queue \<Rightarrow> queue_depth" where
  "depth q =
     (if q_poisoned q then \<lparr>qd_pending = 0, qd_in_flight = 0, qd_blocked = 0\<rparr>
      else \<lparr>qd_pending = length (q_heap q), qd_in_flight = length (q_in_flight q),
            qd_blocked = length (q_blocked q)\<rparr>)"

section \<open>Operations as data, and runs\<close>

datatype queue_op =
    Enqueue evaluation
  | Dequeue nat
  | Ack eval_id
  | Nack eval_id
  | Reap "eval_id \<Rightarrow> nat" nat
  | Block evaluation
  | Unblock_All

fun queue_exec :: "queue_op \<Rightarrow> eval_queue \<Rightarrow> evaluation list \<times> eval_queue" where
  "queue_exec (Enqueue e) q = ([], snd (enqueue e q))"
| "queue_exec (Dequeue now) q =
     (case dequeue now q of (Inr (Some e), q') \<Rightarrow> ([e], q') | (_, q') \<Rightarrow> ([], q'))"
| "queue_exec (Ack i) q = ([], snd (ack i q))"
| "queue_exec (Nack i) q = ([], snd (nack i q))"
| "queue_exec (Reap clock timeout) q = ([], snd (reap_expired clock timeout q))"
| "queue_exec (Block e) q = ([], snd (block e q))"
| "queue_exec Unblock_All q = ([], snd (unblock_all q))"

fun queue_run :: "queue_op list \<Rightarrow> eval_queue \<Rightarrow> evaluation list \<times> eval_queue" where
  "queue_run [] q = ([], q)"
| "queue_run (op # ops) q =
     (case queue_exec op q of (d, q1) \<Rightarrow> (case queue_run ops q1 of (ds, q2) \<Rightarrow> (d @ ds, q2)))"

section \<open>The order of delivery\<close>

text \<open>
  The specification of the pending part: a list of evaluations in the order of delivery, where
  a new one goes behind those of its priority and above.
\<close>

definition spec_insert :: "evaluation \<Rightarrow> evaluation list \<Rightarrow> evaluation list" where
  "spec_insert e xs =
     takeWhile (\<lambda>x. sint (ev_priority e) \<le> sint (ev_priority x)) xs @
     e # dropWhile (\<lambda>x. sint (ev_priority e) \<le> sint (ev_priority x)) xs"

definition pending_evals :: "eval_queue \<Rightarrow> evaluation list" where
  "pending_evals q = map pe_eval (sort_key pe_key (q_heap q))"

text \<open>The sequence numbers are distinct and below the counter, which has not wrapped.\<close>

definition seq_ok :: "eval_queue \<Rightarrow> bool" where
  "seq_ok q \<longleftrightarrow> distinct (map pe_seq (q_heap q)) \<and>
     (\<forall>pe\<in>set (q_heap q). unat (pe_seq pe) < unat (q_next_seq q))"

definition seq_room :: "nat \<Rightarrow> eval_queue \<Rightarrow> bool" where
  "seq_room n q \<longleftrightarrow> unat (q_next_seq q) + n < 2 ^ 64"

lemma seq_ok_leaves:
  assumes "seq_ok q"
  shows "pq.leaves_as (q_heap q) (sort_key pe_key (q_heap q))"
proof -
  have "distinct (map pe_key h)" if "distinct (map pe_seq h)" for h
    using that by (induction h) (auto simp: pe_key_def image_iff word_unat_eq_iff)
  with assms have dk: "distinct (map pe_key (q_heap q))" by (simp add: seq_ok_def)
  then have "distinct (map pe_key (sort_key pe_key (q_heap q)))"
    by (simp add: distinct_map)
  then show ?thesis by (simp add: pq.leaves_as_def)
qed

lemma insort_key_split:
  "insort_key f x xs = takeWhile (\<lambda>y. \<not> f x \<le> f y) xs @ x # dropWhile (\<lambda>y. \<not> f x \<le> f y) xs"
  by (induction xs) auto

lemma push_seq_next:
  "seq_room 1 q \<Longrightarrow> unat (q_next_seq (push_seq e n q)) = Suc (unat (q_next_seq q))"
  by (auto simp: push_seq_def seq_room_def unat_word_ariths(1))

lemma push_seq_ok: "\<lbrakk>seq_ok q; seq_room 1 q\<rbrakk> \<Longrightarrow> seq_ok (push_seq e n q)"
  using push_seq_next [of q e n]
  by (auto simp: seq_ok_def push_seq_def heap_push_def)

lemma push_seq_pending:
  assumes "seq_ok q"
  shows "pending_evals (push_seq e n q) = spec_insert e (pending_evals q)"
proof -
  let ?x = "\<lparr>pe_seq = q_next_seq q, pe_eval = e, pe_dequeues = n, pe_dequeued_at = None\<rparr>"
  let ?ys = "sort_key pe_key (q_heap q)"
  have old: "unat (pe_seq y) < unat (q_next_seq q)" if "y \<in> set ?ys" for y
    using assms that by (simp add: seq_ok_def)
  then have "\<forall>y\<in>set ?ys. pe_key y \<noteq> pe_key ?x" by (fastforce simp: pe_key_def)
  then have "pq.leaves_as (heap_push ?x (q_heap q)) (insort_key pe_key ?x ?ys)"
    using seq_ok_leaves [OF assms] pq.leaves_as_push by blast
  then have "sort_key pe_key (q_heap (push_seq e n q)) = insort_key pe_key ?x ?ys"
    by (rule pq.leaves_as_unique) (simp add: push_seq_def)
  moreover have "(\<not> pe_key ?x \<le> pe_key y) = (sint (ev_priority e) \<le> sint (ev_priority (pe_eval y)))"
    if "y \<in> set ?ys" for y
    using old [OF that] by (auto simp: pe_key_def)
  then have "takeWhile (\<lambda>y. \<not> pe_key ?x \<le> pe_key y) ?ys =
        takeWhile (\<lambda>y. sint (ev_priority e) \<le> sint (ev_priority (pe_eval y))) ?ys"
    "dropWhile (\<lambda>y. \<not> pe_key ?x \<le> pe_key y) ?ys =
        dropWhile (\<lambda>y. sint (ev_priority e) \<le> sint (ev_priority (pe_eval y))) ?ys"
    by (intro takeWhile_cong [OF refl] dropWhile_cong [OF refl], assumption)+
  ultimately show ?thesis
    by (simp add: pending_evals_def spec_insert_def insort_key_split takeWhile_map dropWhile_map comp_def)
qed

lemma fold_push_pending:
  assumes "seq_ok q" and "seq_room (length es) q"
  shows "pending_evals (fold (\<lambda>e. push_seq e n) es q) = fold spec_insert es (pending_evals q) \<and>
    seq_ok (fold (\<lambda>e. push_seq e n) es q)"
  using assms
proof (induction es arbitrary: q)
  case (Cons e es)
  from Cons.prems have room: "seq_room 1 q" by (simp add: seq_room_def)
  have "seq_room (length es) (push_seq e n q)"
    using Cons.prems push_seq_next [OF room] by (simp add: seq_room_def)
  then show ?case
    using Cons.IH [of "push_seq e n q"] Cons.prems room by (simp add: push_seq_ok push_seq_pending)
qed simp

lemma dequeue_pending:
  assumes ok: "seq_ok q" and live: "\<not> q_poisoned q"
  shows "case pending_evals q of
           [] \<Rightarrow> dequeue now q = (Inr None, q)
         | e # es \<Rightarrow> \<exists>q'. dequeue now q = (Inr (Some e), q') \<and> pending_evals q' = es \<and> seq_ok q'"
proof (cases "sort_key pe_key (q_heap q)")
  case Nil
  then have "pq.leaves_as (q_heap q) []" using seq_ok_leaves [OF ok] by simp
  with Nil live show ?thesis
    using pq.leaves_as_Nil by (simp add: pending_evals_def dequeue_def)
next
  case (Cons x xs)
  then have "pq.leaves_as (q_heap q) (x # xs)" using seq_ok_leaves [OF ok] by simp
  from pq.leaves_as_pop [OF this] obtain h where pop: "heap_pop (q_heap q) = Some (x, h)"
    and lv: "pq.leaves_as h xs" by blast
  from lv have srt: "sort_key pe_key h = xs" by (rule pq.leaves_as_unique) simp
  have sub: "mset (q_heap q) = add_mset x (mset h)" using pq.pop_Some [OF pop] by simp
  then have "mset (map pe_seq (q_heap q)) = mset (map pe_seq (x # h))" by simp
  then have "distinct (map pe_seq h)"
    using ok by (metis distinct.simps(2) list.simps(9) mset_eq_imp_distinct_iff seq_ok_def)
  moreover have "set (q_heap q) = insert x (set h)"
    using arg_cong [OF sub, of set_mset] by simp
  ultimately show ?thesis
    using Cons pop live srt ok by (auto simp: pending_evals_def dequeue_def seq_ok_def Let_def)
qed

section \<open>The number of deliveries\<close>

text \<open>
  The heap holds evaluations delivered fewer than three times, the in-flight table holds under
  their identifier those delivered one to three times. \<open>credit i q\<close> counts the deliveries the
  queue can still make of evaluations with the identifier \<open>i\<close>.
\<close>

definition delivery_ok :: "eval_queue \<Rightarrow> bool" where
  "delivery_ok q \<longleftrightarrow> (\<forall>pe\<in>set (q_heap q). unat (pe_dequeues pe) < 3) \<and> hm_wf (q_in_flight q) \<and>
     (\<forall>(k, pe)\<in>set (q_in_flight q). k = ev_id (pe_eval pe) \<and>
        1 \<le> unat (pe_dequeues pe) \<and> unat (pe_dequeues pe) \<le> 3 \<and> pe_dequeued_at pe \<noteq> None)"

definition pe_credit :: "eval_id \<Rightarrow> pending_eval \<Rightarrow> nat" where
  "pe_credit i pe = (if ev_id (pe_eval pe) = i then 3 - unat (pe_dequeues pe) else 0)"

definition credit :: "eval_id \<Rightarrow> eval_queue \<Rightarrow> nat" where
  "credit i q = sum_list (map (pe_credit i) (q_heap q)) +
     sum_list (map (pe_credit i) (hm_values (q_in_flight q))) +
     3 * length (filter (\<lambda>e. ev_id e = i) (q_blocked q))"

definition deliveries :: "eval_id \<Rightarrow> evaluation list \<Rightarrow> nat" where
  "deliveries i ds = length (filter (\<lambda>e. ev_id e = i) ds)"

fun op_supplies :: "eval_id \<Rightarrow> queue_op \<Rightarrow> bool" where
  "op_supplies i (Enqueue e) \<longleftrightarrow> ev_id e = i"
| "op_supplies i (Block e) \<longleftrightarrow> ev_id e = i"
| "op_supplies i _ \<longleftrightarrow> False"

lemma delivery_ok_new: "delivery_ok queue_new"
  by (simp add: delivery_ok_def queue_new_def)

lemma MAX_DEQUEUE_less: "n < MAX_DEQUEUE \<longleftrightarrow> unat n < 3"
  by (simp add: MAX_DEQUEUE_def word_less_nat_alt)

lemma push_seq_delivery:
  "\<lbrakk>delivery_ok q; unat n < 3\<rbrakk> \<Longrightarrow> delivery_ok (push_seq e n q)"
  by (auto simp: delivery_ok_def push_seq_def heap_push_def)

lemma push_seq_credit:
  "credit i (push_seq e n q) = credit i q + (if ev_id e = i then 3 - unat n else 0)"
  by (simp add: credit_def push_seq_def heap_push_def pe_credit_def)

lemma in_flight_remove_ok:
  "delivery_ok q \<Longrightarrow> delivery_ok (q\<lparr>q_in_flight := hm_remove k (q_in_flight q)\<rparr>)"
  by (auto simp: delivery_ok_def set_hm_remove distinct_delete)

lemma sum_hm_remove:
  fixes f :: "'v \<Rightarrow> nat"
  shows "hm_get m k = Some v \<Longrightarrow>
    sum_list (map f (hm_values (hm_remove k m))) + f v \<le> sum_list (map f (hm_values m))"
proof (induction m)
  case (Cons e m)
  have "sum_list (map f (hm_values (hm_remove k m))) \<le> sum_list (map f (hm_values m))"
    by (induction m) auto
  with Cons show ?case by (auto split: if_splits)
qed simp

lemma sum_hm_remove_le:
  fixes f :: "'v \<Rightarrow> nat"
  shows "sum_list (map f (hm_values (hm_remove k m))) \<le> sum_list (map f (hm_values m))"
  by (induction m) auto

lemma sum_hm_insert:
  fixes f :: "'v \<Rightarrow> nat"
  shows "sum_list (map f (hm_values (hm_insert k v m))) \<le> sum_list (map f (hm_values m)) + f v"
  by (induction m) auto

lemma requeue_delivery: "delivery_ok q \<Longrightarrow> delivery_ok (requeue k q)"
  by (auto simp: requeue_def Let_def MAX_DEQUEUE_less in_flight_remove_ok push_seq_delivery
      split: option.split)

lemma requeue_credit: "credit i (requeue k q) \<le> credit i q"
proof (cases "hm_get (q_in_flight q) k")
  case (Some pe)
  from sum_hm_remove [OF this, of "pe_credit i"] Some show ?thesis
    by (auto simp: requeue_def Let_def push_seq_credit pe_credit_def) (auto simp: credit_def)
qed (simp add: requeue_def)

lemma fold_requeue:
  "delivery_ok q \<Longrightarrow> delivery_ok (fold requeue ks q) \<and> credit i (fold requeue ks q) \<le> credit i q"
proof (induction ks arbitrary: q)
  case (Cons k ks)
  from Cons.IH [of "requeue k q"] requeue_delivery [OF Cons.prems, of k] requeue_credit [of i k q]
  show ?case by auto
qed simp

lemma fold_push_delivery:
  "delivery_ok q \<Longrightarrow> delivery_ok (fold (\<lambda>e. push_seq e 0) es q) \<and>
     credit i (fold (\<lambda>e. push_seq e 0) es q) =
       credit i q + 3 * length (filter (\<lambda>e. ev_id e = i) es)"
  by (induction es arbitrary: q) (auto simp: push_seq_delivery push_seq_credit)

lemma heap_pop_sum:
  fixes f :: "pending_eval \<Rightarrow> nat"
  assumes "heap_pop h = Some (pe, h')"
  shows "sum_list (map f h) = f pe + sum_list (map f h')" and "set h = insert pe (set h')"
proof -
  have m: "mset h = add_mset pe (mset h')" using pq.pop_Some [OF assms] by simp
  then have "sum_mset (image_mset f (mset h)) = f pe + sum_mset (image_mset f (mset h'))" by simp
  then show "sum_list (map f h) = f pe + sum_list (map f h')"
    by (metis mset_map sum_mset_sum_list)
  show "set h = insert pe (set h')" using arg_cong [OF m, of set_mset] by simp
qed

lemma dequeue_credit:
  assumes "delivery_ok q"
  shows "delivery_ok (snd (queue_exec (Dequeue now) q)) \<and>
    deliveries i (fst (queue_exec (Dequeue now) q)) + credit i (snd (queue_exec (Dequeue now) q)) \<le> credit i q"
proof (cases "q_poisoned q \<or> heap_pop (q_heap q) = None")
  case True
  with assms show ?thesis by (auto simp: dequeue_def deliveries_def)
next
  case False
  then obtain pe h where pop: "heap_pop (q_heap q) = Some (pe, h)" by auto
  let ?pe = "pe\<lparr>pe_dequeues := pe_dequeues pe + 1, pe_dequeued_at := Some now\<rparr>"
  have lt: "unat (pe_dequeues pe) < 3"
    using assms heap_pop_sum(2) [OF pop] by (simp add: delivery_ok_def)
  then have inc: "unat (pe_dequeues pe + 1) = Suc (unat (pe_dequeues pe))"
    by (simp add: unat_word_ariths(1))
  have run: "queue_exec (Dequeue now) q = ([pe_eval pe],
      q\<lparr>q_heap := h, q_in_flight := hm_insert (ev_id (pe_eval pe)) ?pe (q_in_flight q)\<rparr>)"
    using False pop by (simp add: dequeue_def Let_def)
  have "sum_list (map (pe_credit i) (q_heap q)) = pe_credit i pe + sum_list (map (pe_credit i) h)"
    by (rule heap_pop_sum(1) [OF pop])
  moreover have "pe_credit i pe = pe_credit i ?pe + deliveries i [pe_eval pe]"
    using lt by (simp add: pe_credit_def deliveries_def inc) linarith
  moreover have "delivery_ok (snd (queue_exec (Dequeue now) q))"
    using assms lt inc heap_pop_sum(2) [OF pop] unfolding run
    by (auto simp: delivery_ok_def set_hm_insert distinct_update)
  ultimately show ?thesis
    using sum_hm_insert [of "pe_credit i" "ev_id (pe_eval pe)" ?pe "q_in_flight q"]
    unfolding run by (simp add: credit_def)
qed

lemma queue_exec_credit:
  assumes "delivery_ok q"
  shows "delivery_ok (snd (queue_exec op q)) \<and>
    deliveries i (fst (queue_exec op q)) + credit i (snd (queue_exec op q))
      \<le> credit i q + (if op_supplies i op then 3 else 0)"
proof (cases op)
  case (Dequeue now)
  with dequeue_credit [OF assms] show ?thesis by simp
next
  case (Enqueue e)
  with assms show ?thesis
    by (auto simp: enqueue_def deliveries_def push_seq_delivery push_seq_credit)
next
  case (Ack k)
  with assms in_flight_remove_ok [OF assms, of k] sum_hm_remove_le [of "pe_credit i" k "q_in_flight q"]
  show ?thesis by (auto simp: ack_def deliveries_def credit_def)
next
  case (Nack k)
  with assms show ?thesis
    by (auto simp: nack_def deliveries_def requeue_delivery requeue_credit)
next
  case (Reap c tmo)
  with assms show ?thesis
    by (auto simp: reap_expired_def deliveries_def fold_requeue Let_def)
next
  case (Block e)
  with assms show ?thesis
    by (auto simp: block_def deliveries_def delivery_ok_def credit_def)
next
  case Unblock_All
  have "delivery_ok (q\<lparr>q_blocked := []\<rparr>)" using assms by (simp add: delivery_ok_def)
  from fold_push_delivery [OF this, of "q_blocked q" i] Unblock_All assms show ?thesis
    by (auto simp: unblock_all_def deliveries_def credit_def)
qed

lemma queue_run_credit:
  "delivery_ok q \<Longrightarrow> delivery_ok (snd (queue_run ops q)) \<and>
     deliveries i (fst (queue_run ops q)) + credit i (snd (queue_run ops q))
       \<le> credit i q + 3 * length (filter (op_supplies i) ops)"
proof (induction ops arbitrary: q)
  case (Cons op ops)
  obtain d q1 where ex: "queue_exec op q = (d, q1)" by fastforce
  obtain ds q2 where run: "queue_run ops q1 = (ds, q2)" by fastforce
  from queue_exec_credit [OF Cons.prems, of op i] Cons.IH [of q1] ex run show ?case
    by (auto simp: deliveries_def)
qed (simp add: deliveries_def)

section \<open>Reachable queues\<close>

definition queue_init :: "eval_queue \<Rightarrow> bool" where
  "queue_init q \<longleftrightarrow> q = queue_new"

text \<open>
  A step is one operation, taken while the counter has room for every evaluation the operation
  may push.
\<close>

definition queue_step :: "eval_queue \<Rightarrow> eval_queue \<Rightarrow> bool" where
  "queue_step q q' \<longleftrightarrow> seq_room (1 + length (q_in_flight q) + length (q_blocked q)) q \<and>
     (\<exists>op. q' = snd (queue_exec op q))"

definition queue_inv :: "eval_queue \<Rightarrow> bool" where
  "queue_inv q \<longleftrightarrow> seq_ok q \<and> delivery_ok q \<and> \<not> q_poisoned q"

lemma requeue_seq:
  assumes "seq_ok q" and "seq_room 1 q"
  shows "seq_ok (requeue k q) \<and> unat (q_next_seq (requeue k q)) \<le> Suc (unat (q_next_seq q)) \<and>
    q_poisoned (requeue k q) = q_poisoned q"
proof -
  let ?q = "q\<lparr>q_in_flight := hm_remove k (q_in_flight q)\<rparr>"
  have q: "seq_ok ?q" "seq_room 1 ?q" "unat (q_next_seq ?q) = unat (q_next_seq q)"
    using assms by (simp_all add: seq_ok_def seq_room_def)
  have pois: "q_poisoned (push_seq e n ?q) = q_poisoned q" for e n by (simp add: push_seq_def)
  show ?thesis
    using assms q push_seq_ok [OF q(1,2)] push_seq_next [OF q(2)] pois
    by (auto simp: requeue_def Let_def split: option.split)
qed

lemma fold_requeue_seq:
  "\<lbrakk>seq_ok q; seq_room (length ks) q\<rbrakk> \<Longrightarrow>
     seq_ok (fold requeue ks q) \<and> q_poisoned (fold requeue ks q) = q_poisoned q"
proof (induction ks arbitrary: q)
  case (Cons k ks)
  then have "seq_room 1 q" by (simp add: seq_room_def)
  from requeue_seq [OF Cons.prems(1) this, of k] Cons show ?case
    by (simp add: seq_room_def)
qed simp

lemma fold_push_poisoned: "q_poisoned (fold (\<lambda>e. push_seq e n) es q) = q_poisoned q"
  by (induction es arbitrary: q) (simp_all add: push_seq_def)

lemma queue_exec_seq:
  assumes inv: "seq_ok q" "\<not> q_poisoned q"
    and room: "seq_room (1 + length (q_in_flight q) + length (q_blocked q)) q"
  shows "seq_ok (snd (queue_exec op q)) \<and> \<not> q_poisoned (snd (queue_exec op q))"
proof (cases op)
  case (Dequeue now)
  with dequeue_pending [OF inv, of now] inv show ?thesis
    by (cases "pending_evals q"; cases "heap_pop (q_heap q)") (auto simp: dequeue_def Let_def)
next
  case (Reap c tmo)
  have "length (map fst (filter (is_expired c tmo) (q_in_flight q))) \<le> length (q_in_flight q)" by simp
  then have "seq_room (length (map fst (filter (is_expired c tmo) (q_in_flight q)))) q"
    using room unfolding seq_room_def by linarith
  from fold_requeue_seq [OF inv(1) this] Reap inv show ?thesis
    by (simp add: reap_expired_def)
next
  case Unblock_All
  have "seq_ok (q\<lparr>q_blocked := []\<rparr>)" "seq_room (length (q_blocked q)) (q\<lparr>q_blocked := []\<rparr>)"
    using inv room by (simp_all add: seq_ok_def seq_room_def)
  from fold_push_pending [OF this] Unblock_All inv show ?thesis
    by (simp add: unblock_all_def fold_push_poisoned)
next
  case (Nack k)
  have "seq_room 1 q" using room by (simp add: seq_room_def)
  from requeue_seq [OF inv(1) this] Nack inv show ?thesis by (simp add: nack_def)
next
  case (Enqueue e)
  have "seq_room 1 q" using room by (simp add: seq_room_def)
  from push_seq_ok [OF inv(1) this] Enqueue inv show ?thesis by (simp add: enqueue_def push_seq_def)
qed (use inv in \<open>simp_all add: ack_def block_def seq_ok_def\<close>)

interpretation eval_queue_inv: inductive_invariant queue_init queue_step queue_inv
proof (unfold_locales, goal_cases)
  case (1 q)
  then show ?case by (simp add: queue_init_def queue_inv_def delivery_ok_new)
      (simp add: queue_new_def seq_ok_def)
next
  case (2 q q')
  then show ?case
    using queue_exec_seq queue_exec_credit by (auto simp: queue_step_def queue_inv_def)
qed

section \<open>Properties\<close>

lemma spec_insert_sorted:
  "sorted_wrt (\<lambda>a b. sint (ev_priority b) \<le> sint (ev_priority a)) (pending_evals q)"
proof -
  have "sorted_wrt (\<lambda>a b. pe_key a \<le> pe_key b) (sort_key pe_key (q_heap q))"
    using sorted_sort_key [of pe_key "q_heap q"] unfolding sorted_map .
  then show ?thesis
    unfolding pending_evals_def sorted_wrt_map
    by (rule sorted_wrt_mono_rel [rotated]) (auto simp: pe_key_def)
qed

text \<open>C12. Delivery is by descending priority and first come, first served within a priority: in
  every reachable queue the pending evaluations form a list of non-increasing priority, an
  enqueue puts the evaluation behind those of its priority or above and in front of the rest, a
  dequeue hands out the head of the list and leaves the tail, or reports an empty queue, and
  unblocking inserts the blocked evaluations one after the other in the order they were
  parked.\<close>

theorem queue_priority_fifo:
  assumes "reachable queue_init queue_step q"
    and "seq_room (1 + length (q_in_flight q) + length (q_blocked q)) q"
  shows "sorted_wrt (\<lambda>a b. sint (ev_priority b) \<le> sint (ev_priority a)) (pending_evals q) \<and>
    pending_evals (snd (enqueue e q)) = spec_insert e (pending_evals q) \<and>
    (case pending_evals q of
       [] \<Rightarrow> dequeue now q = (Inr None, q)
     | x # xs \<Rightarrow> fst (dequeue now q) = Inr (Some x) \<and> pending_evals (snd (dequeue now q)) = xs) \<and>
    pending_evals (snd (unblock_all q)) = fold spec_insert (q_blocked q) (pending_evals q)"
proof -
  have inv: "seq_ok q" "\<not> q_poisoned q"
    using eval_queue_inv.reachable_inv [OF assms(1)] by (simp_all add: queue_inv_def)
  have "seq_ok (q\<lparr>q_blocked := []\<rparr>)" "seq_room (length (q_blocked q)) (q\<lparr>q_blocked := []\<rparr>)"
    using inv assms(2) by (simp_all add: seq_ok_def seq_room_def)
  from fold_push_pending [OF this, of 0] have
    "pending_evals (snd (unblock_all q)) = fold spec_insert (q_blocked q) (pending_evals q)"
    using inv by (simp add: unblock_all_def pending_evals_def)
  then show ?thesis
    using inv dequeue_pending [OF inv, of now] spec_insert_sorted [of q]
    by (auto simp: enqueue_def push_seq_pending split: list.splits)
qed

definition two_priorities :: eval_queue where
  "two_priorities =
     snd (queue_run [Enqueue sample_eval,
                     Enqueue (sample_eval\<lparr>ev_id := ''e2'', ev_priority := 80\<rparr>)] queue_new)"

lemma two_priorities_eq:
  "two_priorities =
     \<lparr>q_heap = [\<lparr>pe_seq = 0, pe_eval = sample_eval, pe_dequeues = 0, pe_dequeued_at = None\<rparr>,
                \<lparr>pe_seq = 1, pe_eval = sample_eval\<lparr>ev_id := ''e2'', ev_priority := 80\<rparr>,
                 pe_dequeues = 0, pe_dequeued_at = None\<rparr>],
      q_next_seq = 2, q_in_flight = [], q_blocked = [], q_poisoned = False\<rparr>"
  by (simp add: two_priorities_def queue_new_def enqueue_def push_seq_def heap_push_def)

lemma queue_step_exec:
  "seq_room (1 + length (q_in_flight q) + length (q_blocked q)) q \<Longrightarrow>
     queue_step q (snd (queue_exec op q))"
  by (auto simp: queue_step_def)

lemma queue_reach_exec:
  "\<lbrakk>reachable queue_init queue_step q;
    seq_room (1 + length (q_in_flight q) + length (q_blocked q)) q\<rbrakk> \<Longrightarrow>
     reachable queue_init queue_step (snd (queue_exec op q))"
  by (rule reach_step, assumption, rule queue_step_exec)

lemma two_priorities_reachable: "reachable queue_init queue_step two_priorities"
proof -
  let ?e = "sample_eval\<lparr>ev_id := ''e2'', ev_priority := 80\<rparr>"
  let ?q1 = "snd (queue_exec (Enqueue sample_eval) queue_new)"
  have "reachable queue_init queue_step ?q1"
    by (rule queue_reach_exec, rule reach_init)
      (simp_all add: queue_init_def seq_room_def queue_new_def)
  then have "reachable queue_init queue_step (snd (queue_exec (Enqueue ?e) ?q1))"
    by (rule queue_reach_exec)
      (simp add: seq_room_def queue_new_def enqueue_def push_seq_def)
  then show ?thesis by (simp add: two_priorities_def)
qed

lemma two_priorities_room:
  "seq_room (1 + length (q_in_flight two_priorities) + length (q_blocked two_priorities)) two_priorities"
  by (simp add: two_priorities_eq seq_room_def)

theorem queue_priority_fifo_witness:
  "fst (dequeue 0 two_priorities) = Inr (Some (sample_eval\<lparr>ev_id := ''e2'', ev_priority := 80\<rparr>)) \<and>
   pending_evals (snd (dequeue 0 two_priorities)) = [sample_eval]"
proof -
  have "pending_evals two_priorities = [sample_eval\<lparr>ev_id := ''e2'', ev_priority := 80\<rparr>, sample_eval]"
    by (simp add: two_priorities_eq pending_evals_def pe_key_def sample_eval_def)
  with queue_priority_fifo [OF two_priorities_reachable two_priorities_room, of sample_eval 0]
  show ?thesis by simp
qed

text \<open>C13. The delivery cap: over any sequence of operations on a fresh queue, however nacks and
  reaped timeouts are interleaved, evaluations with a given identifier are handed out at most
  three times for each time one was enqueued or parked as blocked.\<close>

theorem delivery_cap:
  "deliveries i (fst (queue_run ops queue_new)) \<le> 3 * length (filter (op_supplies i) ops)"
proof -
  have "credit i queue_new = 0" by (simp add: credit_def queue_new_def)
  with queue_run_credit [OF delivery_ok_new, of ops i] show ?thesis by simp
qed

text \<open>C37. A negative acknowledgement of a delivered evaluation takes it out of flight; it is put
  back behind the pending ones of its priority unless it had its three deliveries, and then it
  is gone. For an identifier that is not in flight nothing happens.\<close>

theorem nack_behaviour:
  assumes "reachable queue_init queue_step q"
  shows "case hm_get (q_in_flight q) i of
      None \<Rightarrow> nack i q = (Inr (), q)
    | Some pe \<Rightarrow>
        ev_id (pe_eval pe) = i \<and> unat (pe_dequeues pe) \<in> {1, 2, 3} \<and>
        fst (nack i q) = Inr () \<and>
        q_in_flight (snd (nack i q)) = hm_remove i (q_in_flight q) \<and>
        pending_evals (snd (nack i q)) =
          (if unat (pe_dequeues pe) < 3 then spec_insert (pe_eval pe) (pending_evals q) else pending_evals q)"
proof -
  have inv: "seq_ok q" "\<not> q_poisoned q" "delivery_ok q"
    using eval_queue_inv.reachable_inv [OF assms] by (simp_all add: queue_inv_def)
  have ent: "ev_id (pe_eval pe) = i \<and> unat (pe_dequeues pe) \<in> {1, 2, 3}"
    if "hm_get (q_in_flight q) i = Some pe" for pe
    using map_of_SomeD [OF that] inv(3) by (auto simp: delivery_ok_def)
  let ?q = "q\<lparr>q_in_flight := hm_remove i (q_in_flight q)\<rparr>"
  have "seq_ok ?q" "pending_evals ?q = pending_evals q"
    using inv by (simp_all add: seq_ok_def pending_evals_def)
  with push_seq_pending [of ?q] inv ent show ?thesis
    by (auto simp: nack_def requeue_def MAX_DEQUEUE_less push_seq_def split: option.split)
qed

definition one_in_flight :: eval_queue where
  "one_in_flight = snd (queue_exec (Dequeue 5) two_priorities)"

lemma one_in_flight_eq:
  "one_in_flight =
     \<lparr>q_heap = [\<lparr>pe_seq = 0, pe_eval = sample_eval, pe_dequeues = 0, pe_dequeued_at = None\<rparr>],
      q_next_seq = 2,
      q_in_flight = [(''e2'', \<lparr>pe_seq = 1, pe_eval = sample_eval\<lparr>ev_id := ''e2'', ev_priority := 80\<rparr>,
                               pe_dequeues = 1, pe_dequeued_at = Some 5\<rparr>)],
      q_blocked = [], q_poisoned = False\<rparr>"
  by (simp add: one_in_flight_def two_priorities_eq dequeue_def pe_cmp_def i32_cmp_def sample_eval_def Let_def)

lemma one_in_flight_reachable: "reachable queue_init queue_step one_in_flight"
  unfolding one_in_flight_def
  by (rule queue_reach_exec [OF two_priorities_reachable two_priorities_room])

theorem nack_behaviour_witness:
  "map ev_id (pending_evals (snd (nack ''e2'' one_in_flight))) = [''e2'', ''e1'']"
proof -
  have "pending_evals one_in_flight = [sample_eval]"
    by (simp add: one_in_flight_eq pending_evals_def)
  then show ?thesis
    using nack_behaviour [OF one_in_flight_reachable, of "''e2''"]
    by (simp add: one_in_flight_eq spec_insert_def sample_eval_def)
qed

lemma requeue_in_flight: "q_in_flight (requeue k q) = filter (\<lambda>e. fst e \<noteq> k) (q_in_flight q)"
  by (auto simp: requeue_def push_seq_def AList.delete_eq Let_def map_of_eq_None_iff split: option.split
      intro!: filter_True [symmetric] filter_cong)

lemma fold_requeue_in_flight:
  "q_in_flight (fold requeue ks q) = filter (\<lambda>e. fst e \<notin> set ks) (q_in_flight q)"
  by (induction ks arbitrary: q) (auto simp: requeue_in_flight intro: filter_cong)

lemma fold_requeue_blocked: "q_blocked (fold requeue ks q) = q_blocked q"
  by (induction ks arbitrary: q) (auto simp: requeue_def push_seq_def Let_def split: option.split)

lemma requeue_pending:
  assumes "seq_ok q" and "hm_get (q_in_flight q) k = Some pe"
  shows "pending_evals (requeue k q) =
    (if pe_dequeues pe < MAX_DEQUEUE then spec_insert (pe_eval pe) (pending_evals q) else pending_evals q)"
proof -
  let ?q = "q\<lparr>q_in_flight := hm_remove k (q_in_flight q)\<rparr>"
  have "seq_ok ?q" "pending_evals ?q = pending_evals q" using assms(1) by (simp_all add: seq_ok_def pending_evals_def)
  with push_seq_pending [of ?q] assms(2) show ?thesis by (simp add: requeue_def)
qed

lemma fold_requeue_pending:
  assumes "seq_ok q" and "seq_room (length xs) q" and "distinct (map fst xs)"
    and "\<forall>(k, pe)\<in>set xs. hm_get (q_in_flight q) k = Some pe"
  shows "pending_evals (fold requeue (map fst xs) q) =
    fold spec_insert (map (\<lambda>x. pe_eval (snd x)) (filter (\<lambda>x. pe_dequeues (snd x) < MAX_DEQUEUE) xs)) (pending_evals q)"
  using assms
proof (induction xs arbitrary: q)
  case (Cons x xs)
  obtain k pe where x: "x = (k, pe)" by (cases x)
  have room: "seq_room 1 q" using Cons.prems(2) by (simp add: seq_room_def)
  note seq = requeue_seq [OF Cons.prems(1) room, of k]
  have "hm_get (q_in_flight (requeue k q)) k' = hm_get (q_in_flight q) k'" if "k' \<noteq> k" for k'
    using that by (auto simp: requeue_def push_seq_def Let_def split: option.split)
  moreover have "k' \<noteq> k" "hm_get (q_in_flight q) k' = Some pe'" if "(k', pe') \<in> set xs" for k' pe'
    using that Cons.prems(3,4) x by (auto simp: image_iff)
  ultimately have "\<forall>(k', pe')\<in>set xs. hm_get (q_in_flight (requeue k q)) k' = Some pe'" by auto
  moreover have "seq_room (length xs) (requeue k q)" using seq Cons.prems(2) by (simp add: seq_room_def)
  ultimately have "pending_evals (fold requeue (map fst xs) (requeue k q)) =
      fold spec_insert (map (\<lambda>x. pe_eval (snd x)) (filter (\<lambda>x. pe_dequeues (snd x) < MAX_DEQUEUE) xs)) (pending_evals (requeue k q))"
    using Cons.IH [of "requeue k q"] seq Cons.prems(3) by simp
  with requeue_pending [OF Cons.prems(1), of k pe] Cons.prems(4) x show ?case by simp
qed simp

text \<open>Reaping a queue: what is requeued, what stays in flight, and that all else is as before.\<close>

definition redelivered :: "(eval_id \<Rightarrow> nat) \<Rightarrow> nat \<Rightarrow> eval_queue \<Rightarrow> evaluation list" where
  "redelivered clock timeout q =
     map (\<lambda>x. pe_eval (snd x))
       (filter (\<lambda>x. is_expired clock timeout x \<and> unat (pe_dequeues (snd x)) < 3) (q_in_flight q))"

lemma reap_parts:
  fixes clock :: "eval_id \<Rightarrow> nat" and timeout :: nat and q :: eval_queue
  assumes inv: "queue_inv q" and room: "seq_room (length (q_in_flight q)) q"
  defines "q' \<equiv> snd (reap_expired clock timeout q)"
  shows "queue_inv q'" and "q_in_flight q' = filter (\<lambda>x. \<not> is_expired clock timeout x) (q_in_flight q)"
    and "q_blocked q' = q_blocked q"
    and "pending_evals q' = fold spec_insert (redelivered clock timeout q) (pending_evals q)"
proof -
  let ?xs = "filter (is_expired clock timeout) (q_in_flight q)"
  have ok: "seq_ok q" "\<not> q_poisoned q" "hm_wf (q_in_flight q)" "delivery_ok q"
    using inv by (simp_all add: queue_inv_def delivery_ok_def)
  have q': "q' = fold requeue (map fst ?xs) q" using ok(2) by (simp add: q'_def reap_expired_def)
  have "length ?xs \<le> length (q_in_flight q)" by simp
  then have room': "seq_room (length ?xs) q" using room unfolding seq_room_def by linarith
  from fold_requeue_seq [OF ok(1), of "map fst ?xs"] room' fold_requeue [OF ok(4)] ok(2) show "queue_inv q'"
    by (simp add: q' queue_inv_def)
  have "filter (\<lambda>e. fst e \<notin> set (map fst (filter P m))) m = filter (\<lambda>e. \<not> P e) m"
    if "hm_wf m" for P and m :: "(eval_id, pending_eval) hashmap"
    using that by (intro filter_cong refl) (auto simp: image_iff dest: eq_key_imp_eq_value)
  with ok(3) show "q_in_flight q' = filter (\<lambda>x. \<not> is_expired clock timeout x) (q_in_flight q)"
    by (simp add: q' fold_requeue_in_flight)
  show "q_blocked q' = q_blocked q" by (simp add: q' fold_requeue_blocked)
  have "distinct (map fst ?xs)" using ok(3) by (simp add: distinct_map_filter)
  moreover have "\<forall>(k, pe)\<in>set ?xs. hm_get (q_in_flight q) k = Some pe" using ok(3) by auto
  ultimately show "pending_evals q' = fold spec_insert (redelivered clock timeout q) (pending_evals q)"
    using fold_requeue_pending [OF ok(1) room'] by (simp add: q' redelivered_def MAX_DEQUEUE_less conj_commute)
qed

text \<open>C28. In a reachable queue whose sequence counter has room for what is in flight, reaping reports how
  many deliveries have timed out and takes exactly those out of flight. In the order in which the
  map lists them, each that had fewer than its three deliveries becomes pending again, behind the
  others of its priority; the rest are given up. What has not timed out stays in flight unchanged,
  and what is blocked stays blocked.\<close>

theorem reap_expired_exact:
  assumes "reachable queue_init queue_step q" and "seq_room (length (q_in_flight q)) q"
  shows "fst (reap_expired clock timeout q) = Inr (length (filter (is_expired clock timeout) (q_in_flight q))) \<and>
    q_in_flight (snd (reap_expired clock timeout q)) =
      filter (\<lambda>e. \<not> is_expired clock timeout e) (q_in_flight q) \<and>
    pending_evals (snd (reap_expired clock timeout q)) =
      fold spec_insert (map (\<lambda>x. pe_eval (snd x))
        (filter (\<lambda>x. is_expired clock timeout x \<and> unat (pe_dequeues (snd x)) < 3) (q_in_flight q)))
        (pending_evals q) \<and>
    q_blocked (snd (reap_expired clock timeout q)) = q_blocked q"
proof -
  have inv: "queue_inv q" using assms(1) by (rule eval_queue_inv.reachable_inv)
  then have "fst (reap_expired clock timeout q) = Inr (length (filter (is_expired clock timeout) (q_in_flight q)))"
    by (simp add: reap_expired_def queue_inv_def Let_def)
  with reap_parts(2-4) [OF inv assms(2), of clock timeout] show ?thesis by (simp only: redelivered_def simp_thms)
qed

theorem reap_expired_exact_witness:
  "fst (reap_expired (\<lambda>_. 105) 100 one_in_flight) = Inr 1 \<and>
   q_in_flight (snd (reap_expired (\<lambda>_. 105) 100 one_in_flight)) = [] \<and>
   map ev_id (pending_evals (snd (reap_expired (\<lambda>_. 105) 100 one_in_flight))) = [''e2'', ''e1'']"
proof -
  have "seq_room (length (q_in_flight one_in_flight)) one_in_flight" by (simp add: one_in_flight_eq seq_room_def)
  moreover have "pending_evals one_in_flight = [sample_eval]" by (simp add: one_in_flight_eq pending_evals_def)
  ultimately show ?thesis
    using reap_expired_exact [OF one_in_flight_reachable, of "\<lambda>_. 105" 100]
    by (simp add: one_in_flight_eq is_expired_def spec_insert_def sample_eval_def)
qed

text \<open>A poisoned queue answers every mutating call with the poison error and stays as it is;
  its counters read zero.\<close>

theorem poisoned_queue:
  assumes "q_poisoned q"
  shows "enqueue e q = (Inl poison_err, q) \<and> dequeue now q = (Inl poison_err, q) \<and>
    ack i q = (Inl poison_err, q) \<and> nack i q = (Inl poison_err, q) \<and>
    reap_expired clock timeout q = (Inl poison_err, q) \<and> block e q = (Inl poison_err, q) \<and>
    unblock_all q = (Inl poison_err, q) \<and> queue_is_empty q \<and>
    depth q = \<lparr>qd_pending = 0, qd_in_flight = 0, qd_blocked = 0\<rparr>"
  using assms
  by (simp add: enqueue_def dequeue_def ack_def nack_def reap_expired_def block_def unblock_all_def
      queue_is_empty_def queue_len_def depth_def)

theorem poisoned_queue_witness:
  "enqueue sample_eval (one_in_flight\<lparr>q_poisoned := True\<rparr>) =
     (Inl poison_err, one_in_flight\<lparr>q_poisoned := True\<rparr>)"
  using poisoned_queue [of "one_in_flight\<lparr>q_poisoned := True\<rparr>"] by simp

end
