(* ===== verification/Rpc.thy ===== *)
theory Rpc
  imports Raft Eval_Queue
begin

text \<open>
  \<open>src/src/rpc.rs\<close>: the request handlers over the consensus node and the evaluation queue, and
  the length-prefixed frames. A connection is the bytes that will still arrive and how they end,
  the bytes sent so far and how many more can be sent. JSON encoding and decoding are arguments.
  The two clocks are arguments: \<open>inst\<close> is the monotonic clock of the queue and \<open>nanos\<close> the
  wall clock in nanoseconds that \<open>eval_id_for\<close> reads.
\<close>

section \<open>Requests and their handling\<close>

datatype request =
    Req_JobRegister job
  | Req_JobDeregister string
  | Req_NodeRegister node
  | Req_EvalDequeue "string list"

datatype response =
    JobRegistered eval_id
  | Resp_Ack
  | Resp_Eval "evaluation option"
  | NotLeader "string option"

record endpoint =
  ep_queue :: eval_queue
  ep_raft :: raft_node

definition endpoint_new :: "eval_queue \<Rightarrow> endpoint" where
  "endpoint_new q = \<lparr>ep_queue = q, ep_raft = raft_bootstrap ''rpc-local''\<rparr>"

definition with_raft :: "eval_queue \<Rightarrow> raft_node \<Rightarrow> endpoint" where
  "with_raft q r = \<lparr>ep_queue = q, ep_raft = r\<rparr>"

definition commit :: "command \<Rightarrow> endpoint \<Rightarrow> response option result \<times> endpoint" where
  "commit c ep =
     (if \<not> is_leader (ep_raft ep) then (Inr (Some (NotLeader (leader_addr (ep_raft ep)))), ep)
      else case propose c (ep_raft ep) of
             (Inl err, r) \<Rightarrow> (Inl err, ep\<lparr>ep_raft := r\<rparr>)
           | (Inr _, r) \<Rightarrow> (Inr None, ep\<lparr>ep_raft := r\<rparr>))"

definition eval_id_for :: "nat \<Rightarrow> string \<Rightarrow> eval_id" where
  "eval_id_for nanos job_name = ''eval-'' @ job_name @ CHR ''-'' # show_nat nanos"

definition on_queue :: "(eval_queue \<Rightarrow> 'a result \<times> eval_queue) \<Rightarrow> endpoint \<Rightarrow> 'a result \<times> endpoint" where
  "on_queue m ep = (case m (ep_queue ep) of (r, q) \<Rightarrow> (r, ep\<lparr>ep_queue := q\<rparr>))"

text \<open>\<open>if let Some(resp) = self.commit(..)? { return Ok(resp); }\<close> before the rest of a handler.\<close>

definition committing :: "command \<Rightarrow> (endpoint \<Rightarrow> response result \<times> endpoint) \<Rightarrow> endpoint \<Rightarrow> response result \<times> endpoint" where
  "committing c rest =
     sbind (commit c) (\<lambda>ro. case ro of Some resp \<Rightarrow> slift (Inr resp) | None \<Rightarrow> rest)"

fun handle :: "nat \<Rightarrow> nat \<Rightarrow> request \<Rightarrow> endpoint \<Rightarrow> response result \<times> endpoint" where
  "handle inst nanos (Req_JobRegister job) =
     sbind (slift (job_validate job)) (\<lambda>_.
     committing (UpsertJob job)
       (let eval_id = eval_id_for nanos (jb_name job)
        in sbind (on_queue (enqueue \<lparr>ev_id = eval_id, ev_job_id = jb_name job,
                    ev_priority = jb_priority job, ev_trigger = JobRegister, ev_status = EPending\<rparr>)) (\<lambda>_.
           slift (Inr (JobRegistered eval_id)))))"
| "handle inst nanos (Req_JobDeregister name) =
     committing (DeregisterJob name)
       (sbind (on_queue (enqueue \<lparr>ev_id = eval_id_for nanos name, ev_job_id = name,
                    ev_priority = 50, ev_trigger = JobDeregister, ev_status = EPending\<rparr>)) (\<lambda>_.
        slift (Inr Resp_Ack)))"
| "handle inst nanos (Req_NodeRegister n) =
     committing (UpsertNode n)
       (sbind (on_queue unblock_all) (\<lambda>_. slift (Inr Resp_Ack)))"
| "handle inst nanos (Req_EvalDequeue schedulers) =
     sbind (on_queue (dequeue inst)) (\<lambda>eo. slift (Inr (Resp_Eval eo)))"

section \<open>Frames\<close>

definition MAX_FRAME :: nat where "MAX_FRAME = 8 * 1024 * 1024"

definition to_be_bytes :: "nat \<Rightarrow> string" where
  "to_be_bytes n = map (\<lambda>k. char_of (n div 256 ^ k mod 256)) [3, 2, 1, 0]"

definition from_be_bytes :: "string \<Rightarrow> nat" where
  "from_be_bytes bs = fold (\<lambda>c acc. acc * 256 + of_char c) bs 0"

datatype io_error = UnexpectedEof | Other_Io string

record conn =
  cn_in :: string
  cn_end :: io_error
  cn_out :: string
  cn_room :: "nat option"

definition read_exact :: "nat \<Rightarrow> conn \<Rightarrow> (io_error + string) \<times> conn" where
  "read_exact n c =
     (if n \<le> length (cn_in c) then (Inr (take n (cn_in c)), c\<lparr>cn_in := drop n (cn_in c)\<rparr>)
      else (Inl (cn_end c), c\<lparr>cn_in := []\<rparr>))"

definition conn_write_all :: "string \<Rightarrow> conn \<Rightarrow> unit result \<times> conn" where
  "conn_write_all bytes c =
     (case cn_room c of
        None \<Rightarrow> (Inr (), c\<lparr>cn_out := cn_out c @ bytes\<rparr>)
      | Some k \<Rightarrow>
          if length bytes \<le> k
          then (Inr (), c\<lparr>cn_out := cn_out c @ bytes, cn_room := Some (k - length bytes)\<rparr>)
          else (Inl (Io ''broken pipe''), c\<lparr>cn_out := cn_out c @ take k bytes, cn_room := Some 0\<rparr>))"

fun io_into :: "io_error \<Rightarrow> error" where
  "io_into UnexpectedEof = Io ''early eof''"
| "io_into (Other_Io m) = Io m"

definition write_frame :: "('m \<Rightarrow> string result) \<Rightarrow> 'm \<Rightarrow> conn \<Rightarrow> unit result \<times> conn" where
  "write_frame to_vec msg =
     sbind (slift (to_vec msg)) (\<lambda>bytes.
     if MAX_FRAME < length bytes then slift (Inl (Runtime ''rpc frame exceeds maximum size''))
     else if 2 ^ 32 \<le> length bytes then slift (Inl (Runtime ''rpc frame length overflow''))
     else sbind (conn_write_all (to_be_bytes (length bytes))) (\<lambda>_. conn_write_all bytes))"

definition read_frame :: "(string \<Rightarrow> 'm result) \<Rightarrow> conn \<Rightarrow> 'm option result \<times> conn" where
  "read_frame from_slice c =
     (case read_exact 4 c of
        (Inl UnexpectedEof, c1) \<Rightarrow> (Inr None, c1)
      | (Inl e, c1) \<Rightarrow> (Inl (io_into e), c1)
      | (Inr len_buf, c1) \<Rightarrow>
          let len = from_be_bytes len_buf
          in if MAX_FRAME < len then (Inl (Runtime ''rpc frame exceeds maximum size''), c1)
             else case read_exact len c1 of
                    (Inl e, c2) \<Rightarrow> (Inl (io_into e), c2)
                  | (Inr buf, c2) \<Rightarrow>
                      (case from_slice buf of Inl e \<Rightarrow> (Inl e, c2) | Inr m \<Rightarrow> (Inr (Some m), c2)))"

lemma read_frame_shorter:
  "read_frame from_slice c = (Inr (Some m), c') \<Longrightarrow> length (cn_in c') < length (cn_in c)"
  by (auto simp: read_frame_def read_exact_def Let_def split: if_splits io_error.splits sum.splits)

text \<open>
  The loop of \<open>serve_conn\<close>; \<open>clock k\<close> gives the two clock readings of turn \<open>k\<close>.
\<close>

function serve_conn ::
    "(string \<Rightarrow> request result) \<Rightarrow> (response \<Rightarrow> string result) \<Rightarrow> (nat \<Rightarrow> nat \<times> nat) \<Rightarrow> nat
       \<Rightarrow> conn \<Rightarrow> endpoint \<Rightarrow> conn \<times> endpoint" where
  "serve_conn dec enc clock k c ep =
     (case read_frame dec c of
        (Inr (Some req), c1) \<Rightarrow>
          (case handle (fst (clock k)) (snd (clock k)) req ep of
             (Inl _, ep1) \<Rightarrow> (c1, ep1)
           | (Inr resp, ep1) \<Rightarrow>
               (case write_frame enc resp c1 of
                  (Inl _, c2) \<Rightarrow> (c2, ep1)
                | (Inr _, c2) \<Rightarrow> serve_conn dec enc clock (Suc k) c2 ep1))
      | (_, c1) \<Rightarrow> (c1, ep))"
  by pat_completeness auto
termination
proof (relation "measure (\<lambda>(dec, enc, clock, k, c, ep). length (cn_in c))", goal_cases)
  case 1
  show ?case by simp
next
  case (2 dec enc clock k c ep r c1 ro req h ep1 resp w c2 u)
  have out: "cn_in c'' = cn_in c'" if "write_frame enc m c' = (q, c'')" for m c' c'' q
    using that by (auto simp: write_frame_def sbind_def slift_def conn_write_all_def
        split: sum.splits if_splits option.splits prod.splits)
  show ?case
    using 2 read_frame_shorter [of dec c] out by (auto simp: eq_commute) 
qed

declare serve_conn.simps [simp del]

text \<open>\<open>RpcClient::call\<close>: \<open>peer\<close> is what the server's bytes will be once the request is sent.\<close>

definition client_call ::
    "(request \<Rightarrow> string result) \<Rightarrow> (string \<Rightarrow> response result) \<Rightarrow> request \<Rightarrow> (conn \<Rightarrow> conn) \<Rightarrow> conn
       \<Rightarrow> response result \<times> conn" where
  "client_call enc dec req peer =
     sbind (write_frame enc req) (\<lambda>_ c.
     sbind (read_frame dec) (\<lambda>ro.
       slift (case ro of None \<Rightarrow> Inl (Runtime ''rpc connection closed by server'') | Some r \<Rightarrow> Inr r))
     (peer c))"

section \<open>Frames read back\<close>

lemma be_bytes_roundtrip: "n < 2 ^ 32 \<Longrightarrow> from_be_bytes (to_be_bytes n) = n"
proof -
  assume n: "n < 2 ^ 32"
  define a b c where "a = n div 256" and "b = a div 256" and "c = b div 256"
  have "c < 256" using n by (simp add: a_def b_def c_def div_mult2_eq [symmetric] less_mult_imp_div_less)
  moreover have "n div 65536 = b" "n div 16777216 = c"
    by (simp_all add: a_def b_def c_def div_mult2_eq [symmetric])
  moreover have "n = 256 * a + n mod 256" "a = 256 * b + a mod 256" "b = 256 * c + b mod 256"
    by (simp_all add: a_def b_def c_def)
  ultimately show ?thesis
    by (simp add: from_be_bytes_def to_be_bytes_def flip: a_def) 
qed

lemma length_to_be_bytes [simp]: "length (to_be_bytes n) = 4"
  by (simp add: to_be_bytes_def)

definition frame :: "string \<Rightarrow> string" where
  "frame bytes = to_be_bytes (length bytes) @ bytes"

lemma write_frame_ok:
  assumes "to_vec m = Inr bytes" and "length bytes \<le> MAX_FRAME" and "cn_room c = None"
  shows "write_frame to_vec m c = (Inr (), c\<lparr>cn_out := cn_out c @ frame bytes\<rparr>)"
  using assms by (simp add: write_frame_def sbind_def slift_def conn_write_all_def frame_def MAX_FRAME_def)

lemma read_frame_ok:
  assumes "cn_in c = frame bytes @ rest" and "length bytes \<le> MAX_FRAME"
  shows "read_frame from_slice c =
    (case from_slice bytes of Inl e \<Rightarrow> (Inl e, c\<lparr>cn_in := rest\<rparr>) | Inr m \<Rightarrow> (Inr (Some m), c\<lparr>cn_in := rest\<rparr>))"
proof -
  have "length bytes < 2 ^ 32" using assms(2) by (simp add: MAX_FRAME_def)
  then have "from_be_bytes (to_be_bytes (length bytes)) = length bytes" by (rule be_bytes_roundtrip)
  with assms show ?thesis by (simp add: read_frame_def read_exact_def frame_def Let_def not_less)
qed

lemma read_frame_eof: "\<lbrakk>cn_in c = []; cn_end c = UnexpectedEof\<rbrakk> \<Longrightarrow> read_frame dec c = (Inr None, c\<lparr>cn_in := []\<rparr>)"
  by (simp add: read_frame_def read_exact_def)

text \<open>Handling a list of requests one after the other, as long as none fails.\<close>

fun handle_all :: "(nat \<Rightarrow> nat \<times> nat) \<Rightarrow> nat \<Rightarrow> request list \<Rightarrow> endpoint \<Rightarrow> (response list \<times> endpoint) option" where
  "handle_all clock k [] ep = Some ([], ep)"
| "handle_all clock k (r # rs) ep =
     (case handle (fst (clock k)) (snd (clock k)) r ep of
        (Inl _, _) \<Rightarrow> None
      | (Inr resp, ep1) \<Rightarrow>
          map_option (\<lambda>(resps, ep'). (resp # resps, ep')) (handle_all clock (Suc k) rs ep1))"

lemma handle_all_length: "handle_all clock k reqs ep = Some (resps, ep') \<Longrightarrow> length resps = length reqs"
  by (induction reqs arbitrary: k ep resps) (auto split: sum.splits prod.splits)

definition frames :: "('m \<Rightarrow> string result) \<Rightarrow> 'm list \<Rightarrow> string" where
  "frames to_vec ms = concat (map (\<lambda>m. case to_vec m of Inl _ \<Rightarrow> [] | Inr bytes \<Rightarrow> frame bytes) ms)"

text \<open>What is relied on of a codec for the messages that are sent.\<close>

definition codec_for :: "('m \<Rightarrow> string result) \<Rightarrow> (string \<Rightarrow> 'm result) \<Rightarrow> 'm \<Rightarrow> bool" where
  "codec_for enc dec m \<longleftrightarrow>
     (\<exists>bytes. enc m = Inr bytes \<and> dec bytes = Inr m \<and> length bytes \<le> MAX_FRAME)"

lemma serve_conn_all:
  assumes "\<forall>r\<in>set reqs. codec_for enc_req dec_req r" and "handle_all clock k reqs ep = Some (resps, ep')"
    and "\<forall>r\<in>set resps. \<exists>bytes. enc_resp r = Inr bytes \<and> length bytes \<le> MAX_FRAME"
    and "cn_in c = frames enc_req reqs" and "cn_end c = UnexpectedEof" and "cn_room c = None"
  shows "serve_conn dec_req enc_resp clock k c ep =
    (c\<lparr>cn_in := [], cn_out := cn_out c @ frames enc_resp resps\<rparr>, ep')"
  using assms
proof (induction reqs arbitrary: k c ep resps)
  case Nil
  then show ?case by (subst serve_conn.simps) (simp add: read_frame_eof frames_def)
next
  case (Cons r rs)
  from Cons.prems(1) obtain bytes where b: "enc_req r = Inr bytes" "dec_req bytes = Inr r" "length bytes \<le> MAX_FRAME"
    by (auto simp: codec_for_def)
  then have inp: "cn_in c = frame bytes @ frames enc_req rs" using Cons.prems(4) by (simp add: frames_def)
  from Cons.prems(2) obtain resp ep1 resps' where h: "handle (fst (clock k)) (snd (clock k)) r ep = (Inr resp, ep1)"
    and rest: "handle_all clock (Suc k) rs ep1 = Some (resps', ep')" and resps: "resps = resp # resps'"
    by (auto split: prod.splits sum.splits)
  from Cons.prems(3) resps obtain out where o: "enc_resp resp = Inr out" "length out \<le> MAX_FRAME" by auto
  let ?c1 = "c\<lparr>cn_in := frames enc_req rs\<rparr>"
  let ?c2 = "?c1\<lparr>cn_out := cn_out c @ frame out\<rparr>"
  have rd: "read_frame dec_req c = (Inr (Some r), ?c1)" by (simp add: read_frame_ok [OF inp b(3)] b(2))
  have wr: "write_frame enc_resp resp ?c1 = (Inr (), ?c2)" using write_frame_ok [of enc_resp resp out ?c1] o Cons.prems(6) by simp
  have "serve_conn dec_req enc_resp clock k c ep = serve_conn dec_req enc_resp clock (Suc k) ?c2 ep1"
    by (subst serve_conn.simps) (simp add: rd h wr)
  also have "\<dots> = (?c2\<lparr>cn_in := [], cn_out := cn_out ?c2 @ frames enc_resp resps'\<rparr>, ep')"
    using Cons.prems resps by (intro Cons.IH rest) simp_all
  finally show ?case by (simp add: resps frames_def o)
qed

section \<open>The handlers\<close>

lemma commit_leader:
  assumes "is_leader (ep_raft ep)"
  shows "commit c ep =
    (case state_apply c (raft_state (ep_raft ep)) of
       (Inl e, _) \<Rightarrow> (Inl e, ep)
     | (Inr _, s) \<Rightarrow> (Inr None, ep\<lparr>ep_raft := snd (propose c (ep_raft ep))\<rparr>))"
  using assms by (auto simp: commit_def propose_leader split: prod.splits sum.splits)

lemma commit_follower:
  "\<not> is_leader (ep_raft ep) \<Longrightarrow> commit c ep = (Inr (Some (NotLeader None)), ep)"
  by (simp add: commit_def leader_addr_def)

text \<open>The evaluation that registering a job enqueues.\<close>

definition register_eval :: "nat \<Rightarrow> job \<Rightarrow> evaluation" where
  "register_eval nanos j = \<lparr>ev_id = eval_id_for nanos (jb_name j), ev_job_id = jb_name j,
     ev_priority = jb_priority j, ev_trigger = JobRegister, ev_status = EPending\<rparr>"

definition deregister_eval :: "nat \<Rightarrow> string \<Rightarrow> evaluation" where
  "deregister_eval nanos name = \<lparr>ev_id = eval_id_for nanos name, ev_job_id = name,
     ev_priority = 50, ev_trigger = JobDeregister, ev_status = EPending\<rparr>"

lemma register_eval_ok: "job_ok j \<Longrightarrow> eval_ok (register_eval nanos j)"
  by (simp add: job_ok_def eval_ok_def register_eval_def eval_id_for_def)

lemma commit_leader_ok:
  assumes "is_leader (ep_raft ep)" and "command_ok c (raft_state (ep_raft ep))"
  shows "commit c ep = (Inr None, ep\<lparr>ep_raft := snd (propose c (ep_raft ep))\<rparr>)"
    and "raft_state (snd (propose c (ep_raft ep))) = snd (state_apply c (raft_state (ep_raft ep)))"
    and "rn_log (snd (propose c (ep_raft ep))) = rn_log (ep_raft ep) @ [c]"
proof -
  have "fst (propose c (ep_raft ep)) = Inr ()" using assms by (simp add: propose_ok_iff)
  then obtain r where run: "propose c (ep_raft ep) = (Inr (), r)" by (metis prod.collapse)
  with assms(1) show "commit c ep = (Inr None, ep\<lparr>ep_raft := snd (propose c (ep_raft ep))\<rparr>)"
    by (simp add: commit_def)
  from run obtain s where "state_apply c (raft_state (ep_raft ep)) = (Inr (), s)"
    "raft_state r = s" "rn_log r = rn_log (ep_raft ep) @ [c]"
    by (rule propose_ok_cases)
  with run show "raft_state (snd (propose c (ep_raft ep))) = snd (state_apply c (raft_state (ep_raft ep)))"
    "rn_log (snd (propose c (ep_raft ep))) = rn_log (ep_raft ep) @ [c]" by simp_all
qed

lemma commit_leader_err:
  assumes "is_leader (ep_raft ep)" and "\<not> command_ok c (raft_state (ep_raft ep))"
  shows "\<exists>e. fst (state_apply c (raft_state (ep_raft ep))) = Inl e \<and> commit c ep = (Inl e, ep)"
  using assms state_apply_iff [of c "raft_state (ep_raft ep)"]
  by (cases "state_apply c (raft_state (ep_raft ep))"; cases "fst (state_apply c (raft_state (ep_raft ep)))")
    (auto simp: commit_leader)

text \<open>A registration and a deregistration that the leader accepts.\<close>

lemma register_on_leader:
  assumes "job_ok j" and "is_leader (ep_raft ep)" and "\<not> q_poisoned (ep_queue ep)"
  obtains ep' where
    "handle inst nanos (Req_JobRegister j) ep = (Inr (JobRegistered (eval_id_for nanos (jb_name j))), ep')"
    "get_job (raft_state (ep_raft ep')) (jb_name j) = Some j"
    "is_leader (ep_raft ep')" "\<not> q_poisoned (ep_queue ep')"
    "ep_queue ep' = push_seq (register_eval nanos j) 0 (ep_queue ep)"
proof -
  have c: "command_ok (UpsertJob j) (raft_state (ep_raft ep))" using assms(1) by (simp add: command_ok_def)
  have val: "job_validate j = Inr ()" using assms(1) by (simp add: jv.validate_iff)
  have leader: "is_leader (snd (propose c (ep_raft ep)))" for c
    using assms(2) by (auto simp: propose_leader is_leader_def split: prod.splits sum.splits)
  have stored: "get_job (snd (upsert_job j s)) (jb_name j) = Some j" for s
    using jobs.get_after_upsert [of j s] assms(1) by simp
  show thesis
    by (rule that [of "snd (handle inst nanos (Req_JobRegister j) ep)"])
      (use commit_leader_ok [OF assms(2) c] leader stored val assms(3) in
        \<open>simp_all add: sbind_def slift_def committing_def on_queue_def enqueue_def push_seq_def
          register_eval_def Let_def\<close>)
qed

lemma deregister_on_leader:
  assumes "get_job (raft_state (ep_raft ep)) name = Some j" and "is_leader (ep_raft ep)"
    and "\<not> q_poisoned (ep_queue ep)"
  obtains ep' where "handle inst nanos (Req_JobDeregister name) ep = (Inr Resp_Ack, ep')"
    "get_job (raft_state (ep_raft ep')) name = None"
proof -
  have c: "command_ok (DeregisterJob name) (raft_state (ep_raft ep))"
    using assms(1) by (simp add: command_ok_def)
  have gone: "get_job (snd (delete_job name (raft_state (ep_raft ep)))) name = None"
    using assms(1) by (simp add: delete_job_def get_job_def)
  show thesis
    by (rule that [of "snd (handle inst nanos (Req_JobDeregister name) ep)"])
      (use commit_leader_ok [OF assms(2) c] gone assms(3) in
        \<open>simp_all add: sbind_def slift_def committing_def on_queue_def enqueue_def Let_def\<close>)
qed

section \<open>Properties\<close>

text \<open>C36. Registering a job. An invalid job is refused with its validation error and nothing changes;
  a follower answers a valid one with \<open>NotLeader\<close> and changes nothing; the leader stores the
  job under its name, appends exactly one entry to the log and, unless the queue is poisoned,
  enqueues one valid pending evaluation of the job at the job's priority and answers with that
  evaluation's identifier.\<close>

theorem job_register_behaviour:
  "(case handle inst nanos (Req_JobRegister j) ep of (r, ep') \<Rightarrow>
     if \<not> job_ok j then job_validate j = (case r of Inl e \<Rightarrow> Inl e | Inr _ \<Rightarrow> Inr ()) \<and> \<not> is_ok r \<and> ep' = ep
     else if \<not> is_leader (ep_raft ep) then r = Inr (NotLeader None) \<and> ep' = ep
     else get_job (raft_state (ep_raft ep')) = (get_job (raft_state (ep_raft ep)))(jb_name j \<mapsto> j) \<and>
          rn_log (ep_raft ep') = rn_log (ep_raft ep) @ [UpsertJob j] \<and>
          eval_ok (register_eval nanos j) \<and>
          (if q_poisoned (ep_queue ep) then r = Inl poison_err \<and> ep_queue ep' = ep_queue ep
           else r = Inr (JobRegistered (ev_id (register_eval nanos j))) \<and>
                ep_queue ep' = snd (enqueue (register_eval nanos j) (ep_queue ep))))"
proof (cases "job_ok j \<and> is_leader (ep_raft ep)")
  case False
  with jv.validate_cases [of j] show ?thesis
    by (auto simp: sbind_def slift_def committing_def commit_follower split: sum.split)
next
  case True
  then have c: "command_ok (UpsertJob j) (raft_state (ep_raft ep))" by (simp add: command_ok_def)
  note cm = commit_leader_ok [OF _ c]
  have val: "job_validate j = Inr ()" using True by (simp add: jv.validate_iff)
  have "get_job (snd (upsert_job j s)) = (get_job s)(jb_name j \<mapsto> j)" for s
    using jobs.get_after_upsert [of j s] True by (auto simp: fun_eq_iff)
  with True val cm show ?thesis
    by (simp add: sbind_def slift_def committing_def on_queue_def enqueue_def Let_def register_eval_ok)
      (simp add: register_eval_def)
qed

text \<open>Deregistering a job. A follower answers \<open>NotLeader\<close>; on the leader an unknown name is an
  error that changes nothing, a known one is removed from the store and a pending cleanup
  evaluation at priority 50 is enqueued.\<close>

theorem job_deregister_behaviour:
  "(case handle inst nanos (Req_JobDeregister name) ep of (r, ep') \<Rightarrow>
     if \<not> is_leader (ep_raft ep) then r = Inr (NotLeader None) \<and> ep' = ep
     else if get_job (raft_state (ep_raft ep)) name = None
     then r = Inl (Validation (''job '' @ quoted name @ '' not found'')) \<and> ep' = ep
     else get_job (raft_state (ep_raft ep')) = (get_job (raft_state (ep_raft ep)))(name := None) \<and>
          rn_log (ep_raft ep') = rn_log (ep_raft ep) @ [DeregisterJob name] \<and>
          (if q_poisoned (ep_queue ep) then r = Inl poison_err \<and> ep_queue ep' = ep_queue ep
           else r = Inr Resp_Ack \<and> ep_queue ep' = snd (enqueue (deregister_eval nanos name) (ep_queue ep))))"
proof (cases "is_leader (ep_raft ep)")
  case False
  then show ?thesis by (simp add: committing_def commit_follower sbind_def slift_def)
next
  case True
  note lead = True
  show ?thesis
  proof (cases "get_job (raft_state (ep_raft ep)) name")
    case None
    with lead show ?thesis
      by (simp add: committing_def commit_leader sbind_def delete_job_def get_job_def)
  next
    case (Some j)
    then have c: "command_ok (DeregisterJob name) (raft_state (ep_raft ep))" by (simp add: command_ok_def)
    have "get_job (snd (delete_job name s)) = (get_job s)(name := None)" if "get_job s name = Some j" for s
      using that by (simp add: delete_job_def get_job_def)
    with Some lead commit_leader_ok [OF lead c] show ?thesis
      by (simp add: committing_def sbind_def slift_def on_queue_def enqueue_def deregister_eval_def)
  qed
qed

text \<open>Registering a node. An invalid node is refused and nothing changes, a follower answers
  \<open>NotLeader\<close>; on the leader the node is stored and every blocked evaluation goes back to the
  pending ones.\<close>

theorem node_register_behaviour:
  "(case handle inst nanos (Req_NodeRegister n) ep of (r, ep') \<Rightarrow>
     if \<not> is_leader (ep_raft ep) then r = Inr (NotLeader None) \<and> ep' = ep
     else if \<not> node_ok n then \<not> is_ok r \<and> ep' = ep
     else get_node (raft_state (ep_raft ep')) = (get_node (raft_state (ep_raft ep)))(nd_id n \<mapsto> n) \<and>
          ep_queue ep' = snd (unblock_all (ep_queue ep)) \<and>
          r = (if q_poisoned (ep_queue ep) then Inl poison_err else Inr Resp_Ack))"
proof (cases "is_leader (ep_raft ep)")
  case False
  then show ?thesis by (simp add: committing_def commit_follower sbind_def slift_def)
next
  case True
  show ?thesis
  proof (cases "node_ok n")
    case False
    then have "\<not> command_ok (UpsertNode n) (raft_state (ep_raft ep))" by (simp add: command_ok_def)
    from commit_leader_err [OF True this] True False show ?thesis
      by (auto simp: committing_def sbind_def)
  next
    case ok: True
    then have c: "command_ok (UpsertNode n) (raft_state (ep_raft ep))" by (simp add: command_ok_def)
    have "get_node (snd (upsert_node n s)) = (get_node s)(nd_id n \<mapsto> n)" for s
      using nodes.get_after_upsert [of n s] ok by (auto simp: fun_eq_iff)
    with ok True commit_leader_ok [OF True c] show ?thesis
      by (simp add: committing_def sbind_def slift_def on_queue_def unblock_all_def)
  qed
qed

text \<open>A message within the size limit that is written as a frame is read back from the front of
  the stream as the same message, and the bytes behind the frame stay in the stream.\<close>

theorem frame_roundtrip:
  assumes "codec_for enc dec m" and "cn_room c = None"
  shows "\<exists>bytes. write_frame enc m c = (Inr (), c\<lparr>cn_out := cn_out c @ bytes\<rparr>) \<and>
    (\<forall>peer rest. cn_in peer = bytes @ rest \<longrightarrow> read_frame dec peer = (Inr (Some m), peer\<lparr>cn_in := rest\<rparr>))"
proof -
  from assms(1) obtain bytes where b: "enc m = Inr bytes" "dec bytes = Inr m" "length bytes \<le> MAX_FRAME"
    by (auto simp: codec_for_def)
  have "read_frame dec peer = (Inr (Some m), peer\<lparr>cn_in := rest\<rparr>)" if "cn_in peer = frame bytes @ rest"
    for peer rest by (simp add: read_frame_ok [OF that b(3)] b(2))
  with write_frame_ok [of enc m bytes c] b assms(2) show ?thesis
    by (intro exI [of _ "frame bytes"]) simp
qed

definition plain_conn :: "string \<Rightarrow> conn" where
  "plain_conn bytes = \<lparr>cn_in = bytes, cn_end = UnexpectedEof, cn_out = [], cn_room = None\<rparr>"

theorem frame_roundtrip_witness:
  "\<exists>bytes. write_frame Inr ''hello'' (plain_conn []) = (Inr (), (plain_conn [])\<lparr>cn_out := bytes\<rparr>) \<and>
     read_frame Inr (plain_conn (bytes @ ''rest'')) = (Inr (Some ''hello''), plain_conn ''rest'')"
proof -
  have "codec_for Inr Inr ''hello''" "cn_room (plain_conn []) = None"
    by (simp_all add: codec_for_def MAX_FRAME_def plain_conn_def)
  from frame_roundtrip [OF this] obtain bytes where
    "write_frame Inr ''hello'' (plain_conn []) = (Inr (), (plain_conn [])\<lparr>cn_out := cn_out (plain_conn []) @ bytes\<rparr>)"
    "\<forall>peer rest. cn_in peer = bytes @ rest \<longrightarrow> read_frame Inr peer = (Inr (Some ''hello''), peer\<lparr>cn_in := rest\<rparr>)"
    by blast
  then show ?thesis by (intro exI [of _ bytes]) (simp add: plain_conn_def)
qed

text \<open>A frame is bounded on both sides: a message longer than 8 MiB is not written at all, and a
  length prefix above 8 MiB is refused after its four bytes, before anything of the body is
  read, so a peer cannot make the reader take more than 8 MiB.\<close>

theorem frame_size_bounded:
  "(\<forall>bytes. enc m = Inr bytes \<and> MAX_FRAME < length bytes \<longrightarrow>
      write_frame enc m c = (Inl (Runtime ''rpc frame exceeds maximum size''), c)) \<and>
   (4 \<le> length (cn_in c) \<and> MAX_FRAME < from_be_bytes (take 4 (cn_in c)) \<longrightarrow>
      read_frame dec c = (Inl (Runtime ''rpc frame exceeds maximum size''), c\<lparr>cn_in := drop 4 (cn_in c)\<rparr>)) \<and>
   (\<forall>m' c'. read_frame dec c = (Inr (Some m'), c') \<longrightarrow>
      (\<exists>len \<le> MAX_FRAME. cn_in c' = drop (4 + len) (cn_in c) \<and> dec (take len (drop 4 (cn_in c))) = Inr m'))"
  by (auto simp: write_frame_def sbind_def slift_def read_frame_def read_exact_def Let_def not_less
      add.commute split: sum.splits io_error.splits if_splits)

theorem frame_size_bounded_witness:
  "read_frame Inr (plain_conn [CHR 0xFF, CHR 0xFF, CHR 0xFF, CHR 0xFF]) =
     (Inl (Runtime ''rpc frame exceeds maximum size''), plain_conn [])"
proof -
  have "from_be_bytes [CHR 0xFF, CHR 0xFF, CHR 0xFF, CHR 0xFF] = 4294967295"
    by (simp add: from_be_bytes_def)
  then show ?thesis
    using frame_size_bounded [of Inr "[]" "plain_conn [CHR 0xFF, CHR 0xFF, CHR 0xFF, CHR 0xFF]" Inr]
    by (simp add: plain_conn_def MAX_FRAME_def)
qed

text \<open>A connection on which requests arrive back to back is served in order: if every request is
  framed by the client's encoder and handled without an error, the bytes sent are the frames of
  the responses in the order of the requests, the endpoint is the one that handling them one
  after the other gives, and the input is used up.\<close>

theorem serve_conn_pipeline:
  assumes "\<forall>r\<in>set reqs. codec_for enc_req dec_req r" and "handle_all clock 0 reqs ep = Some (resps, ep')"
    and "\<forall>r\<in>set resps. codec_for enc_resp dec_resp r"
    and "cn_in c = frames enc_req reqs" and "cn_end c = UnexpectedEof" and "cn_room c = None"
  shows "serve_conn dec_req enc_resp clock 0 c ep =
    (c\<lparr>cn_in := [], cn_out := cn_out c @ frames enc_resp resps\<rparr>, ep')"
proof (rule serve_conn_all [OF assms(1,2) _ assms(4-6)])
  show "\<forall>r\<in>set resps. \<exists>bytes. enc_resp r = Inr bytes \<and> length bytes \<le> MAX_FRAME"
    using assms(3) by (auto simp: codec_for_def)
qed

theorem serve_conn_pipeline_witness:
  "\<exists>c'. serve_conn (\<lambda>b. Inr (Req_EvalDequeue [])) (\<lambda>r. Inr ''none'') (\<lambda>_. (0, 0)) 0
      (plain_conn (frames (\<lambda>r. Inr ''dequeue'') [Req_EvalDequeue []])) (endpoint_new queue_new) =
      (c', endpoint_new queue_new) \<and> cn_out c' = frame ''none''"
proof -
  have 1: "\<forall>r\<in>set [Req_EvalDequeue []]. codec_for (\<lambda>r. Inr ''dequeue'') (\<lambda>b. Inr (Req_EvalDequeue [])) r"
    by (simp add: codec_for_def MAX_FRAME_def)
  have 2: "handle_all (\<lambda>_. (0, 0)) 0 [Req_EvalDequeue []] (endpoint_new queue_new) =
      Some ([Resp_Eval None], endpoint_new queue_new)"
    by (simp add: sbind_def slift_def on_queue_def dequeue_def endpoint_new_def queue_new_def)
  have 3: "\<forall>r\<in>set [Resp_Eval None]. codec_for (\<lambda>r. Inr ''none'') (\<lambda>b. Inr (Resp_Eval None)) r"
    by (simp add: codec_for_def MAX_FRAME_def)
  show ?thesis
    by (subst serve_conn_pipeline [OF 1 2 3]) (simp_all add: plain_conn_def frames_def)
qed

text \<open>A stream that ends inside the four bytes of a length prefix is taken for a clean end: one
  to three bytes followed by the end of the stream are dropped and reported as no frame, not as
  an error.\<close>

theorem partial_prefix_is_clean_end:
  assumes "0 < length (cn_in c)" and "length (cn_in c) < 4" and "cn_end c = UnexpectedEof"
  shows "read_frame dec c = (Inr None, c\<lparr>cn_in := []\<rparr>)"
  using assms by (simp add: read_frame_def read_exact_def)

theorem partial_prefix_is_clean_end_witness:
  "read_frame Inr (plain_conn ''ab'') = (Inr None, plain_conn [])"
  using partial_prefix_is_clean_end [of "plain_conn ''ab''" Inr] by (simp add: plain_conn_def)

end
