(* ===== verification/Scheduler.thy ===== *)
theory Scheduler
  imports State Eval_Queue F64
begin

text \<open>
  \<open>src/src/scheduler.rs\<close>: from an evaluation and the cluster state to a plan, and the
  application of the plan. The free capacities that a plan reserves from are the list of pairs
  the code keeps; resources are subtracted in 32 bits.
\<close>

section \<open>Capacity\<close>

definition res_add :: "resources \<Rightarrow> resources \<Rightarrow> resources" where
  "res_add a b = \<lparr>cpu_mhz = cpu_mhz a + cpu_mhz b, memory_mb = memory_mb a + memory_mb b,
                  network_mbps = network_mbps a + network_mbps b\<rparr>"

definition res_sub :: "resources \<Rightarrow> resources \<Rightarrow> resources" where
  "res_sub a b = \<lparr>cpu_mhz = cpu_mhz a - cpu_mhz b, memory_mb = memory_mb a - memory_mb b,
                  network_mbps = network_mbps a - network_mbps b\<rparr>"

definition group_demand :: "task_group \<Rightarrow> resources" where
  "group_demand g =
     fold (\<lambda>t acc. res_add acc (tk_resources t)) (tg_tasks g)
       \<lparr>cpu_mhz = 0, memory_mb = 0, network_mbps = 0\<rparr>"

definition is_live :: "client_status \<Rightarrow> bool" where
  "is_live s \<longleftrightarrow> s = CPending \<or> s = CRunning"

definition free_capacity :: "node \<Rightarrow> state_store \<Rightarrow> resources" where
  "free_capacity n s =
     fold (\<lambda>a free. res_sub free (al_resources a))
       (filter (\<lambda>a. is_live (al_client_status a)) (allocs_by_node s (nd_id n))) (nd_resources n)"

definition node_eligible :: "node \<Rightarrow> bool" where
  "node_eligible n \<longleftrightarrow> nd_status n = NReady \<and> nd_eligibility n = Eligible \<and> \<not> nd_draining n"

definition fits :: "resources \<Rightarrow> resources \<Rightarrow> bool" where
  "fits avail need \<longleftrightarrow>
     sint (cpu_mhz need) \<le> sint (cpu_mhz avail) \<and> sint (memory_mb need) \<le> sint (memory_mb avail) \<and>
     sint (network_mbps need) \<le> sint (network_mbps avail)"

definition meets_constraints :: "'v crates \<Rightarrow> node \<Rightarrow> task_group \<Rightarrow> bool" where
  "meets_constraints X n g = list_all (\<lambda>c. constraint_satisfied_by X c (nd_attributes n)) (tg_constraints g)"

definition desired_count :: "evaluation \<Rightarrow> state_store \<Rightarrow> i32" where
  "desired_count e s =
     (case get_job s (ev_job_id e) of
        None \<Rightarrow> 0
      | Some j \<Rightarrow> fold (\<lambda>g acc. acc + i32_max0 (tg_count g)) (jb_task_groups j) 0)"

section \<open>Scores\<close>

record candidate =
  cd_node :: node
  cd_free :: resources
  cd_score :: rat
  cd_order :: nat

definition i32_f64 :: "i32 \<Rightarrow> rat" where
  "i32_f64 x = of_int (sint x)"

definition utilization :: "i32 \<Rightarrow> i32 \<Rightarrow> rat" where
  "utilization tot after =
     (if 0 < sint tot then f64_div (i32_f64 (tot - after)) (i32_f64 tot) else 0)"

definition score_node ::
    "'v crates \<Rightarrow> node \<Rightarrow> resources \<Rightarrow> resources \<Rightarrow> task_group \<Rightarrow> rat \<Rightarrow> rat" where
  "score_node X n free need g spread_bonus =
     (let aff = fold (\<lambda>a acc. if affinity_satisfied_by X a (nd_attributes n)
                             then f64_add acc (of_int (sint (a_weight a))) else acc)
                  (tg_affinities g) 0;
          after = res_sub free need;
          packed =
            (if 0 < sint (cpu_mhz after) \<or> 0 < sint (memory_mb after) \<or> 0 < sint (network_mbps after)
             then let util_cpu = utilization (cpu_mhz (nd_resources n)) (cpu_mhz after);
                      util_mem = utilization (memory_mb (nd_resources n)) (memory_mb after);
                      util_net = utilization (network_mbps (nd_resources n)) (network_mbps after);
                      avg_util = f64_div (f64_add (f64_add util_cpu util_mem) util_net) 3
                  in f64_add aff (f64_mul avg_util 50)
             else aff)
      in f64_add packed spread_bonus)"

text \<open>One turn of the loop of \<open>bonus_for\<close>.\<close>

definition spread_term :: "state_store \<Rightarrow> node \<Rightarrow> spread \<Rightarrow> rat \<Rightarrow> rat" where
  "spread_term s n sp bonus =
     (case hm_get (nd_attributes n) (sp_attribute sp) of
        None \<Rightarrow> bonus
      | Some attr_val \<Rightarrow>
          let live = filter (\<lambda>a. is_live (al_client_status a)) (list_allocs s);
              total_live = length live
          in if total_live = 0 then bonus
             else
               let same_val = length (filter (\<lambda>a. case get_node s (al_node_id a) of
                                None \<Rightarrow> False
                              | Some m \<Rightarrow> hm_get (nd_attributes m) (sp_attribute sp) = Some attr_val) live);
                   current_pct = f64_mul (f64_div (rnd (of_nat same_val)) (rnd (of_nat total_live))) 100;
                   explicit = fold (\<lambda>t acc. f64_add acc (of_nat (unat (st_percent t))))
                                (filter (\<lambda>t. st_value t = attr_val) (sp_targets sp)) 0;
                   target_pct =
                     (if 0 < explicit then explicit
                      else let unique_vals =
                             max 1 (length (remdups (List.map_filter
                               (\<lambda>m. hm_get (nd_attributes m) (sp_attribute sp)) (list_nodes s))))
                           in f64_div 100 (rnd (of_nat unique_vals)));
                   deviation = f64_sub current_pct target_pct
               in f64_sub bonus (f64_mul deviation 1))"

definition bonus_for :: "task_group \<Rightarrow> node \<Rightarrow> state_store \<Rightarrow> rat" where
  "bonus_for g n s = fold (spread_term s n) (tg_spreads g) 0"

section \<open>Placement\<close>

type_synonym free_list = "(node \<times> resources) list"

record plan =
  pl_allocs :: "allocation list"

definition make_alloc ::
    "evaluation \<Rightarrow> plan \<Rightarrow> job \<Rightarrow> task_group \<Rightarrow> resources \<Rightarrow> string \<Rightarrow> allocation" where
  "make_alloc e p j g need node_id =
     \<lparr>al_id = ev_id e @ CHR ''-'' # show_nat (length (pl_allocs p)), al_eval_id = ev_id e,
      al_node_id = node_id, al_job_id = jb_name j, al_task_group = tg_name g,
      al_desired_status = DRun, al_client_status = CPending, al_resources = need\<rparr>"

text \<open>\<open>iter_mut().find\<close> with an update of what it finds.\<close>

fun find_update :: "('a \<Rightarrow> bool) \<Rightarrow> ('a \<Rightarrow> 'a) \<Rightarrow> 'a list \<Rightarrow> ('a \<times> 'a list) option" where
  "find_update P f [] = None"
| "find_update P f (x # xs) =
     (if P x then Some (x, f x # xs)
      else map_option (\<lambda>(y, ys). (y, x # ys)) (find_update P f xs))"

definition feasible :: "'v crates \<Rightarrow> task_group \<Rightarrow> resources \<Rightarrow> node \<times> resources \<Rightarrow> bool" where
  "feasible X g need e \<longleftrightarrow> fits (snd e) need \<and> meets_constraints X (fst e) g"

definition reserve :: "resources \<Rightarrow> node \<times> resources \<Rightarrow> node \<times> resources" where
  "reserve need e = (fst e, res_sub (snd e) need)"

text \<open>
  The two loop bodies: \<open>None\<close> is \<open>break\<close>, a \<open>continue\<close> without a placement returns the
  state as it was.
\<close>

definition fast_body ::
    "'v crates \<Rightarrow> evaluation \<Rightarrow> job \<Rightarrow> task_group \<Rightarrow> resources \<Rightarrow> free_list \<times> plan
       \<Rightarrow> (free_list \<times> plan) option" where
  "fast_body X e j g need st =
     (case st of (free, p) \<Rightarrow>
        (case find_update (feasible X g need) (reserve need) free of
           None \<Rightarrow> None
         | Some (found, free') \<Rightarrow>
             Some (free', p\<lparr>pl_allocs := pl_allocs p @ [make_alloc e p j g need (nd_id (fst found))]\<rparr>)))"

definition candidates ::
    "'v crates \<Rightarrow> task_group \<Rightarrow> resources \<Rightarrow> state_store \<Rightarrow> free_list \<Rightarrow> candidate list" where
  "candidates X g need s free =
     map (\<lambda>(idx, n, avail).
            \<lparr>cd_node = n, cd_free = avail, cd_score = score_node X n avail need g (bonus_for g n s),
             cd_order = idx\<rparr>)
       (filter (\<lambda>(idx, entry). feasible X g need entry) (enumerate 0 free))"

definition scored_body ::
    "'v crates \<Rightarrow> evaluation \<Rightarrow> job \<Rightarrow> task_group \<Rightarrow> resources \<Rightarrow> state_store \<Rightarrow> free_list \<times> plan
       \<Rightarrow> (free_list \<times> plan) option" where
  "scored_body X e j g need s st =
     (case st of (free, p) \<Rightarrow>
        (case sort_key (\<lambda>c. (- cd_score c, cd_order c)) (candidates X g need s free) of
           [] \<Rightarrow> None
         | best # _ \<Rightarrow>
             (case find_update (\<lambda>entry. nd_id (fst entry) = nd_id (cd_node best)) (reserve need) free of
                None \<Rightarrow> Some (free, p)
              | Some (_, free') \<Rightarrow>
                  Some (free', p\<lparr>pl_allocs := pl_allocs p @ [make_alloc e p j g need (nd_id (cd_node best))]\<rparr>))))"

text \<open>A \<open>for\<close> loop of \<open>k\<close> turns whose body may break.\<close>

fun for_loop :: "('s \<Rightarrow> 's option) \<Rightarrow> nat \<Rightarrow> 's \<Rightarrow> 's" where
  "for_loop body 0 st = st"
| "for_loop body (Suc k) st = (case body st of None \<Rightarrow> st | Some st' \<Rightarrow> for_loop body k st')"

definition group_body ::
    "'v crates \<Rightarrow> evaluation \<Rightarrow> job \<Rightarrow> state_store \<Rightarrow> task_group \<Rightarrow> free_list \<times> plan
       \<Rightarrow> (free_list \<times> plan) option" where
  "group_body X e j s g =
     (if tg_affinities g = [] \<and> tg_spreads g = []
      then fast_body X e j g (group_demand g)
      else scored_body X e j g (group_demand g) s)"

definition place_group ::
    "'v crates \<Rightarrow> evaluation \<Rightarrow> job \<Rightarrow> state_store \<Rightarrow> task_group \<Rightarrow> free_list \<times> plan \<Rightarrow> free_list \<times> plan" where
  "place_group X e j s g = for_loop (group_body X e j s g) (nat (sint (i32_max0 (tg_count g))))"

definition eligible_free :: "state_store \<Rightarrow> free_list" where
  "eligible_free s = map (\<lambda>n. (n, free_capacity n s)) (filter node_eligible (list_nodes s))"

definition process_eval :: "'v crates \<Rightarrow> evaluation \<Rightarrow> state_store \<Rightarrow> plan" where
  "process_eval X e s =
     (case get_job s (ev_job_id e) of
        None \<Rightarrow> \<lparr>pl_allocs = []\<rparr>
      | Some j \<Rightarrow> snd (fold (place_group X e j s) (jb_task_groups j) (eligible_free s, \<lparr>pl_allocs = []\<rparr>)))"

section \<open>Applying a plan\<close>

fun apply_allocs :: "allocation list \<Rightarrow> fsm \<Rightarrow> unit result \<times> fsm" where
  "apply_allocs [] f = (Inr (), f)"
| "apply_allocs (a # as) f =
     (case fsm_apply (UpsertAlloc a) f of
        (Inl err, f') \<Rightarrow> (Inl err, f')
      | (Inr _, f') \<Rightarrow> apply_allocs as f')"

definition apply_plan :: "plan \<Rightarrow> fsm \<Rightarrow> unit result \<times> fsm" where
  "apply_plan p f = apply_allocs (pl_allocs p) f"

definition process_and_apply :: "'v crates \<Rightarrow> evaluation \<Rightarrow> fsm \<Rightarrow> plan result \<times> fsm" where
  "process_and_apply X e f =
     (let p = process_eval X e (fsm_state f)
      in case apply_plan p f of (Inl err, f') \<Rightarrow> (Inl err, f') | (Inr _, f') \<Rightarrow> (Inr p, f'))"

text \<open>
  \<open>drain_queue\<close>: \<open>clock k\<close> is the reading of the clock in turn \<open>k\<close>. What a turn does with the
  evaluation it got is \<open>drain_turn\<close>: the outcome and the new states.
\<close>

definition drain_turn ::
    "'v crates \<Rightarrow> evaluation \<Rightarrow> eval_queue \<Rightarrow> fsm \<Rightarrow> nat result \<times> eval_queue \<times> fsm" where
  "drain_turn X e q f =
     (case process_and_apply X e f of
        (Inr p, f') \<Rightarrow>
          let (r1, q1) = (if pl_allocs p = [] \<and> 0 < sint (desired_count e (fsm_state f'))
                          then block e q else (Inr (), q))
          in (case r1 of
                Inl err \<Rightarrow> (Inl err, q1, f')
              | Inr _ \<Rightarrow>
                  (case ack (ev_id e) q1 of
                     (Inl err, q2) \<Rightarrow> (Inl err, q2, f')
                   | (Inr _, q2) \<Rightarrow> (Inr (length (pl_allocs p)), q2, f')))
      | (Inl err, f') \<Rightarrow>
          (case nack (ev_id e) q of
             (Inl err', q1) \<Rightarrow> (Inl err', q1, f')
           | (Inr _, q1) \<Rightarrow> (Inl err, q1, f')))"

lemma heap_pop_length: "heap_pop h = Some (pe, h') \<Longrightarrow> length h = Suc (length h')"
  using pq.pop_Some [of h pe h'] by (metis size_add_mset size_mset)

lemma drain_turn_heap:
  assumes "drain_turn X e q f = (Inr n, q', f')"
  shows "q_heap q' = q_heap q"
  using assms by (auto simp: drain_turn_def block_def ack_def Let_def split: prod.splits sum.splits if_splits)

function drain_loop ::
    "'v crates \<Rightarrow> (nat \<Rightarrow> nat) \<Rightarrow> nat \<Rightarrow> nat \<Rightarrow> eval_queue \<Rightarrow> fsm \<Rightarrow> nat result \<times> eval_queue \<times> fsm" where
  "drain_loop X clock k placed q f =
     (case dequeue (clock k) q of
        (Inl err, q1) \<Rightarrow> (Inl err, q1, f)
      | (Inr None, q1) \<Rightarrow> (Inr placed, q1, f)
      | (Inr (Some e), q1) \<Rightarrow>
          (case drain_turn X e q1 f of
             (Inl err, q2, f') \<Rightarrow> (Inl err, q2, f')
           | (Inr n, q2, f') \<Rightarrow> drain_loop X clock (Suc k) (placed + n) q2 f'))"
  by pat_completeness auto
termination
proof (relation "measure (\<lambda>(X, clock, k, placed, q, f). length (q_heap q))", goal_cases)
  case 1
  show ?case by simp
next
  case (2 X clock k placed q f r q1 eo e dt n qf q2 f')
  then show ?case
    by (auto simp: dequeue_def Let_def dest!: drain_turn_heap [OF sym] heap_pop_length
        split: if_splits option.splits)
qed

declare drain_loop.simps [simp del]

definition drain_queue ::
    "'v crates \<Rightarrow> (nat \<Rightarrow> nat) \<Rightarrow> eval_queue \<Rightarrow> fsm \<Rightarrow> nat result \<times> eval_queue \<times> fsm" where
  "drain_queue X clock q f = drain_loop X clock 0 0 q f"

section \<open>Arithmetic on resource vectors\<close>

lemma dims_res [simp]:
  assumes "d \<in> dims"
  shows "d (res_add a b) = d a + d b" "d (res_sub a b) = d a - d b"
    "d \<lparr>cpu_mhz = 0, memory_mb = 0, network_mbps = 0\<rparr> = 0"
  using assms by (auto simp: dims_def res_add_def res_sub_def)

lemma fits_iff: "fits avail need \<longleftrightarrow> (\<forall>d\<in>dims. sint (d need) \<le> sint (d avail))"
  by (auto simp: fits_def ball_dims)

text \<open>
  The demand of a group is the sum of its tasks' demands as long as that sum fits in 32 bits.
\<close>

definition demand_fits :: "task_group \<Rightarrow> bool" where
  "demand_fits g \<longleftrightarrow>
     (\<forall>d\<in>dims. sum_list (map (\<lambda>t. sint (d (tk_resources t))) (tg_tasks g)) \<le> 2147483647)"

lemma fold_res_add:
  assumes "d \<in> dims" and "\<forall>t\<in>set ts. 0 \<le> sint (d (tk_resources t))" and "0 \<le> sint (d r)"
    and "sint (d r) + sum_list (map (\<lambda>t. sint (d (tk_resources t))) ts) \<le> 2147483647"
  shows "sint (d (fold (\<lambda>t acc. res_add acc (tk_resources t)) ts r)) =
    sint (d r) + sum_list (map (\<lambda>t. sint (d (tk_resources t))) ts)"
  using assms
proof (induction ts arbitrary: r)
  case (Cons t ts)
  have "0 \<le> sum_list (map (\<lambda>t. sint (d (tk_resources t))) ts)"
    using Cons.prems(2) by (intro sum_list_nonneg) auto
  then have "sint (d (res_add r (tk_resources t))) = sint (d r) + sint (d (tk_resources t))"
    using Cons.prems by (simp add: sint_i32_add)
  with Cons.IH [of "res_add r (tk_resources t)"] Cons.prems show ?case by simp
qed simp

lemma group_demand_exact:
  assumes "task_group_ok g" and "demand_fits g" and "d \<in> dims"
  shows "sint (d (group_demand g)) = sum_list (map (\<lambda>t. sint (d (tk_resources t))) (tg_tasks g))"
    and "0 \<le> sint (d (group_demand g))"
proof -
  have nn: "\<forall>t\<in>set (tg_tasks g). 0 \<le> sint (d (tk_resources t))"
    using assms(1,3) by (simp add: task_group_ok_def task_ok_def resources_ok_def)
  show eq: "sint (d (group_demand g)) = sum_list (map (\<lambda>t. sint (d (tk_resources t))) (tg_tasks g))"
    using fold_res_add [OF assms(3) nn, of "\<lparr>cpu_mhz = 0, memory_mb = 0, network_mbps = 0\<rparr>"] assms
    by (simp add: group_demand_def demand_fits_def)
  show "0 \<le> sint (d (group_demand g))"
    unfolding eq using nn by (intro sum_list_nonneg) auto
qed

section \<open>Load of a node\<close>

text \<open>
  What the live allocations of a list take of a node in one dimension, and the invariant that
  no node is oversubscribed.
\<close>

definition load :: "(resources \<Rightarrow> i32) \<Rightarrow> string \<Rightarrow> allocation \<Rightarrow> int" where
  "load d n a = (if al_node_id a = n \<and> is_live (al_client_status a) then sint (d (al_resources a)) else 0)"

definition used :: "(resources \<Rightarrow> i32) \<Rightarrow> string \<Rightarrow> allocation list \<Rightarrow> int" where
  "used d n as = sum_list (map (load d n) as)"

definition nonneg_allocs :: "allocation list \<Rightarrow> bool" where
  "nonneg_allocs as \<longleftrightarrow> (\<forall>a\<in>set as. \<forall>d\<in>dims. 0 \<le> sint (d (al_resources a)))"

definition capacity_ok :: "state_store \<Rightarrow> bool" where
  "capacity_ok s \<longleftrightarrow> nonneg_allocs (list_allocs s) \<and>
     (\<forall>n\<in>set (list_nodes s). \<forall>d\<in>dims. used d (nd_id n) (list_allocs s) \<le> sint (d (nd_resources n)))"

lemma used_simps [simp]:
  "used d n [] = 0" "used d n (a # as) = load d n a + used d n as"
  "used d n (as @ bs) = used d n as + used d n bs"
  by (simp_all add: used_def)

lemma load_nonneg: "\<lbrakk>nonneg_allocs as; a \<in> set as; d \<in> dims\<rbrakk> \<Longrightarrow> 0 \<le> load d n a"
  by (simp add: load_def nonneg_allocs_def)

lemma used_nonneg: "\<lbrakk>nonneg_allocs as; d \<in> dims\<rbrakk> \<Longrightarrow> 0 \<le> used d n as"
  unfolding used_def by (intro sum_list_nonneg) (auto simp: load_nonneg)

lemma fold_res_sub:
  assumes "d \<in> dims" and "nonneg_allocs as" and "used d n as \<le> sint (d r)"
  shows "sint (d (fold (\<lambda>a free. res_sub free (al_resources a))
           (filter (\<lambda>a. is_live (al_client_status a)) (filter (\<lambda>a. al_node_id a = n) as)) r)) =
    sint (d r) - used d n as"
  using assms
proof (induction as arbitrary: r)
  case (Cons a as)
  have nn: "nonneg_allocs as" "0 \<le> sint (d (al_resources a))" "0 \<le> used d n as"
    using Cons.prems used_nonneg [of as d n] by (auto simp: nonneg_allocs_def)
  show ?case
  proof (cases "al_node_id a = n \<and> is_live (al_client_status a)")
    case True
    then have "sint (d (res_sub r (al_resources a))) = sint (d r) - sint (d (al_resources a))"
      using Cons.prems nn by (simp add: load_def sint_i32_sub_le)
    with True Cons.IH [of "res_sub r (al_resources a)"] Cons.prems nn show ?thesis
      by (simp add: load_def)
  next
    case False
    with Cons nn show ?thesis by (auto simp: load_def)
  qed
qed simp

lemma free_capacity_exact:
  assumes "capacity_ok s" and "n \<in> set (list_nodes s)" and "d \<in> dims"
  shows "sint (d (free_capacity n s)) = sint (d (nd_resources n)) - used d (nd_id n) (list_allocs s)"
  using assms fold_res_sub [OF assms(3), of "list_allocs s" "nd_id n" "nd_resources n"]
  by (simp add: free_capacity_def capacity_ok_def allocs_by_node_def list_allocs_def)

section \<open>The contract of a placement body\<close>

lemma find_update_None: "find_update P f xs = None \<longleftrightarrow> (\<forall>x\<in>set xs. \<not> P x)"
  by (induction xs) auto

lemma find_update_Some:
  "find_update P f xs = Some (x, ys) \<Longrightarrow>
     \<exists>i < length xs. x = xs ! i \<and> P x \<and> ys = xs[i := f x] \<and> (\<forall>k < i. \<not> P (xs ! k))"
proof (induction xs arbitrary: ys)
  case (Cons a xs)
  show ?case
  proof (cases "P a")
    case True
    with Cons.prems show ?thesis by (intro exI [of _ 0]) auto
  next
    case False
    with Cons.prems obtain zs where "find_update P f xs = Some (x, zs)" "ys = a # zs" by auto
    from Cons.IH [OF this(1)] this(2) False obtain i where "i < length xs" "x = xs ! i" "P x"
      "ys = (a # xs)[Suc i := f x]" "\<forall>k < i. \<not> P (xs ! k)" by auto
    with False show ?thesis
      by (intro exI [of _ "Suc i"]) (auto simp: nth_Cons split: nat.split)
  qed
qed simp

definition grant :: "plan \<Rightarrow> allocation \<Rightarrow> plan" where
  "grant p a = p\<lparr>pl_allocs := pl_allocs p @ [a]\<rparr>"

definition unique_nodes :: "free_list \<Rightarrow> bool" where
  "unique_nodes free \<longleftrightarrow> distinct (map (nd_id \<circ> fst) free)"

text \<open>
  Both loop bodies promise the same: they stop exactly when no entry is feasible, and otherwise
  reserve the demand on one feasible entry and grant one allocation there. What a loop over such
  a body achieves is proved from that promise alone.
\<close>

locale placer =
  fixes body :: "free_list \<times> plan \<Rightarrow> (free_list \<times> plan) option"
    and ok :: "node \<times> resources \<Rightarrow> bool"
    and need :: resources
    and mk :: "plan \<Rightarrow> string \<Rightarrow> allocation"
  assumes body_None: "body (free, p) = None \<longleftrightarrow> (\<forall>x\<in>set free. \<not> ok x)"
    and body_Some: "\<lbrakk>unique_nodes free; body (free, p) = Some st'\<rbrakk> \<Longrightarrow>
      \<exists>i < length free. ok (free ! i) \<and>
        st' = (free[i := reserve need (free ! i)], grant p (mk p (nd_id (fst (free ! i)))))"
begin

lemma unique_nodes_reserve:
  "i < length free \<Longrightarrow> unique_nodes (free[i := reserve need (free ! i)]) = unique_nodes free"
  by (simp add: unique_nodes_def map_update reserve_def)
    (metis comp_apply length_map list_update_id nth_map)

lemma loop_invariant:
  assumes "I (free, p)" and "unique_nodes free"
    and step: "\<And>free p i. \<lbrakk>I (free, p); i < length free; ok (free ! i)\<rbrakk> \<Longrightarrow>
      I (free[i := reserve need (free ! i)], grant p (mk p (nd_id (fst (free ! i)))))"
  shows "I (for_loop body k (free, p))"
  using assms(1,2)
proof (induction k arbitrary: free p)
  case (Suc k)
  show ?case
  proof (cases "body (free, p)")
    case (Some st')
    then obtain i where "i < length free" "ok (free ! i)"
      "st' = (free[i := reserve need (free ! i)], grant p (mk p (nd_id (fst (free ! i)))))"
      using body_Some [OF Suc.prems(2)] by blast
    with Suc Some step [OF Suc.prems(1)] show ?thesis
      by (simp add: unique_nodes_reserve)
  qed (use Suc.prems in simp)
qed simp

lemma loop_count:
  assumes "unique_nodes free" and "for_loop body k (free, p) = (free', p')"
  shows "length (pl_allocs p) \<le> length (pl_allocs p') \<and> length (pl_allocs p') \<le> length (pl_allocs p) + k \<and>
    (length (pl_allocs p') < length (pl_allocs p) + k \<longrightarrow> (\<forall>x\<in>set free'. \<not> ok x))"
  using assms
proof (induction k arbitrary: free p)
  case (Suc k)
  show ?case
  proof (cases "body (free, p)")
    case None
    with Suc.prems body_None show ?thesis by simp
  next
    case (Some st')
    then obtain i where "i < length free"
      "st' = (free[i := reserve need (free ! i)], grant p (mk p (nd_id (fst (free ! i)))))"
      using body_Some [OF Suc.prems(1)] by blast
    with Suc.IH [of "fst st'" "snd st'"] Suc.prems Some show ?thesis
      by (simp add: unique_nodes_reserve grant_def)
  qed
qed simp

lemma loop_stuck:
  assumes "unique_nodes free" and "for_loop body (Suc k) (free, p) = (free', p')"
    and "length (pl_allocs p') = length (pl_allocs p)"
  shows "(free', p') = (free, p) \<and> (\<forall>x\<in>set free. \<not> ok x)"
proof (cases "body (free, p)")
  case None
  with assms(2) body_None show ?thesis by simp
next
  case (Some st')
  then obtain i where "i < length free"
    "st' = (free[i := reserve need (free ! i)], grant p (mk p (nd_id (fst (free ! i)))))"
    using body_Some [OF assms(1)] by blast
  with loop_count [of "fst st'" k "snd st'" free' p'] assms Some show ?thesis
    by (simp add: unique_nodes_reserve grant_def)
qed

end

interpretation fast: placer "fast_body X e j g need" "feasible X g need" need
    "\<lambda>p. make_alloc e p j g need" for X e j g need
proof (unfold_locales, goal_cases)
  case (1 free p)
  show ?case by (simp add: fast_body_def find_update_None split: option.split prod.split) (metis find_update_None not_None_eq surj_pair)
next
  case (2 free p st')
  then show ?case
    by (auto simp: fast_body_def grant_def split: option.splits prod.splits dest!: find_update_Some)
qed

section \<open>The scored path\<close>

lemma candidates_iff:
  "c \<in> set (candidates X g need s free) \<longleftrightarrow>
     (\<exists>i < length free. feasible X g need (free ! i) \<and>
        c = \<lparr>cd_node = fst (free ! i), cd_free = snd (free ! i),
             cd_score = score_node X (fst (free ! i)) (snd (free ! i)) need g (bonus_for g (fst (free ! i)) s),
             cd_order = i\<rparr>)"
  by (force simp: candidates_def in_set_enumerate_eq image_iff split_beta)

lemma candidates_Nil: "candidates X g need s free = [] \<longleftrightarrow> (\<forall>x\<in>set free. \<not> feasible X g need x)"
  by (metis candidates_iff in_set_conv_nth length_pos_if_in_set list.size(3) neq_Nil_conv
      list.set_intros(1) less_numeral_extra(3))

lemma sort_key_hd:
  assumes "sort_key f xs = y # ys"
  shows "y \<in> set xs" and "z \<in> set xs \<Longrightarrow> f y \<le> f z"
proof -
  have set: "set xs = insert y (set ys)" using assms by (metis set_sort list.set(2))
  then show "y \<in> set xs" by simp
  have "sorted (map f (y # ys))" using assms by (metis sorted_sort_key)
  then show "f y \<le> f z" if "z \<in> set xs" using that set by auto
qed

lemma find_update_unique:
  assumes "unique_nodes free" and "i < length free"
  shows "find_update (\<lambda>entry. nd_id (fst entry) = nd_id (fst (free ! i))) f free =
    Some (free ! i, free[i := f (free ! i)])"
proof -
  let ?P = "\<lambda>entry. nd_id (fst entry) = nd_id (fst (free ! i))"
  have "find_update ?P f free \<noteq> None" using assms(2) by (auto simp: find_update_None)
  then obtain x ys where fu: "find_update ?P f free = Some (x, ys)" by auto
  from find_update_Some [OF fu] obtain k where k: "k < length free" "x = free ! k" "?P x" "ys = free[k := f x]"
    by blast
  then have "k = i"
    using assms nth_eq_iff_index_eq [of "map (nd_id \<circ> fst) free" k i] by (simp add: unique_nodes_def)
  with fu k show ?thesis by simp
qed

text \<open>What one turn of the scored loop chooses.\<close>

lemma scored_body_Some:
  assumes "unique_nodes free" and "scored_body X e j g need s (free, p) = Some st'"
  shows "\<exists>i < length free. feasible X g need (free ! i) \<and>
    st' = (free[i := reserve need (free ! i)], grant p (make_alloc e p j g need (nd_id (fst (free ! i))))) \<and>
    (\<forall>k < length free. feasible X g need (free ! k) \<longrightarrow>
       (let score = (\<lambda>k. score_node X (fst (free ! k)) (snd (free ! k)) need g (bonus_for g (fst (free ! k)) s))
        in score k < score i \<or> score k = score i \<and> i \<le> k))"
proof -
  let ?key = "\<lambda>c. (- cd_score c, cd_order c)"
  from assms(2) obtain best rest where srt: "sort_key ?key (candidates X g need s free) = best # rest"
    by (auto simp: scored_body_def split: list.splits)
  from sort_key_hd(1) [OF srt] obtain i where i: "i < length free" "feasible X g need (free ! i)"
    and best: "best = \<lparr>cd_node = fst (free ! i), cd_free = snd (free ! i),
             cd_score = score_node X (fst (free ! i)) (snd (free ! i)) need g (bonus_for g (fst (free ! i)) s),
             cd_order = i\<rparr>"
    unfolding candidates_iff by blast
  have "st' = (free[i := reserve need (free ! i)], grant p (make_alloc e p j g need (nd_id (fst (free ! i)))))"
    using assms(2) srt find_update_unique [OF assms(1) i(1), of "reserve need"]
    by (simp add: scored_body_def best grant_def)
  moreover have "score_node X (fst (free ! k)) (snd (free ! k)) need g (bonus_for g (fst (free ! k)) s) < cd_score best \<or>
      score_node X (fst (free ! k)) (snd (free ! k)) need g (bonus_for g (fst (free ! k)) s) = cd_score best \<and> i \<le> k"
    if k: "k < length free" "feasible X g need (free ! k)" for k
  proof -
    let ?c = "\<lparr>cd_node = fst (free ! k), cd_free = snd (free ! k),
             cd_score = score_node X (fst (free ! k)) (snd (free ! k)) need g (bonus_for g (fst (free ! k)) s),
             cd_order = k\<rparr>"
    have "?c \<in> set (candidates X g need s free)" using k candidates_iff by blast
    from sort_key_hd(2) [OF srt this] show ?thesis by (auto simp: less_eq_prod_def best)
  qed
  ultimately show ?thesis
    using i best by (auto simp: Let_def)
qed

interpretation scored: placer "scored_body X e j g need s" "feasible X g need" need
    "\<lambda>p. make_alloc e p j g need" for X e j g need s
proof (unfold_locales, goal_cases)
  case (1 free p)
  have "sort_key f xs = [] \<longleftrightarrow> xs = []" for f :: "candidate \<Rightarrow> rat \<times> nat" and xs
    by (metis length_0_conv length_sort)
  then have "scored_body X e j g need s (free, p) = None \<longleftrightarrow> candidates X g need s free = []"
    by (auto simp: scored_body_def split: list.splits option.splits)
  then show ?case by (simp only: candidates_Nil)
next
  case (2 free p st')
  from scored_body_Some [OF this] show ?case by blast
qed

interpretation grp: placer "group_body X e j s g" "feasible X g (group_demand g)" "group_demand g"
    "\<lambda>p. make_alloc e p j g (group_demand g)" for X e j s g
proof (unfold_locales, goal_cases)
  case (1 free p)
  show ?case by (simp add: group_body_def fast.body_None scored.body_None)
next
  case (2 free p st')
  then show ?case
    using fast.body_Some [OF 2(1)] scored.body_Some [OF 2(1)]
    by (cases "tg_affinities g = [] \<and> tg_spreads g = []") (simp_all add: group_body_def)
qed

section \<open>The invariant of a plan under construction\<close>

definition alloc_justified :: "'v crates \<Rightarrow> evaluation \<Rightarrow> job \<Rightarrow> state_store \<Rightarrow> allocation \<Rightarrow> bool" where
  "alloc_justified X e j s a \<longleftrightarrow>
     al_eval_id a = ev_id e \<and> al_job_id a = jb_name j \<and> al_desired_status a = DRun \<and>
     al_client_status a = CPending \<and>
     (\<exists>g\<in>set (jb_task_groups j). \<exists>n\<in>set (list_nodes s).
        node_eligible n \<and> al_node_id a = nd_id n \<and> meets_constraints X n g \<and>
        al_task_group a = tg_name g \<and> al_resources a = group_demand g)"

definition plan_inv :: "'v crates \<Rightarrow> evaluation \<Rightarrow> job \<Rightarrow> state_store \<Rightarrow> free_list \<times> plan \<Rightarrow> bool" where
  "plan_inv X e j s st \<longleftrightarrow> (case st of (free, p) \<Rightarrow>
     map fst free = map fst (eligible_free s) \<and>
     (\<forall>a\<in>set (pl_allocs p). alloc_justified X e j s a) \<and>
     map al_id (pl_allocs p) =
       map (\<lambda>i. ev_id e @ CHR ''-'' # show_nat i) [0..<length (pl_allocs p)])"

definition account_inv :: "state_store \<Rightarrow> free_list \<times> plan \<Rightarrow> bool" where
  "account_inv s st \<longleftrightarrow> (case st of (free, p) \<Rightarrow>
     unique_nodes free \<and> nonneg_allocs (pl_allocs p) \<and>
     (\<forall>(n, av)\<in>set free. \<forall>d\<in>dims.
        sint (d av) = sint (d (free_capacity n s)) - used d (nd_id n) (pl_allocs p) \<and>
        (0 \<le> sint (d (free_capacity n s)) \<longrightarrow> 0 \<le> sint (d av))))"

lemma eligible_free_nodes: "map fst (eligible_free s) = filter node_eligible (list_nodes s)"
  by (simp add: eligible_free_def comp_def)

lemma eligible_free_unique: "state_ok s \<Longrightarrow> unique_nodes (eligible_free s)"
proof -
  assume "state_ok s"
  then have "distinct (map nd_id (list_nodes s))"
    unfolding list_nodes_def state_ok_def using table_ok_distinct_keys by blast
  then show ?thesis
    by (simp add: unique_nodes_def eligible_free_def comp_def distinct_map_filter)
qed

lemma plan_inv_step:
  assumes "plan_inv X e j s (free, p)" and "g \<in> set (jb_task_groups j)" and "i < length free"
    and "feasible X g (group_demand g) (free ! i)"
  shows "plan_inv X e j s (free[i := reserve (group_demand g) (free ! i)],
           grant p (make_alloc e p j g (group_demand g) (nd_id (fst (free ! i)))))"
proof -
  have "fst (free ! i) \<in> set (map fst free)" using assms(3) by (simp add: image_iff) (metis nth_mem)
  moreover have "map fst free = filter node_eligible (list_nodes s)"
    using assms(1) by (simp add: plan_inv_def eligible_free_nodes)
  ultimately have "fst (free ! i) \<in> set (filter node_eligible (list_nodes s))" by (simp only:)
  then have n: "fst (free ! i) \<in> set (list_nodes s)" "node_eligible (fst (free ! i))"
    by simp_all
  have "map fst (free[i := reserve (group_demand g) (free ! i)]) = map fst free"
    using assms(3) by (metis fst_conv list_update_id map_update nth_map reserve_def)
  with assms n show ?thesis
    by (auto simp: plan_inv_def grant_def alloc_justified_def make_alloc_def feasible_def)
qed

lemma account_inv_step:
  assumes inv: "account_inv s (free, p)" and i: "i < length free" and fit: "fits (snd (free ! i)) need"
    and nn: "\<forall>d\<in>dims. 0 \<le> sint (d need)"
  shows "account_inv s (free[i := reserve need (free ! i)],
           grant p (make_alloc e p j g need (nd_id (fst (free ! i)))))"
proof -
  obtain n av where fi: "free ! i = (n, av)" by fastforce
  let ?a = "make_alloc e p j g need (nd_id n)"
  have sub: "sint (d (res_sub av need)) = sint (d av) - sint (d need)" if "d \<in> dims" for d
    using that nn fit by (simp add: fi fits_iff sint_i32_sub_le)
  have ld: "load d m (make_alloc e p j g need m') = (if m = m' then sint (d need) else 0)" for d m m'
    by (simp add: load_def make_alloc_def is_live_def)
  have uniq: "nd_id m \<noteq> nd_id n" if "k < length free" "k \<noteq> i" "free ! k = (m, w)" for k m w
    using inv that i fi nth_eq_iff_index_eq [of "map (nd_id \<circ> fst) free" k i]
    by (auto simp: account_inv_def unique_nodes_def)
  have ent: "sint (d w) = sint (d (free_capacity m s)) - used d (nd_id m) (pl_allocs p)"
    "0 \<le> sint (d (free_capacity m s)) \<longrightarrow> 0 \<le> sint (d w)"
    if "k < length free" "free ! k = (m, w)" "d \<in> dims" for k m w d
    using inv that nth_mem [OF that(1)] by (auto simp: account_inv_def)
  have upd: "sint (d w) = sint (d (free_capacity m s)) - used d (nd_id m) (pl_allocs p @ [?a]) \<and>
      (0 \<le> sint (d (free_capacity m s)) \<longrightarrow> 0 \<le> sint (d w))"
    if "k < length free" "free[i := (n, res_sub av need)] ! k = (m, w)" "d \<in> dims" for k m w d
  proof (cases "k = i")
    case True
    have "0 \<le> sint (d av) - sint (d need)" using fit that(3) by (simp add: fits_iff fi)
    with True that i ent [OF i fi that(3)] sub [OF that(3)] show ?thesis by (auto simp: ld)
  next
    case False
    with that uniq [of k m w] ent [of k m w d] show ?thesis by (simp add: ld)
  qed
  have "unique_nodes (free[i := reserve need (free ! i)])"
    using inv i grp.unique_nodes_reserve [of i free] fast.unique_nodes_reserve [OF i] by (simp add: account_inv_def)
  moreover have "nonneg_allocs (pl_allocs p @ [?a])"
    using inv nn by (auto simp: account_inv_def nonneg_allocs_def make_alloc_def)
  moreover have "\<forall>(m, w)\<in>set (free[i := (n, res_sub av need)]). \<forall>d\<in>dims.
      sint (d w) = sint (d (free_capacity m s)) - used d (nd_id m) (pl_allocs p @ [?a]) \<and>
      (0 \<le> sint (d (free_capacity m s)) \<longrightarrow> 0 \<le> sint (d w))"
  proof (rule ballI)
    fix x assume "x \<in> set (free[i := (n, res_sub av need)])"
    then obtain k m w where "k < length free" "free[i := (n, res_sub av need)] ! k = (m, w)" "x = (m, w)"
      by (metis in_set_conv_nth length_list_update surj_pair)
    then show "case x of (m, w) \<Rightarrow> \<forall>d\<in>dims.
      sint (d w) = sint (d (free_capacity m s)) - used d (nd_id m) (pl_allocs p @ [?a]) \<and>
      (0 \<le> sint (d (free_capacity m s)) \<longrightarrow> 0 \<le> sint (d w))"
      using upd [of k m w] by (simp only: split_conv) blast
  qed
  ultimately show ?thesis
    by (simp add: account_inv_def grant_def reserve_def fi)
qed

lemma account_inv_unique: "account_inv s (free, p) \<Longrightarrow> unique_nodes free"
  by (simp add: account_inv_def)

lemma place_group_inv:
  assumes "plan_inv X e j s st" and "unique_nodes (fst st)" and "g \<in> set (jb_task_groups j)"
  shows "plan_inv X e j s (place_group X e j s g st)"
proof (cases st)
  case (Pair free p)
  show ?thesis
    unfolding place_group_def Pair
    by (rule grp.loop_invariant)
      (use assms Pair in \<open>simp_all add: plan_inv_step [OF _ assms(3)]\<close>)
qed

lemma place_group_account:
  assumes "account_inv s st" and "\<forall>d\<in>dims. 0 \<le> sint (d (group_demand g))"
  shows "account_inv s (place_group X e j s g st)"
proof (cases st)
  case (Pair free p)
  show ?thesis
    unfolding place_group_def Pair
  proof (rule grp.loop_invariant)
    show "account_inv s (free, p)" "unique_nodes free"
      using assms(1) Pair account_inv_unique by simp_all
  next
    fix free p i
    assume "account_inv s (free, p)" "i < length free" "feasible X g (group_demand g) (free ! i)"
    then show "account_inv s (free[i := reserve (group_demand g) (free ! i)],
        grant p (make_alloc e p j g (group_demand g) (nd_id (fst (free ! i)))))"
      using assms(2) by (intro account_inv_step) (simp_all add: feasible_def)
  qed
qed

lemma plan_inv_unique:
  assumes "state_ok s" and "plan_inv X e j s st"
  shows "unique_nodes (fst st)"
proof -
  have "map fst (fst st) = map fst (eligible_free s)" using assms(2) by (auto simp: plan_inv_def)
  then have "map (nd_id \<circ> fst) (fst st) = map (nd_id \<circ> fst) (eligible_free s)" by (metis map_map)
  with eligible_free_unique [OF assms(1)] show ?thesis by (simp add: unique_nodes_def)
qed

lemma plan_inv_start: "plan_inv X e j s (eligible_free s, \<lparr>pl_allocs = []\<rparr>)"
  by (simp add: plan_inv_def)

lemma account_inv_start: "state_ok s \<Longrightarrow> account_inv s (eligible_free s, \<lparr>pl_allocs = []\<rparr>)"
  by (auto simp: account_inv_def nonneg_allocs_def eligible_free_unique) (auto simp: eligible_free_def)

lemma fold_groups_inv:
  "\<lbrakk>state_ok s; plan_inv X e j s st; set gs \<subseteq> set (jb_task_groups j)\<rbrakk> \<Longrightarrow>
     plan_inv X e j s (fold (place_group X e j s) gs st)"
  by (induction gs arbitrary: st) (auto simp: place_group_inv plan_inv_unique)

lemma fold_groups_account:
  "\<lbrakk>account_inv s st; \<forall>g\<in>set gs. \<forall>d\<in>dims. 0 \<le> sint (d (group_demand g))\<rbrakk> \<Longrightarrow>
     account_inv s (fold (place_group X e j s) gs st)"
  by (induction gs arbitrary: st) (auto simp: place_group_account)

lemma process_eval_inv:
  assumes "state_ok s" and "get_job s (ev_job_id e) = Some j"
  shows "\<exists>free. plan_inv X e j s (free, process_eval X e s)"
proof -
  let ?st = "fold (place_group X e j s) (jb_task_groups j) (eligible_free s, \<lparr>pl_allocs = []\<rparr>)"
  have "plan_inv X e j s ?st" by (rule fold_groups_inv [OF assms(1) plan_inv_start order_refl])
  moreover have "?st = (fst ?st, process_eval X e s)" by (simp add: process_eval_def assms(2))
  ultimately show ?thesis by metis
qed

text \<open>A plan is empty only when no node has room for an instance of any group that wants one.\<close>

lemma place_group_none:
  assumes "unique_nodes free" and "place_group X e j s g (free, p) = (free', p')"
    and "length (pl_allocs p') = length (pl_allocs p)"
  shows "(free', p') = (free, p) \<and>
    (0 < sint (tg_count g) \<longrightarrow> (\<forall>x\<in>set free. \<not> feasible X g (group_demand g) x))"
proof (cases "nat (sint (i32_max0 (tg_count g)))")
  case 0
  with assms(2) show ?thesis by (simp add: place_group_def sint_i32_max0)
next
  case (Suc k)
  with grp.loop_stuck [OF assms(1) _ assms(3), of X e j s g k] assms(2) show ?thesis
    by (simp add: place_group_def)
qed

lemma fold_groups_none:
  assumes "unique_nodes free" and "pl_allocs (snd (fold (place_group X e j s) gs (free, p))) = []"
  shows "pl_allocs p = [] \<and>
    (\<forall>g\<in>set gs. 0 < sint (tg_count g) \<longrightarrow> (\<forall>x\<in>set free. \<not> feasible X g (group_demand g) x))"
  using assms
proof (induction gs arbitrary: free p)
  case (Cons g gs)
  obtain free1 p1 where run: "place_group X e j s g (free, p) = (free1, p1)" by fastforce
  then have loop: "for_loop (group_body X e j s g) (nat (sint (i32_max0 (tg_count g)))) (free, p) = (free1, p1)"
    by (simp add: place_group_def)
  have "unique_nodes free1"
    using grp.loop_invariant [of "\<lambda>st. unique_nodes (fst st)" free p X g e j s, OF _ Cons.prems(1)]
      grp.unique_nodes_reserve loop Cons.prems(1) by (metis fst_conv)
  with Cons.IH [of free1 p1] Cons.prems(2) run
  have later: "pl_allocs p1 = []"
    "\<forall>g\<in>set gs. 0 < sint (tg_count g) \<longrightarrow> (\<forall>x\<in>set free1. \<not> feasible X g (group_demand g) x)" by auto
  with grp.loop_count [OF Cons.prems(1) loop] have "pl_allocs p = []" by simp
  with place_group_none [OF Cons.prems(1) run] later show ?case by simp
qed simp

lemma empty_plan_stuck:
  assumes "state_ok s" and "get_job s (ev_job_id e) = Some j" and "pl_allocs (process_eval X e s) = []"
    and "g \<in> set (jb_task_groups j)" and "0 < sint (tg_count g)"
    and "n \<in> set (list_nodes s)" and "node_eligible n" and "meets_constraints X n g"
  shows "\<not> fits (free_capacity n s) (group_demand g)"
proof -
  have "(n, free_capacity n s) \<in> set (eligible_free s)" using assms(6,7) by (simp add: eligible_free_def)
  moreover have "pl_allocs (snd (fold (place_group X e j s) (jb_task_groups j)
      (eligible_free s, \<lparr>pl_allocs = []\<rparr>))) = []"
    using assms(2,3) by (simp add: process_eval_def)
  ultimately show ?thesis
    using fold_groups_none [OF eligible_free_unique [OF assms(1)]] assms(4,5,8)
    by (fastforce simp: feasible_def)
qed

lemma job_demand_nonneg:
  assumes "state_ok s" and "get_job s name = Some j" and "\<forall>g\<in>set (jb_task_groups j). demand_fits g"
  shows "\<forall>g\<in>set (jb_task_groups j). \<forall>d\<in>dims. 0 \<le> sint (d (group_demand g))"
  using assms jobs.get_wf [OF assms(1,2)] group_demand_exact(2) by (auto simp: job_ok_def)

lemma process_eval_account:
  assumes "state_ok s" and "get_job s (ev_job_id e) = Some j"
    and "\<forall>g\<in>set (jb_task_groups j). demand_fits g"
  shows "\<exists>free. plan_inv X e j s (free, process_eval X e s) \<and> account_inv s (free, process_eval X e s)"
proof -
  let ?st = "fold (place_group X e j s) (jb_task_groups j) (eligible_free s, \<lparr>pl_allocs = []\<rparr>)"
  have "plan_inv X e j s ?st" by (rule fold_groups_inv [OF assms(1) plan_inv_start order_refl])
  moreover have "account_inv s ?st"
    by (rule fold_groups_account [OF account_inv_start [OF assms(1)] job_demand_nonneg [OF assms]])
  moreover have "?st = (fst ?st, process_eval X e s)" by (simp add: process_eval_def assms(2))
  ultimately show ?thesis by metis
qed

section \<open>Enough room for a whole job\<close>

text \<open>What a list of allocations asks for, on whatever nodes: no node's load exceeds it.\<close>

definition asked :: "(resources \<Rightarrow> i32) \<Rightarrow> allocation list \<Rightarrow> int" where
  "asked d as = (\<Sum>a\<leftarrow>as. sint (d (al_resources a)))"

lemma used_le_asked: "\<lbrakk>nonneg_allocs as; d \<in> dims\<rbrakk> \<Longrightarrow> used d n as \<le> asked d as"
  by (induction as) (auto simp: nonneg_allocs_def asked_def load_def)

lemma place_group_asked:
  assumes "unique_nodes free" and "place_group X e j s g (free, p) = (free', p')"
  shows "asked d (pl_allocs p') = asked d (pl_allocs p) +
    (int (length (pl_allocs p')) - int (length (pl_allocs p))) * sint (d (group_demand g))"
proof -
  let ?I = "\<lambda>st. asked d (pl_allocs (snd st)) = asked d (pl_allocs p) +
    (int (length (pl_allocs (snd st))) - int (length (pl_allocs p))) * sint (d (group_demand g))"
  have "?I (for_loop (group_body X e j s g) (nat (sint (i32_max0 (tg_count g)))) (free, p))"
    by (rule grp.loop_invariant [where I = ?I, OF _ assms(1)])
      (auto simp: grant_def make_alloc_def asked_def algebra_simps)
  with assms(2) show ?thesis by (simp add: place_group_def)
qed

lemma place_groups_whole:
  assumes "state_ok s" and "plan_inv X e j s (free, p)" and "account_inv s (free, p)" and "set gs \<subseteq> set (jb_task_groups j)"
    and "\<forall>g\<in>set gs. (\<forall>d\<in>dims. 0 \<le> sint (d (group_demand g))) \<and> meets_constraints X n g"
    and "n \<in> set (map fst (eligible_free s))"
    and "\<forall>d\<in>dims. asked d (pl_allocs p) +
      (\<Sum>g\<leftarrow>gs. max 0 (sint (tg_count g)) * sint (d (group_demand g))) \<le> sint (d (free_capacity n s))"
  shows "int (length (pl_allocs (snd (fold (place_group X e j s) gs (free, p))))) =
    int (length (pl_allocs p)) + (\<Sum>g\<leftarrow>gs. max 0 (sint (tg_count g)))"
  using assms(2-)
proof (induction gs arbitrary: free p)
  case (Cons g gs)
  let ?c = "max 0 (sint (tg_count g))"
  obtain free1 p1 where run: "place_group X e j s g (free, p) = (free1, p1)" by fastforce
  have uniq: "unique_nodes free" by (rule account_inv_unique [OF Cons.prems(2)])
  have inv1: "plan_inv X e j s (free1, p1)"
    using place_group_inv [OF Cons.prems(1), of g] uniq Cons.prems(3) run by simp
  have acc1: "account_inv s (free1, p1)" using place_group_account [OF Cons.prems(2), of g X e j] Cons.prems(4) run by simp
  have "for_loop (group_body X e j s g) (nat (sint (i32_max0 (tg_count g)))) (free, p) = (free1, p1)"
    using run by (simp add: place_group_def)
  note cnt = grp.loop_count [OF uniq this]
  let ?k = "int (length (pl_allocs p1)) - int (length (pl_allocs p))"
  have k: "?k \<le> ?c" using cnt by (auto simp: sint_i32_max0)
  have rest: "0 \<le> (\<Sum>g\<leftarrow>gs. max 0 (sint (tg_count g)) * sint (d (group_demand g)))" if "d \<in> dims" for d
    using Cons.prems(4) that by (intro sum_list_nonneg) auto
  have more_asked: "asked d (pl_allocs p1) = asked d (pl_allocs p) + ?k * sint (d (group_demand g))" for d
    by (rule place_group_asked [OF uniq run])
  have all: "?k = ?c"
  proof (rule ccontr)
    assume "?k \<noteq> ?c"
    then have short: "?k + 1 \<le> ?c" using k by simp
    then have none: "\<forall>x\<in>set free1. \<not> feasible X g (group_demand g) x" using cnt by (auto simp: sint_i32_max0)
    have "n \<in> set (map fst free1)" using inv1 Cons.prems(5) by (simp add: plan_inv_def)
    then obtain av where av: "(n, av) \<in> set free1" by auto
    have "sint (d (group_demand g)) \<le> sint (d av)" if d: "d \<in> dims" for d
    proof -
      have "(?k + 1) * sint (d (group_demand g)) \<le> ?c * sint (d (group_demand g))"
        using short Cons.prems(4) d by (intro mult_right_mono) auto
      then have "asked d (pl_allocs p1) + sint (d (group_demand g)) \<le> sint (d (free_capacity n s))"
        using Cons.prems(6) d rest [OF d] by (auto simp: more_asked algebra_simps)
      moreover have "used d (nd_id n) (pl_allocs p1) \<le> asked d (pl_allocs p1)"
        using acc1 d by (intro used_le_asked) (auto simp: account_inv_def)
      moreover have "sint (d av) = sint (d (free_capacity n s)) - used d (nd_id n) (pl_allocs p1)"
        using acc1 av d by (auto simp: account_inv_def)
      ultimately show ?thesis by linarith
    qed
    with none av Cons.prems(4) show False by (fastforce simp: feasible_def fits_iff)
  qed
  have room: "\<forall>d\<in>dims. asked d (pl_allocs p1) +
      (\<Sum>g\<leftarrow>gs. max 0 (sint (tg_count g)) * sint (d (group_demand g))) \<le> sint (d (free_capacity n s))"
    using Cons.prems(6) by (simp add: more_asked all add.assoc)
  from Cons.IH [OF inv1 acc1 _ _ Cons.prems(5) room] Cons.prems(3,4) all show ?case by (simp add: run)
qed simp

lemma process_eval_whole:
  assumes "state_ok s" and "get_job s (ev_job_id e) = Some j"
    and "\<forall>g\<in>set (jb_task_groups j). demand_fits g \<and> meets_constraints X n g"
    and "n \<in> set (list_nodes s)" and "node_eligible n"
    and "\<forall>d\<in>dims. (\<Sum>g\<leftarrow>jb_task_groups j. max 0 (sint (tg_count g)) * sint (d (group_demand g)))
      \<le> sint (d (free_capacity n s))"
  shows "int (length (pl_allocs (process_eval X e s))) = (\<Sum>g\<leftarrow>jb_task_groups j. max 0 (sint (tg_count g)))"
proof -
  have "\<forall>g\<in>set (jb_task_groups j). (\<forall>d\<in>dims. 0 \<le> sint (d (group_demand g))) \<and> meets_constraints X n g"
    using job_demand_nonneg [OF assms(1,2)] assms(3) by blast
  from place_groups_whole [OF assms(1) plan_inv_start account_inv_start [OF assms(1)] order_refl this, of e] assms(2,4-6)
  show ?thesis by (simp add: process_eval_def asked_def eligible_free_nodes del: map_map)
qed

section \<open>Applying a plan never fails\<close>

lemma justified_alloc_ok:
  assumes "state_ok s" and "get_job s (ev_job_id e) = Some j" and "alloc_justified X e j s a"
    and "al_id a \<noteq> []"
  shows "alloc_ok a"
proof -
  have j: "job_ok j" using jobs.get_wf [OF assms(1,2)] by simp
  from assms(3) obtain g n where "g \<in> set (jb_task_groups j)" "n \<in> set (list_nodes s)"
    "al_node_id a = nd_id n" "al_task_group a = tg_name g" "al_job_id a = jb_name j"
    by (auto simp: alloc_justified_def)
  moreover have "node_ok n" using nodes.listed_valid [OF assms(1)] calculation(2) .
  ultimately show ?thesis
    using j assms(4) by (auto simp: alloc_ok_def job_ok_def task_group_ok_def node_ok_def)
qed

lemma plan_allocs_ok:
  assumes "state_ok s" and "a \<in> set (pl_allocs (process_eval X e s))"
  shows "alloc_ok a"
proof (cases "get_job s (ev_job_id e)")
  case None
  with assms show ?thesis by (simp add: process_eval_def)
next
  case (Some j)
  obtain free where inv: "plan_inv X e j s (free, process_eval X e s)"
    using process_eval_inv [OF assms(1) Some] by blast
  have "al_id a \<in> set (map al_id (pl_allocs (process_eval X e s)))" using assms(2) by simp
  then have "al_id a \<in> set (map (\<lambda>i. ev_id e @ CHR ''-'' # show_nat i) [0..<length (pl_allocs (process_eval X e s))])"
    using inv by (simp only: plan_inv_def split_conv)
  then have "al_id a \<noteq> []" by auto
  with justified_alloc_ok [OF assms(1) Some] inv assms(2) show ?thesis by (auto simp: plan_inv_def)
qed

lemma apply_allocs_ok:
  assumes "\<forall>a\<in>set as. alloc_ok a" and "state_ok (fsm_state f)"
  shows "\<exists>f'. apply_allocs as f = (Inr (), f') \<and> state_ok (fsm_state f') \<and>
    fsm_state f' = (fsm_state f)\<lparr>st_allocs := fold (\<lambda>a. hm_insert (al_id a) a) as (st_allocs (fsm_state f))\<rparr>"
  using assms
proof (induction as arbitrary: f)
  case (Cons a as)
  from upsert_alloc_cases [of a "fsm_state f"] Cons.prems have up:
    "upsert_alloc a (fsm_state f) = (Inr (), (fsm_state f)\<lparr>st_allocs := hm_insert (al_id a) a (st_allocs (fsm_state f))\<rparr>)"
    by simp
  let ?f = "f\<lparr>fsm_state := (fsm_state f)\<lparr>st_allocs := hm_insert (al_id a) a (st_allocs (fsm_state f))\<rparr>\<rparr>"
  have "state_ok (fsm_state ?f)" using allocs.upsert_wf [OF Cons.prems(2), of a] up by simp
  with Cons.IH [of ?f] Cons.prems up show ?case by (simp add: fsm_apply_def)
qed auto

lemma process_and_apply_ok:
  assumes "state_ok (fsm_state f)"
  shows "\<exists>f'. process_and_apply X e f = (Inr (process_eval X e (fsm_state f)), f') \<and>
    state_ok (fsm_state f') \<and> list_nodes (fsm_state f') = list_nodes (fsm_state f) \<and>
    get_job (fsm_state f') = get_job (fsm_state f) \<and>
    st_jobs (fsm_state f') = st_jobs (fsm_state f) \<and> st_nodes (fsm_state f') = st_nodes (fsm_state f) \<and>
    st_evals (fsm_state f') = st_evals (fsm_state f) \<and>
    st_allocs (fsm_state f') =
      fold (\<lambda>a. hm_insert (al_id a) a) (pl_allocs (process_eval X e (fsm_state f))) (st_allocs (fsm_state f))"
  using apply_allocs_ok [of "pl_allocs (process_eval X e (fsm_state f))" f] plan_allocs_ok assms
  by (fastforce simp: process_and_apply_def apply_plan_def list_nodes_def get_job_def)

text \<open>Allocations under new identifiers are added to those of the store.\<close>

lemma insert_fresh:
  "\<lbrakk>\<forall>a\<in>set as. hm_get m (al_id a) = None; distinct (map al_id as)\<rbrakk> \<Longrightarrow>
     mset (filter P (hm_values (fold (\<lambda>a. hm_insert (al_id a) a) as m))) =
       mset (filter P (hm_values m)) + mset (filter P as)"
proof (induction as arbitrary: m)
  case (Cons a as)
  have one: "mset (filter P (hm_values (hm_insert k a m))) = mset (filter P (hm_values m)) + (if P a then {#a#} else {#})"
    if "hm_get m k = None" for k
    using that by (induction m) (auto split: if_splits)
  have "\<forall>b\<in>set as. hm_get (hm_insert (al_id a) a m) (al_id b) = None"
    using Cons.prems by (auto simp: image_iff)
  from Cons.IH [OF this] Cons.prems one [of "al_id a"] show ?case by simp
qed simp

section \<open>No node is oversubscribed\<close>

lemma used_insert:
  assumes "nonneg_allocs (hm_values m)" and "d \<in> dims"
  shows "used d n (hm_values (hm_insert k a m)) \<le> used d n (hm_values m) + load d n a"
  using assms
proof (induction m)
  case (Cons e m)
  then show ?case
    using load_nonneg [of "hm_values (e # m)" "snd e" d n] used_nonneg [of "hm_values m" d n]
    by (auto simp: nonneg_allocs_def)
qed simp

lemma nonneg_insert:
  assumes "nonneg_allocs (hm_values m)" and "\<forall>d\<in>dims. 0 \<le> sint (d (al_resources a))"
  shows "nonneg_allocs (hm_values (hm_insert k a m))"
  using assms
proof (induction m)
  case (Cons e m)
  then show ?case by (cases e) (auto simp: nonneg_allocs_def)
qed (simp add: nonneg_allocs_def)

lemma used_fold_insert:
  assumes "nonneg_allocs (hm_values m)" and "nonneg_allocs as" and "d \<in> dims"
  shows "nonneg_allocs (hm_values (fold (\<lambda>a. hm_insert (al_id a) a) as m)) \<and>
    used d n (hm_values (fold (\<lambda>a. hm_insert (al_id a) a) as m)) \<le> used d n (hm_values m) + used d n as"
  using assms
proof (induction as arbitrary: m)
  case (Cons a as)
  then have "nonneg_allocs (hm_values (hm_insert (al_id a) a m))"
    by (intro nonneg_insert) (auto simp: nonneg_allocs_def)
  with Cons.IH [of "hm_insert (al_id a) a m"] Cons.prems used_insert [of m d n "al_id a" a] show ?case
    by (simp add: nonneg_allocs_def)
qed simp

definition demands_fit :: "state_store \<Rightarrow> bool" where
  "demands_fit s \<longleftrightarrow> (\<forall>name j. get_job s name = Some j \<longrightarrow> (\<forall>g\<in>set (jb_task_groups j). demand_fits g))"

lemma used_elsewhere: "\<forall>a\<in>set as. al_node_id a \<noteq> n \<Longrightarrow> used d n as = 0"
  by (induction as) (auto simp: load_def)

lemma plan_fits_nodes:
  assumes ok: "state_ok s" and cap: "capacity_ok s" and job: "get_job s (ev_job_id e) = Some j"
    and fit: "\<forall>g\<in>set (jb_task_groups j). demand_fits g"
    and n: "n \<in> set (list_nodes s)" and d: "d \<in> dims"
  shows "used d (nd_id n) (pl_allocs (process_eval X e s)) + used d (nd_id n) (list_allocs s)
    \<le> sint (d (nd_resources n))"
proof -
  obtain free where pinv: "plan_inv X e j s (free, process_eval X e s)"
    and ainv: "account_inv s (free, process_eval X e s)"
    using process_eval_account [OF ok job fit] by blast
  have fc: "sint (d (free_capacity n s)) = sint (d (nd_resources n)) - used d (nd_id n) (list_allocs s)"
    by (rule free_capacity_exact [OF cap n d])
  have base: "used d (nd_id n) (list_allocs s) \<le> sint (d (nd_resources n))"
    using cap n d by (simp add: capacity_ok_def)
  show ?thesis
  proof (cases "node_eligible n")
    case True
    have "map fst free = filter node_eligible (list_nodes s)"
      using pinv by (simp add: plan_inv_def eligible_free_nodes)
    then have "n \<in> set (map fst free)" using True n by simp
    then obtain av where "(n, av) \<in> set free" by auto
    with ainv d fc base show ?thesis by (fastforce simp: account_inv_def)
  next
    case False
    have dist: "distinct (map nd_id (list_nodes s))"
      using ok table_ok_distinct_keys unfolding list_nodes_def state_ok_def by blast
    have "al_node_id a \<noteq> nd_id n" if "a \<in> set (pl_allocs (process_eval X e s))" for a
    proof -
      from pinv that obtain m where m: "m \<in> set (list_nodes s)" "node_eligible m" "al_node_id a = nd_id m"
        by (auto simp: plan_inv_def alloc_justified_def)
      with False have "m \<noteq> n" by auto
      with m n dist show ?thesis by (auto simp: distinct_map inj_on_def)
    qed
    then have "used d (nd_id n) (pl_allocs (process_eval X e s)) = 0"
      by (intro used_elsewhere) simp
    with base show ?thesis by simp
  qed
qed

lemma process_and_apply_capacity:
  assumes ok: "state_ok (fsm_state f)" and cap: "capacity_ok (fsm_state f)" and fit: "demands_fit (fsm_state f)"
    and run: "process_and_apply X e f = (r, f')"
  shows "capacity_ok (fsm_state f') \<and> demands_fit (fsm_state f')"
proof (cases "get_job (fsm_state f) (ev_job_id e)")
  case None
  then have "f' = f" using run by (simp add: process_and_apply_def process_eval_def apply_plan_def)
  with cap fit show ?thesis by simp
next
  case (Some j)
  let ?as = "pl_allocs (process_eval X e (fsm_state f))"
  have nodes: "list_nodes (fsm_state f') = list_nodes (fsm_state f)"
    and jobs: "get_job (fsm_state f') = get_job (fsm_state f)"
    and allocs: "st_allocs (fsm_state f') = fold (\<lambda>a. hm_insert (al_id a) a) ?as (st_allocs (fsm_state f))"
    using process_and_apply_ok [OF ok, of X e] run by auto
  have fits: "\<forall>g\<in>set (jb_task_groups j). demand_fits g" using fit Some by (auto simp: demands_fit_def)
  have nn: "nonneg_allocs ?as"
    using process_eval_account [OF ok Some fits] by (auto simp: account_inv_def)
  have nn0: "nonneg_allocs (hm_values (st_allocs (fsm_state f)))"
    using cap by (simp add: capacity_ok_def list_allocs_def)
  have "used d (nd_id n) (list_allocs (fsm_state f')) \<le> sint (d (nd_resources n))"
    if "n \<in> set (list_nodes (fsm_state f))" "d \<in> dims" for n d
    using used_fold_insert [OF nn0 nn that(2), of "nd_id n"] plan_fits_nodes [OF ok cap Some fits that, of X]
    unfolding list_allocs_def allocs by linarith
  moreover have "nonneg_allocs (list_allocs (fsm_state f'))"
    using used_fold_insert [OF nn0 nn, of cpu_mhz] by (simp add: list_allocs_def allocs)
  ultimately show ?thesis
    using fit by (simp add: capacity_ok_def nodes demands_fit_def jobs)
qed

section \<open>Draining the queue\<close>

lemma drain_turn_ok:
  assumes "state_ok (fsm_state f)" and "\<not> q_poisoned q"
  shows "\<exists>bs f'. set bs \<subseteq> {e} \<and>
    drain_turn X e q f = (Inr (length (pl_allocs (process_eval X e (fsm_state f)))),
       q\<lparr>q_blocked := q_blocked q @ bs, q_in_flight := hm_remove (ev_id e) (q_in_flight q)\<rparr>, f') \<and>
    process_and_apply X e f = (Inr (process_eval X e (fsm_state f)), f') \<and> state_ok (fsm_state f')"
proof -
  obtain f' where pa: "process_and_apply X e f = (Inr (process_eval X e (fsm_state f)), f')"
    and ok: "state_ok (fsm_state f')"
    using process_and_apply_ok [OF assms(1)] by blast
  let ?park = "pl_allocs (process_eval X e (fsm_state f)) = [] \<and> 0 < sint (desired_count e (fsm_state f'))"
  show ?thesis
  proof (cases ?park)
    case True
    with pa ok assms(2) show ?thesis
      by (intro exI [of _ "[e]"] exI [of _ f']) (simp add: drain_turn_def block_def ack_def)
  next
    case False
    with pa ok assms(2) show ?thesis
      by (intro exI [of _ "[]"] exI [of _ f']) (auto simp: drain_turn_def ack_def)
  qed
qed

definition drained :: "eval_queue \<Rightarrow> eval_queue \<Rightarrow> bool" where
  "drained q q' \<longleftrightarrow> q_heap q' = [] \<and>
     q_in_flight q' = filter (\<lambda>(k, _). k \<notin> (\<lambda>pe. ev_id (pe_eval pe)) ` set (q_heap q)) (q_in_flight q) \<and>
     (\<exists>bs. q_blocked q' = q_blocked q @ bs \<and> set bs \<subseteq> pe_eval ` set (q_heap q))"

lemma hm_remove_insert: "hm_remove k (hm_insert k v m) = hm_remove k m"
  by (induction m) auto

lemma drain_loop_ok:
  assumes "state_ok (fsm_state f)" and "\<not> q_poisoned q"
  shows "\<exists>n q' f'. drain_loop X clock k placed q f = (Inr n, q', f') \<and> drained q q' \<and> placed \<le> n \<and>
    state_ok (fsm_state f') \<and>
    (capacity_ok (fsm_state f) \<and> demands_fit (fsm_state f) \<longrightarrow> capacity_ok (fsm_state f'))"
  using assms
proof (induction X clock k placed q f rule: drain_loop.induct)
  case (1 X clock k placed q f)
  show ?case
  proof (cases "heap_pop (q_heap q)")
    case None
    then have "q_heap q = []" using pq.pop_None by simp
    with 1(2,3) None show ?thesis
      by (subst drain_loop.simps) (simp add: dequeue_def drained_def)
  next
    case (Some ph)
    then obtain pe h where pop: "heap_pop (q_heap q) = Some (pe, h)" by (cases ph) auto
    let ?pe = "pe\<lparr>pe_dequeues := pe_dequeues pe + 1, pe_dequeued_at := Some (clock k)\<rparr>"
    let ?e = "pe_eval pe"
    let ?q1 = "q\<lparr>q_heap := h, q_in_flight := hm_insert (ev_id ?e) ?pe (q_in_flight q)\<rparr>"
    have dq: "dequeue (clock k) q = (Inr (Some ?e), ?q1)"
      using pop 1(3) by (simp add: dequeue_def Let_def)
    have live1: "\<not> q_poisoned ?q1" using 1(3) by simp
    obtain bs f' where bs: "set bs \<subseteq> {?e}"
      and turn: "drain_turn X ?e ?q1 f = (Inr (length (pl_allocs (process_eval X ?e (fsm_state f)))),
       ?q1\<lparr>q_blocked := q_blocked ?q1 @ bs, q_in_flight := hm_remove (ev_id ?e) (q_in_flight ?q1)\<rparr>, f')"
      and pa: "process_and_apply X ?e f = (Inr (process_eval X ?e (fsm_state f)), f')"
      and ok: "state_ok (fsm_state f')"
      using drain_turn_ok [OF 1(2) live1] by blast
    let ?q2 = "q\<lparr>q_heap := h, q_blocked := q_blocked q @ bs, q_in_flight := hm_remove (ev_id ?e) (q_in_flight q)\<rparr>"
    let ?n = "length (pl_allocs (process_eval X ?e (fsm_state f)))"
    have turn': "drain_turn X ?e ?q1 f = (Inr ?n, ?q2, f')" using turn by (simp add: hm_remove_insert)
    have step: "drain_loop X clock k placed q f = drain_loop X clock (Suc k) (placed + ?n) ?q2 f'"
      by (subst drain_loop.simps) (simp add: dq turn')
    obtain n q' f'' where rec: "drain_loop X clock (Suc k) (placed + ?n) ?q2 f' = (Inr n, q', f'')"
      "drained ?q2 q'" "placed + ?n \<le> n" "state_ok (fsm_state f'')"
      "capacity_ok (fsm_state f') \<and> demands_fit (fsm_state f') \<longrightarrow> capacity_ok (fsm_state f'')"
      using 1(1) [OF dq [symmetric] refl refl turn' [symmetric] refl refl ok] 1(3) by auto
    have heap: "set (q_heap q) = insert pe (set h)" by (rule heap_pop_sum(2) [OF pop])
    have "drained q q'"
      using rec(2) bs heap
      by (auto simp: drained_def AList.delete_eq split_beta intro!: filter_cong)
    with step rec process_and_apply_capacity [OF 1(2) _ _ pa] show ?thesis by auto
  qed
qed

lemma plan_ids_distinct:
  assumes "state_ok s" and "get_job s (ev_job_id e) = Some j"
  shows "distinct (map al_id (pl_allocs (process_eval X e s)))"
proof -
  obtain free where "plan_inv X e j s (free, process_eval X e s)"
    using process_eval_inv [OF assms] by blast
  then have ids: "map al_id (pl_allocs (process_eval X e s)) =
      map (\<lambda>i. ev_id e @ CHR ''-'' # show_nat i) [0..<length (pl_allocs (process_eval X e s))]"
    by (simp add: plan_inv_def)
  have "distinct (map (\<lambda>i. ev_id e @ CHR ''-'' # show_nat i) [0..<n])" for n
    by (simp add: distinct_map inj_on_def)
  then show ?thesis unfolding ids .
qed

section \<open>A sample cluster\<close>

definition no_crates :: "nat crates" where
  "no_crates = \<lparr>regex_new = (\<lambda>_. None), version_parse = (\<lambda>_. None), version_req_parse = (\<lambda>_. None)\<rparr>"

definition sample_state :: state_store where
  "sample_state = \<lparr>st_jobs = [(''shop'', sample_job)], st_nodes = [(''n1'', sample_node)],
                   st_allocs = [], st_evals = [(''e1'', sample_eval)]\<rparr>"

definition sample_fsm :: fsm where
  "sample_fsm = \<lparr>fsm_state = sample_state\<rparr>"

lemmas sample_defs = sample_state_def sample_fsm_def sample_job_def sample_group_def sample_node_def
  sample_eval_def

lemma sample_state_ok: "state_ok sample_state"
  by (simp add: state_ok_def table_ok_def job_ok_def task_group_ok_def task_ok_def resources_ok_def
      ball_dims node_ok_def eval_ok_def sample_defs)

lemma sample_capacity_ok: "capacity_ok sample_state"
  by (simp add: capacity_ok_def nonneg_allocs_def list_allocs_def list_nodes_def ball_dims sample_defs)

lemma sample_demands_fit: "demands_fit sample_state"
  by (simp add: demands_fit_def demand_fits_def get_job_def ball_dims sample_defs)

section \<open>Properties\<close>

text \<open>C6. A plan does not oversubscribe a node: if in a well-formed state the live allocations of every
  node fit its resources in every dimension, and the demand of no stored task group overflows 32
  bits (\<open>demands_fit\<close>, without which this fails: \<open>group_demand_wraps\<close>), then processing an
  evaluation and applying its plan succeeds and leaves a well-formed state in which the live
  allocations of every node still fit.\<close>

theorem no_oversubscription:
  assumes "state_ok (fsm_state f)" and "capacity_ok (fsm_state f)" and "demands_fit (fsm_state f)"
  shows "\<exists>p f'. process_and_apply X e f = (Inr p, f') \<and> state_ok (fsm_state f') \<and> capacity_ok (fsm_state f')"
  using process_and_apply_ok [OF assms(1), of X e] process_and_apply_capacity [OF assms, of X e] by blast

theorem no_oversubscription_witness:
  "\<exists>p f'. process_and_apply no_crates sample_eval sample_fsm = (Inr p, f') \<and>
     length (pl_allocs p) = 2 \<and> capacity_ok (fsm_state f')"
proof -
  have "length (pl_allocs (process_eval no_crates sample_eval sample_state)) = 2"
    by code_simp
  then show ?thesis
    using no_oversubscription [of sample_fsm no_crates sample_eval] sample_state_ok sample_capacity_ok
      sample_demands_fit process_and_apply_ok [of sample_fsm no_crates sample_eval]
    by (auto simp: sample_fsm_def)
qed

text \<open>C7. Every placement of a plan is justified: it belongs to the evaluation and its job, sits on
  a registered node that is ready, eligible and not draining and that meets every constraint of
  the group it is for, and asks for the group's demand; the identifiers of a plan's placements
  are the evaluation's identifier with consecutive numbers, so they are pairwise distinct.\<close>

theorem placements_justified:
  assumes "state_ok s" and "get_job s (ev_job_id e) = Some j"
  shows "(\<forall>a\<in>set (pl_allocs (process_eval X e s)). alloc_justified X e j s a) \<and>
    map al_id (pl_allocs (process_eval X e s)) =
      map (\<lambda>i. ev_id e @ CHR ''-'' # show_nat i) [0..<length (pl_allocs (process_eval X e s))] \<and>
    distinct (map al_id (pl_allocs (process_eval X e s)))"
proof -
  obtain free where "plan_inv X e j s (free, process_eval X e s)"
    using process_eval_inv [OF assms] by blast
  then have "\<forall>a\<in>set (pl_allocs (process_eval X e s)). alloc_justified X e j s a"
    "map al_id (pl_allocs (process_eval X e s)) =
      map (\<lambda>i. ev_id e @ CHR ''-'' # show_nat i) [0..<length (pl_allocs (process_eval X e s))]"
    by (simp_all add: plan_inv_def)
  then show ?thesis
    using plan_ids_distinct [OF assms] by (intro conjI)
qed

theorem placements_justified_witness:
  "map al_id (pl_allocs (process_eval no_crates sample_eval sample_state)) = [''e1-0'', ''e1-1''] \<and>
   distinct (map al_id (pl_allocs (process_eval no_crates sample_eval sample_state)))"
proof -
  have "get_job sample_state (ev_job_id sample_eval) = Some sample_job"
    by (simp add: get_job_def sample_defs)
  from placements_justified [OF sample_state_ok this, of no_crates] show ?thesis
    by (intro conjI) (code_simp, blast)
qed

text \<open>C8. A task group gets at most as many placements as its count, and fewer only when at the end
  no node is left with room for one more instance that also meets the group's constraints. This
  holds on the first-fit path and on the scored path alike.\<close>

theorem place_group_complete:
  assumes "unique_nodes free" and "place_group X e j s g (free, p) = (free', p')"
  shows "length (pl_allocs p) \<le> length (pl_allocs p') \<and>
    int (length (pl_allocs p')) \<le> int (length (pl_allocs p)) + max 0 (sint (tg_count g)) \<and>
    (int (length (pl_allocs p')) < int (length (pl_allocs p)) + max 0 (sint (tg_count g)) \<longrightarrow>
       (\<forall>(n, av)\<in>set free'. \<not> (fits av (group_demand g) \<and> meets_constraints X n g)))"
proof -
  have "for_loop (group_body X e j s g) (nat (sint (i32_max0 (tg_count g)))) (free, p) = (free', p')"
    using assms(2) by (simp add: place_group_def)
  from grp.loop_count [OF assms(1) this] show ?thesis
    by (auto simp: sint_i32_max0 feasible_def)
qed

theorem place_group_complete_witness:
  "\<exists>free' p'. place_group no_crates sample_eval sample_job sample_state (sample_group\<lparr>tg_count := 7\<rparr>)
      (eligible_free sample_state, \<lparr>pl_allocs = []\<rparr>) = (free', p') \<and> length (pl_allocs p') = 3 \<and>
    (\<forall>(n, av)\<in>set free'. \<not> (fits av (group_demand (sample_group\<lparr>tg_count := 7\<rparr>)) \<and>
       meets_constraints no_crates n (sample_group\<lparr>tg_count := 7\<rparr>)))"
proof -
  let ?g = "sample_group\<lparr>tg_count := 7\<rparr>"
  obtain free' p' where run: "place_group no_crates sample_eval sample_job sample_state ?g
      (eligible_free sample_state, \<lparr>pl_allocs = []\<rparr>) = (free', p')" by fastforce
  have "length (pl_allocs (snd (place_group no_crates sample_eval sample_job sample_state ?g
      (eligible_free sample_state, \<lparr>pl_allocs = []\<rparr>)))) = 3" by code_simp
  then have len: "length (pl_allocs p') = 3" by (simp add: run)
  have cnt: "sint (tg_count ?g) = 7" by simp
  have "unique_nodes (eligible_free sample_state)" by (rule eligible_free_unique [OF sample_state_ok])
  from place_group_complete [OF this run] run len cnt show ?thesis by auto
qed

text \<open>C35. On the scored path each instance goes to a feasible node whose score no feasible node
  exceeds, and among nodes of that score to the first in the listing; the node's free capacity
  is reduced by the demand and exactly one allocation is added.\<close>

theorem scored_choice_maximal:
  assumes "unique_nodes free" and "scored_body X e j g need s (free, p) = Some (free', p')"
  shows "\<exists>i < length free. feasible X g need (free ! i) \<and>
    free' = free[i := (fst (free ! i), res_sub (snd (free ! i)) need)] \<and>
    pl_allocs p' = pl_allocs p @ [make_alloc e p j g need (nd_id (fst (free ! i)))] \<and>
    (\<forall>k < length free. feasible X g need (free ! k) \<longrightarrow>
       (let score = (\<lambda>k. score_node X (fst (free ! k)) (snd (free ! k)) need g (bonus_for g (fst (free ! k)) s))
        in score k < score i \<or> score k = score i \<and> i \<le> k))"
  using scored_body_Some [OF assms] by (auto simp: reserve_def grant_def)

definition affinity_group :: task_group where
  "affinity_group = sample_group\<lparr>tg_affinities :=
     [\<lparr>a_left = ''cpu.arch'', a_right = ''amd64'', a_operand = ''='', a_weight = 50\<rparr>]\<rparr>"

definition two_nodes :: free_list where
  "two_nodes = [(sample_node\<lparr>nd_id := ''n0'', nd_attributes := []\<rparr>, group_demand affinity_group),
                (sample_node, group_demand affinity_group)]"

theorem scored_choice_maximal_witness:
  "\<exists>free' p'. scored_body no_crates sample_eval sample_job affinity_group (group_demand affinity_group)
      sample_state (two_nodes, \<lparr>pl_allocs = []\<rparr>) = Some (free', p') \<and>
    map al_node_id (pl_allocs p') = [''n1''] \<and> length free' = 2"
proof -
  have "map_option (\<lambda>(free, p). map al_node_id (pl_allocs p)) (scored_body no_crates sample_eval sample_job
      affinity_group (group_demand affinity_group) sample_state (two_nodes, \<lparr>pl_allocs = []\<rparr>)) = Some [''n1'']"
    by code_simp
  then obtain free' p' where run: "scored_body no_crates sample_eval sample_job affinity_group
      (group_demand affinity_group) sample_state (two_nodes, \<lparr>pl_allocs = []\<rparr>) = Some (free', p')"
    and ids: "map al_node_id (pl_allocs p') = [''n1'']" by auto
  have "unique_nodes two_nodes" by (simp add: unique_nodes_def two_nodes_def sample_node_def)
  from scored_choice_maximal [OF this run] have "length free' = length two_nodes" by auto
  then have "length free' = 2" by (simp add: two_nodes_def)
  with run ids show ?thesis by simp
qed

text \<open>C34. In a well-formed state processing an evaluation never fails. Every placement of its plan
  can then be looked up under its identifier, an allocation under any other identifier is
  untouched, and the tables of jobs, nodes and evaluations stay as they were.\<close>

theorem process_and_apply_total:
  assumes "state_ok (fsm_state f)"
  shows "\<exists>p f'. process_and_apply X e f = (Inr p, f') \<and> p = process_eval X e (fsm_state f) \<and>
    (\<forall>a\<in>set (pl_allocs p). get_alloc (fsm_state f') (al_id a) = Some a) \<and>
    (\<forall>i. i \<notin> al_id ` set (pl_allocs p) \<longrightarrow> get_alloc (fsm_state f') i = get_alloc (fsm_state f) i) \<and>
    st_jobs (fsm_state f') = st_jobs (fsm_state f) \<and> st_nodes (fsm_state f') = st_nodes (fsm_state f) \<and>
    st_evals (fsm_state f') = st_evals (fsm_state f)"
proof -
  let ?p = "process_eval X e (fsm_state f)"
  obtain f' where run: "process_and_apply X e f = (Inr ?p, f')"
    and keep: "st_jobs (fsm_state f') = st_jobs (fsm_state f)" "st_nodes (fsm_state f') = st_nodes (fsm_state f)"
      "st_evals (fsm_state f') = st_evals (fsm_state f)"
    and allocs: "st_allocs (fsm_state f') = fold (\<lambda>a. hm_insert (al_id a) a) (pl_allocs ?p) (st_allocs (fsm_state f))"
    using process_and_apply_ok [OF assms] by blast
  have dist: "distinct (map al_id (pl_allocs ?p))"
  proof (cases "get_job (fsm_state f) (ev_job_id e)")
    case None
    then show ?thesis by (simp add: process_eval_def)
  next
    case (Some j)
    show ?thesis by (rule plan_ids_distinct [OF assms Some])
  qed
  have "hm_get (fold (\<lambda>a. hm_insert (al_id a) a) as m) i =
      (if i \<in> al_id ` set as then map_of (map (\<lambda>a. (al_id a, a)) as) i else hm_get m i)"
    if "distinct (map al_id as)" for as m i
    using that by (induction as arbitrary: m) auto
  from this [OF dist] have get: "get_alloc (fsm_state f') i =
      (if i \<in> al_id ` set (pl_allocs ?p) then map_of (map (\<lambda>a. (al_id a, a)) (pl_allocs ?p)) i
       else get_alloc (fsm_state f) i)" for i
    by (simp add: get_alloc_def allocs)
  have "map_of (map (\<lambda>a. (al_id a, a)) (pl_allocs ?p)) (al_id a) = Some a" if "a \<in> set (pl_allocs ?p)" for a
    using that dist by (intro map_of_is_SomeI) (auto simp: comp_def)
  with run keep get show ?thesis by auto
qed

theorem process_and_apply_total_witness:
  "\<exists>p f'. process_and_apply no_crates sample_eval sample_fsm = (Inr p, f') \<and>
    (\<forall>a\<in>set (pl_allocs p). get_alloc (fsm_state f') (al_id a) = Some a)"
  using process_and_apply_total [of sample_fsm no_crates sample_eval] sample_state_ok
  by (auto simp: sample_fsm_def)

text \<open>C11. Draining the queue terminates and succeeds: in a well-formed state with a live mutex every
  pending evaluation is processed and acknowledged, so that the heap is empty afterwards and
  only evaluations that were in flight before, under other identifiers, still are; the
  evaluations it parks as blocked come from the heap, and the cluster stays well formed. If it was
  within capacity and the demand of no stored task group overflows 32 bits (\<open>demands_fit\<close>,
  without which this fails: \<open>group_demand_wraps\<close>), it stays within capacity.\<close>

theorem drain_queue_complete:
  assumes "state_ok (fsm_state f)" and "\<not> q_poisoned q"
  shows "\<exists>n q' f'. drain_queue X clock q f = (Inr n, q', f') \<and> q_heap q' = [] \<and>
    q_in_flight q' = filter (\<lambda>(k, _). k \<notin> (\<lambda>pe. ev_id (pe_eval pe)) ` set (q_heap q)) (q_in_flight q) \<and>
    (\<exists>bs. q_blocked q' = q_blocked q @ bs \<and> set bs \<subseteq> pe_eval ` set (q_heap q)) \<and>
    state_ok (fsm_state f') \<and>
    (capacity_ok (fsm_state f) \<and> demands_fit (fsm_state f) \<longrightarrow> capacity_ok (fsm_state f'))"
  using drain_loop_ok [OF assms, of X clock 0 0] by (simp add: drain_queue_def drained_def)

theorem drain_queue_complete_witness:
  "\<exists>n q' f'. drain_queue no_crates (\<lambda>k. k) two_priorities sample_fsm = (Inr n, q', f') \<and>
     q_heap q' = [] \<and> capacity_ok (fsm_state f')"
  using drain_queue_complete [of sample_fsm two_priorities no_crates "\<lambda>k. k"] sample_state_ok
    sample_capacity_ok sample_demands_fit
  by (auto simp: sample_fsm_def two_priorities_eq)

definition heavy_task :: "string \<Rightarrow> task" where
  "heavy_task name = \<lparr>tk_name = name, tk_driver = ''raw_exec'', tk_config = [],
     tk_resources = \<lparr>cpu_mhz = 1073741824, memory_mb = 10, network_mbps = 0\<rparr>\<rparr>"

definition heavy_job :: job where
  "heavy_job = sample_job\<lparr>jb_task_groups :=
     [sample_group\<lparr>tg_count := 1, tg_tasks := [heavy_task ''a'', heavy_task ''b'']\<rparr>]\<rparr>"

text \<open>The demand of a group is summed in 32 bits and wraps: there is a job that passes
  validation, two tasks of 1073741824 MHz each, whose demand comes out negative in that
  dimension, so that it fits on a node with 1000 MHz and is placed there.\<close>

theorem group_demand_wraps:
  "job_validate heavy_job = Inr () \<and>
   sint (cpu_mhz (group_demand (hd (jb_task_groups heavy_job)))) = - 2147483648 \<and>
   map al_node_id (pl_allocs (process_eval no_crates sample_eval
      (sample_state\<lparr>st_jobs := [(''shop'', heavy_job)]\<rparr>))) = [''n1'']"
proof (intro conjI)
  show "job_validate heavy_job = Inr ()"
    by (simp add: jv.validate_iff job_ok_def task_group_ok_def task_ok_def resources_ok_def ball_dims
        heavy_job_def heavy_task_def sample_defs)
  show "sint (cpu_mhz (group_demand (hd (jb_task_groups heavy_job)))) = - 2147483648" by code_simp
  show "map al_node_id (pl_allocs (process_eval no_crates sample_eval
      (sample_state\<lparr>st_jobs := [(''shop'', heavy_job)]\<rparr>))) = [''n1'']" by code_simp
qed

text \<open>C40. A plan does not look at the allocations the job already has. Let a node be eligible, meet
  the constraints of every group of the evaluation's job and have room for the counts of all its
  groups together, let no group's demand overflow 32 bits, and let the identifiers of the plan be
  unused. Then processing the evaluation adds the whole count of every group to whatever the job
  has, so that a second evaluation of a fully placed job doubles it.\<close>

theorem evaluation_adds_whole_count:
  assumes "state_ok (fsm_state f)" and "get_job (fsm_state f) (ev_job_id e) = Some j"
    and "\<forall>g\<in>set (jb_task_groups j). demand_fits g \<and> meets_constraints X n g"
    and "n \<in> set (list_nodes (fsm_state f))" and "node_eligible n"
    and "\<forall>d\<in>dims. (\<Sum>g\<leftarrow>jb_task_groups j. max 0 (sint (tg_count g)) * sint (d (group_demand g)))
      \<le> sint (d (free_capacity n (fsm_state f)))"
    and "\<forall>i. get_alloc (fsm_state f) (ev_id e @ CHR ''-'' # show_nat i) = None"
  shows "\<exists>p f'. process_and_apply X e f = (Inr p, f') \<and>
    int (length (pl_allocs p)) = (\<Sum>g\<leftarrow>jb_task_groups j. max 0 (sint (tg_count g))) \<and>
    mset (allocs_by_job (fsm_state f') (jb_name j)) =
      mset (allocs_by_job (fsm_state f) (jb_name j)) + mset (pl_allocs p)"
proof -
  let ?p = "process_eval X e (fsm_state f)"
  obtain f' where run: "process_and_apply X e f = (Inr ?p, f')"
    and allocs: "st_allocs (fsm_state f') = fold (\<lambda>a. hm_insert (al_id a) a) (pl_allocs ?p) (st_allocs (fsm_state f))"
    using process_and_apply_ok [OF assms(1)] by blast
  obtain free where inv: "plan_inv X e j (fsm_state f) (free, ?p)" using process_eval_inv [OF assms(1,2)] by blast
  have ids: "map al_id (pl_allocs ?p) =
      map (\<lambda>i. ev_id e @ CHR ''-'' # show_nat i) [0..<length (pl_allocs ?p)]"
    using inv by (simp only: plan_inv_def split_conv)
  have fresh: "\<forall>a\<in>set (pl_allocs ?p). hm_get (st_allocs (fsm_state f)) (al_id a) = None"
  proof
    fix a assume "a \<in> set (pl_allocs ?p)"
    then have "al_id a \<in> set (map al_id (pl_allocs ?p))" by simp
    then obtain i where "al_id a = ev_id e @ CHR ''-'' # show_nat i" unfolding ids by auto
    with assms(7) show "hm_get (st_allocs (fsm_state f)) (al_id a) = None" by (simp add: get_alloc_def)
  qed
  have mine: "\<forall>a\<in>set (pl_allocs ?p). al_job_id a = jb_name j"
    using inv by (auto simp: plan_inv_def alloc_justified_def)
  have "mset (allocs_by_job (fsm_state f') (jb_name j)) =
      mset (allocs_by_job (fsm_state f) (jb_name j)) + mset (pl_allocs ?p)"
    using insert_fresh [OF fresh plan_ids_distinct [OF assms(1,2)], of "\<lambda>a. al_job_id a = jb_name j"] mine
    by (simp add: allocs_by_job_def allocs)
  with run process_eval_whole [OF assms(1-6)] show ?thesis by blast
qed

text \<open>The sample cluster with one instance wanted, after a first evaluation has placed it.\<close>

definition placed_fsm :: fsm where
  "placed_fsm = \<lparr>fsm_state = sample_state\<lparr>
     st_jobs := [(''shop'', sample_job\<lparr>jb_task_groups := [sample_group\<lparr>tg_count := 1\<rparr>]\<rparr>)],
     st_allocs := [(''e1-0'', \<lparr>al_id = ''e1-0'', al_eval_id = ''e1'', al_node_id = ''n1'', al_job_id = ''shop'',
        al_task_group = ''web'', al_desired_status = DRun, al_client_status = CPending,
        al_resources = group_demand sample_group\<rparr>)]\<rparr>\<rparr>"

theorem evaluation_adds_whole_count_witness:
  "\<exists>p f'. process_and_apply no_crates (sample_eval\<lparr>ev_id := ''e2''\<rparr>) placed_fsm = (Inr p, f') \<and>
     length (allocs_by_job (fsm_state placed_fsm) ''shop'') = 1 \<and> length (allocs_by_job (fsm_state f') ''shop'') = 2"
proof -
  let ?e = "sample_eval\<lparr>ev_id := ''e2''\<rparr>" and ?j = "sample_job\<lparr>jb_task_groups := [sample_group\<lparr>tg_count := 1\<rparr>]\<rparr>"
  have ok: "state_ok (fsm_state placed_fsm)"
    using sample_state_ok
    by (simp add: state_ok_def table_ok_def job_ok_def task_group_ok_def task_ok_def resources_ok_def
        ball_dims node_ok_def eval_ok_def alloc_ok_def sample_defs placed_fsm_def)
  have job: "get_job (fsm_state placed_fsm) (ev_job_id ?e) = Some ?j"
    by (simp add: get_job_def placed_fsm_def sample_eval_def)
  have groups: "\<forall>g\<in>set (jb_task_groups ?j). demand_fits g \<and> meets_constraints no_crates sample_node g"
    by (simp add: demand_fits_def meets_constraints_def sample_group_def ball_dims)
  have node: "sample_node \<in> set (list_nodes (fsm_state placed_fsm))" "node_eligible sample_node"
    by (simp_all add: list_nodes_def placed_fsm_def sample_state_def sample_node_def node_eligible_def)
  have room: "\<forall>d\<in>dims. (\<Sum>g\<leftarrow>jb_task_groups ?j. max 0 (sint (tg_count g)) * sint (d (group_demand g)))
      \<le> sint (d (free_capacity sample_node (fsm_state placed_fsm)))"
  proof -
    let ?have = "free_capacity sample_node (fsm_state placed_fsm)"
    have "sint (cpu_mhz (group_demand sample_group)) = 300" "sint (memory_mb (group_demand sample_group)) = 256"
      "sint (network_mbps (group_demand sample_group)) = 10"
      by code_simp+
    moreover have "300 \<le> sint (cpu_mhz ?have)" "256 \<le> sint (memory_mb ?have)" "10 \<le> sint (network_mbps ?have)"
      by code_simp+
    moreover have "group_demand (sample_group\<lparr>tg_count := 1\<rparr>) = group_demand sample_group" by (simp add: group_demand_def)
    ultimately show ?thesis by (simp add: ball_dims)
  qed
  have fresh: "\<forall>i. get_alloc (fsm_state placed_fsm) (ev_id ?e @ CHR ''-'' # show_nat i) = None"
    by (simp add: get_alloc_def placed_fsm_def)
  obtain p f' where run: "process_and_apply no_crates ?e placed_fsm = (Inr p, f')"
    and count: "int (length (pl_allocs p)) = 1"
    and more_allocs: "mset (allocs_by_job (fsm_state f') ''shop'') =
      mset (allocs_by_job (fsm_state placed_fsm) ''shop'') + mset (pl_allocs p)"
    using evaluation_adds_whole_count [OF ok job groups node room fresh] by (auto simp: sample_job_def)
  have one: "length (allocs_by_job (fsm_state placed_fsm) ''shop'') = 1"
    by (simp add: allocs_by_job_def placed_fsm_def)
  from arg_cong [OF more_allocs, of size] one count have "length (allocs_by_job (fsm_state f') ''shop'') = 2" by simp
  with run one show ?thesis by blast
qed

end
