(* ===== verification/Agent_Config.thy ===== *)
theory Agent_Config
  imports Disk
begin

text \<open>
  \<open>src/src/config.rs\<close>, the configuration part of \<open>src/src/main.rs\<close>, and \<open>src/src/cli.rs\<close>.
  The environment is a partial map from names to values; the TOML parser is an argument. A
  directory setting is kept as its text, the path of the configuration file as its components.
\<close>

section \<open>Log levels\<close>

datatype log_level = LError | LWarn | LInfo | LDebug | LTrace

fun log_level_as_str :: "log_level \<Rightarrow> string" where
  "log_level_as_str LError = ''error''"
| "log_level_as_str LWarn = ''warn''"
| "log_level_as_str LInfo = ''info''"
| "log_level_as_str LDebug = ''debug''"
| "log_level_as_str LTrace = ''trace''"

definition log_level_parse :: "string \<Rightarrow> log_level option" where
  "log_level_parse s =
     (let l = to_lowercase s
      in if l = ''error'' then Some LError
         else if l = ''warn'' \<or> l = ''warning'' then Some LWarn
         else if l = ''info'' then Some LInfo
         else if l = ''debug'' then Some LDebug
         else if l = ''trace'' then Some LTrace
         else None)"

lemma log_level_roundtrip: "log_level_parse (log_level_as_str l) = Some l"
  by (cases l) (simp_all add: log_level_parse_def to_lowercase_def lower_char_def)

section \<open>Configuration\<close>

record config =
  cf_data_dir :: string
  cf_log_dir :: string
  cf_log_level :: log_level
  cf_bind_addr :: string
  cf_datacenter :: string
  cf_node_name :: string
  cf_region :: string
  cf_config_file :: "path option"

type_synonym env = "string \<Rightarrow> string option"

definition unwrap_or :: "'a option \<Rightarrow> 'a \<Rightarrow> 'a" where
  "unwrap_or o' d = (case o' of None \<Rightarrow> d | Some x \<Rightarrow> x)"

lemma unwrap_or_simps [simp]: "unwrap_or None d = d" "unwrap_or (Some x) d = x"
  by (simp_all add: unwrap_or_def)

definition config_default :: "env \<Rightarrow> config" where
  "config_default env =
     \<lparr>cf_data_dir = ''/opt/nomad/data'', cf_log_dir = ''/opt/nomad/log'', cf_log_level = LInfo,
      cf_bind_addr = ''0.0.0.0:4646'', cf_datacenter = ''dc1'',
      cf_node_name = (case env ''HOSTNAME'' of Some h \<Rightarrow> h | None \<Rightarrow> unwrap_or (env ''HOST'') ''localhost''),
      cf_region = ''global'', cf_config_file = None\<rparr>"

definition from_file :: "(string \<Rightarrow> config result) \<Rightarrow> path \<Rightarrow> disk \<Rightarrow> config result \<times> disk" where
  "from_file toml p =
     sbind (fs_read_to_string p) (\<lambda>contents.
     sbind (slift (toml contents)) (\<lambda>config.
     slift (Inr (config\<lparr>cf_config_file := Some p\<rparr>))))"

definition merge_env :: "env \<Rightarrow> config \<Rightarrow> config" where
  "merge_env env c =
     \<lparr>cf_data_dir = unwrap_or (env ''NOMAD_DATA_DIR'') (cf_data_dir c),
      cf_log_dir = unwrap_or (env ''NOMAD_LOG_DIR'') (cf_log_dir c),
      cf_log_level = (case env ''NOMAD_LOG_LEVEL'' of
                        None \<Rightarrow> cf_log_level c
                      | Some v \<Rightarrow> unwrap_or (log_level_parse v) (cf_log_level c)),
      cf_bind_addr = unwrap_or (env ''NOMAD_BIND_ADDR'') (cf_bind_addr c),
      cf_datacenter = unwrap_or (env ''NOMAD_DATACENTER'') (cf_datacenter c),
      cf_node_name = unwrap_or (env ''NOMAD_NODE_NAME'') (cf_node_name c),
      cf_region = unwrap_or (env ''NOMAD_REGION'') (cf_region c),
      cf_config_file = cf_config_file c\<rparr>"

definition merge_cli ::
    "string option \<Rightarrow> string option \<Rightarrow> log_level option \<Rightarrow> string option \<Rightarrow> string option \<Rightarrow> string option
       \<Rightarrow> config \<Rightarrow> config" where
  "merge_cli data_dir log_dir level bind_addr node_name region c =
     c\<lparr>cf_data_dir := unwrap_or data_dir (cf_data_dir c),
       cf_log_dir := unwrap_or log_dir (cf_log_dir c),
       cf_log_level := unwrap_or level (cf_log_level c),
       cf_bind_addr := unwrap_or bind_addr (cf_bind_addr c),
       cf_node_name := unwrap_or node_name (cf_node_name c),
       cf_region := unwrap_or region (cf_region c)\<rparr>"

definition config_validate :: "config \<Rightarrow> unit result" where
  "config_validate c =
     and_then (guard_err (trim (cf_bind_addr c) = []) (Validation ''bind_addr must not be empty'')) (\<lambda>_.
     guard_err (cf_data_dir c = []) (Validation ''data_dir must not be empty''))"

definition config_ok :: "config \<Rightarrow> bool" where
  "config_ok c \<longleftrightarrow> trim (cf_bind_addr c) \<noteq> [] \<and> cf_data_dir c \<noteq> []"

interpretation cfg: validator config_validate config_ok
  by unfold_locales (auto simp: config_validate_def config_ok_def res_simps)

text \<open>
  The flags of the binary and what \<open>main\<close> makes of them: the configuration it starts with, or
  the error it exits with.
\<close>

record cli_flags =
  fl_config_file :: "path option"
  fl_data_dir :: "string option"
  fl_log_dir :: "string option"
  fl_log_level :: "string option"
  fl_bind_addr :: "string option"
  fl_node_name :: "string option"
  fl_region :: "string option"

definition main_load ::
    "(string \<Rightarrow> config result) \<Rightarrow> env \<Rightarrow> cli_flags \<Rightarrow> disk \<Rightarrow> config result \<times> disk" where
  "main_load toml env cli =
     sbind (case fl_config_file cli of
              Some p \<Rightarrow> from_file toml p
            | None \<Rightarrow> slift (Inr (config_default env))) (\<lambda>base.
     slift (Inr (merge_cli (fl_data_dir cli) (fl_log_dir cli)
                   (Option.bind (fl_log_level cli) log_level_parse)
                   (fl_bind_addr cli) (fl_node_name cli) (fl_region cli) (merge_env env base))))"

definition main_config ::
    "(string \<Rightarrow> config result) \<Rightarrow> env \<Rightarrow> cli_flags \<Rightarrow> disk \<Rightarrow> config result \<times> disk" where
  "main_config toml env cli =
     sbind (main_load toml env cli) (\<lambda>config.
     sbind (slift (config_validate config)) (\<lambda>_. slift (Inr config)))"

section \<open>Command lines\<close>

record parsed_command =
  pc_name :: string
  pc_args :: "string list"

definition commands :: "string list" where
  "commands = [''job'', ''node'', ''server'', ''alloc'', ''monitor'', ''agent'', ''status'']"

fun cli_parse :: "string list \<Rightarrow> parsed_command result" where
  "cli_parse [] = Inl (Config ''empty argv: no command provided'')"
| "cli_parse (first # rest) =
     (if first \<in> set commands then Inr \<lparr>pc_name = first, pc_args = rest\<rparr>
      else Inl (Config (''unknown command '' @ quoted first)))"

definition check_sub :: "string \<Rightarrow> string list \<Rightarrow> string \<Rightarrow> unit result" where
  "check_sub name subs sub =
     (if sub \<in> set subs then Inr ()
      else Inl (Config (''unknown '' @ name @ '' subcommand '' @ quoted sub)))"

definition validate_subcommand :: "string \<Rightarrow> string \<Rightarrow> unit result" where
  "validate_subcommand name sub =
     (if name = ''job'' then check_sub name [''run'', ''stop'', ''status'', ''inspect'', []] sub
      else if name = ''node'' then check_sub name [''status'', ''drain'', ''eligibility'', []] sub
      else if name = ''server'' then check_sub name [''members'', ''force-leave'', ''join'', []] sub
      else if name = ''alloc'' then check_sub name [''status'', ''logs'', ''exec'', []] sub
      else if name \<in> {''monitor'', ''agent'', ''status''} then Inr ()
      else Inl (Config (''unknown command '' @ quoted name)))"

section \<open>Properties\<close>

text \<open>The layers of one setting, the strongest first.\<close>

fun layered :: "'a option list \<Rightarrow> 'a \<Rightarrow> 'a" where
  "layered [] d = d"
| "layered (None # ls) d = layered ls d"
| "layered (Some x # ls) d = x"

text \<open>C38. Every setting comes from its strongest source: the command line, then the environment, then
  the configuration file or, without one, the default; the datacenter has no flag. A log level
  that does not parse counts as absent. The result is the configuration only if it validates.\<close>

theorem config_precedence:
  assumes "main_config toml env cli d = (Inr c, d')"
  shows "\<exists>base. (case fl_config_file cli of
        None \<Rightarrow> base = config_default env
      | Some p \<Rightarrow> fst (from_file toml p d) = Inr base \<and> cf_config_file base = Some p) \<and>
    cf_data_dir c = layered [fl_data_dir cli, env ''NOMAD_DATA_DIR''] (cf_data_dir base) \<and>
    cf_log_dir c = layered [fl_log_dir cli, env ''NOMAD_LOG_DIR''] (cf_log_dir base) \<and>
    cf_log_level c = layered [Option.bind (fl_log_level cli) log_level_parse,
        Option.bind (env ''NOMAD_LOG_LEVEL'') log_level_parse] (cf_log_level base) \<and>
    cf_bind_addr c = layered [fl_bind_addr cli, env ''NOMAD_BIND_ADDR''] (cf_bind_addr base) \<and>
    cf_node_name c = layered [fl_node_name cli, env ''NOMAD_NODE_NAME''] (cf_node_name base) \<and>
    cf_region c = layered [fl_region cli, env ''NOMAD_REGION''] (cf_region base) \<and>
    cf_datacenter c = layered [env ''NOMAD_DATACENTER''] (cf_datacenter base) \<and>
    cf_config_file c = cf_config_file base \<and> config_ok c"
proof -
  have lay: "layered [a] x = unwrap_or a x" "layered [b, a] x = unwrap_or b (unwrap_or a x)" for a b :: "'z option" and x
    by (cases a; cases b; simp)+
  from assms obtain base d1 where
    src: "(case fl_config_file cli of Some p \<Rightarrow> from_file toml p | None \<Rightarrow> slift (Inr (config_default env))) d = (Inr base, d1)"
    and c: "c = merge_cli (fl_data_dir cli) (fl_log_dir cli) (Option.bind (fl_log_level cli) log_level_parse)
                    (fl_bind_addr cli) (fl_node_name cli) (fl_region cli) (merge_env env base)"
    and ok: "config_validate c = Inr ()"
    by (auto simp: main_config_def main_load_def sbind_Inr)
  have "case fl_config_file cli of
        None \<Rightarrow> base = config_default env
      | Some p \<Rightarrow> fst (from_file toml p d) = Inr base \<and> cf_config_file base = Some p"
  proof (cases "fl_config_file cli")
    case (Some p)
    with src have "from_file toml p d = (Inr base, d1)" by simp
    moreover from this have "cf_config_file base = Some p" by (auto simp: from_file_def sbind_Inr)
    ultimately show ?thesis by (simp add: Some)
  qed (use src in simp)
  with ok c show ?thesis
    by (intro exI [of _ base])
      (simp add: lay cfg.validate_iff merge_cli_def merge_env_def split: option.split)
qed

theorem config_precedence_witness:
  "\<exists>c d'. main_config (\<lambda>_. Inl (TomlParse [])) [''NOMAD_REGION'' \<mapsto> ''eu'', ''NOMAD_LOG_LEVEL'' \<mapsto> ''DEBUG'']
      \<lparr>fl_config_file = None, fl_data_dir = None, fl_log_dir = None, fl_log_level = Some ''loud'',
       fl_bind_addr = None, fl_node_name = None, fl_region = Some ''us''\<rparr>
      \<lparr>files = Map.empty, faults = (\<lambda>_. None), ops = 0\<rparr> = (Inr c, d') \<and>
    cf_region c = ''us'' \<and> cf_log_level c = LDebug"
proof -
  let ?env = "[''NOMAD_REGION'' \<mapsto> ''eu'', ''NOMAD_LOG_LEVEL'' \<mapsto> ''DEBUG'']"
  let ?cli = "\<lparr>fl_config_file = None, fl_data_dir = None, fl_log_dir = None, fl_log_level = Some ''loud'',
       fl_bind_addr = None, fl_node_name = None, fl_region = Some ''us''\<rparr>"
  let ?d = "\<lparr>files = Map.empty, faults = (\<lambda>_. None), ops = 0\<rparr>"
  have "trim ''0.0.0.0:4646'' = ''0.0.0.0:4646''" by code_simp
  then obtain c d' where run: "main_config (\<lambda>_. Inl (TomlParse [])) ?env ?cli ?d = (Inr c, d')"
    by (simp add: main_config_def main_load_def sbind_def slift_def config_default_def merge_env_def merge_cli_def
        config_validate_def guard_err_def)
  have "log_level_parse ''loud'' = None" "log_level_parse ''DEBUG'' = Some LDebug" by code_simp+
  with config_precedence [OF run] run show ?thesis by auto
qed

text \<open>A command line is accepted exactly when its first word is a known command; the rest is passed
  on unchanged, and the two errors name what was wrong.\<close>

theorem cli_parse_behaviour:
  "(cli_parse argv = Inr p \<longleftrightarrow> pc_name p \<in> set commands \<and> argv = pc_name p # pc_args p) \<and>
   (cli_parse argv = Inl e \<longleftrightarrow>
      (argv = [] \<and> e = Config ''empty argv: no command provided'') \<or>
      (\<exists>x xs. argv = x # xs \<and> x \<notin> set commands \<and> e = Config (''unknown command '' @ quoted x)))"
  by (cases argv) auto

end
