(* ===== verification/Server.thy ===== *)
theory Server
  imports Rpc Scheduler Agent_Config
begin

text \<open>
  \<open>src/src/server.rs\<close> with the lifecycles of \<open>src/src/client.rs\<close>, \<open>src/src/agent.rs\<close> and
  the \<open>Scheduler\<close> struct of \<open>src/src/scheduler.rs\<close>. The background worker is a state machine:
  one step for each time it takes the lock of the consensus node or of the queue, so that
  requests may be handled between any two of them.
\<close>

section \<open>Lifecycles\<close>

datatype agent_status = Initialized | Running | Stopped

record scheduler =
  sc_status :: agent_status

definition scheduler_new :: scheduler where
  "scheduler_new = \<lparr>sc_status = Initialized\<rparr>"

definition scheduler_is_running :: "scheduler \<Rightarrow> bool" where
  "scheduler_is_running s \<longleftrightarrow> sc_status s = Running"

definition scheduler_run :: "scheduler \<Rightarrow> unit result \<times> scheduler" where
  "scheduler_run s = (Inr (), if sc_status s = Running then s else s\<lparr>sc_status := Running\<rparr>)"

definition scheduler_stop :: "scheduler \<Rightarrow> scheduler" where
  "scheduler_stop s = s\<lparr>sc_status := Stopped\<rparr>"

record client =
  ca_config :: config
  ca_status :: agent_status

definition client_new :: "config \<Rightarrow> client" where
  "client_new c = \<lparr>ca_config = c, ca_status = Initialized\<rparr>"

definition client_is_running :: "client \<Rightarrow> bool" where
  "client_is_running c \<longleftrightarrow> ca_status c = Running"

definition client_run :: "client \<Rightarrow> unit result \<times> client" where
  "client_run c = (Inr (), if ca_status c = Running then c else c\<lparr>ca_status := Running\<rparr>)"

definition client_stop :: "client \<Rightarrow> client" where
  "client_stop c = c\<lparr>ca_status := Stopped\<rparr>"

record server =
  sv_config :: config
  sv_status :: agent_status
  sv_raft :: raft_node
  sv_queue :: eval_queue
  sv_shutdown :: bool
  sv_worker :: bool

definition server_new :: "config \<Rightarrow> server" where
  "server_new c =
     \<lparr>sv_config = c, sv_status = Initialized, sv_raft = raft_bootstrap (cf_node_name c),
      sv_queue = queue_new, sv_shutdown = False, sv_worker = False\<rparr>"

definition server_is_running :: "server \<Rightarrow> bool" where
  "server_is_running s \<longleftrightarrow> sv_status s = Running"

definition server_endpoint :: "server \<Rightarrow> endpoint" where
  "server_endpoint s = with_raft (sv_queue s) (sv_raft s)"

definition server_run :: "server \<Rightarrow> unit result \<times> server" where
  "server_run s =
     (Inr (), if sv_status s = Running then s
              else s\<lparr>sv_shutdown := False, sv_status := Running, sv_worker := True\<rparr>)"

definition server_stop :: "server \<Rightarrow> server" where
  "server_stop s = s\<lparr>sv_shutdown := True, sv_worker := False, sv_status := Stopped\<rparr>"

record agent =
  ag_config :: config
  ag_client :: "client option"
  ag_server :: "server option"
  ag_status :: agent_status

definition agent_new :: "config \<Rightarrow> agent" where
  "agent_new c = \<lparr>ag_config = c, ag_client = None, ag_server = None, ag_status = Initialized\<rparr>"

definition agent_stop :: "agent \<Rightarrow> agent" where
  "agent_stop a =
     (if ag_status a \<noteq> Running then a\<lparr>ag_status := Stopped\<rparr>
      else a\<lparr>ag_client := map_option client_stop (ag_client a),
             ag_server := map_option server_stop (ag_server a), ag_status := Stopped\<rparr>)"

text \<open>
  \<open>signals\<close> is the outcome of registering the signal handlers, \<open>during\<close> what the requests and
  the worker do to the server until a signal arrives.
\<close>

definition agent_run :: "unit result \<Rightarrow> (server \<Rightarrow> server) \<Rightarrow> agent \<Rightarrow> unit result \<times> agent" where
  "agent_run signals during a =
     (if ag_status a = Running then (Inr (), a)
      else
        case client_run (client_new (ag_config a)) of
          (Inl e, _) \<Rightarrow> (Inl e, a)
        | (Inr _, c) \<Rightarrow>
            (case server_run (server_new (ag_config a)) of
               (Inl e, _) \<Rightarrow> (Inl e, a)
             | (Inr _, s) \<Rightarrow>
                 let a1 = a\<lparr>ag_client := Some c, ag_server := Some s, ag_status := Running\<rparr>
                 in case signals of
                      Inl e \<Rightarrow> (Inl e, a1)
                    | Inr _ \<Rightarrow> (Inr (), agent_stop (a1\<lparr>ag_server := Some (during s)\<rparr>))))"

section \<open>The scheduler worker\<close>

text \<open>One minute in nanoseconds.\<close>

definition VISIBILITY :: nat where "VISIBILITY = 60 * 1000000000"

datatype worker_pc =
    W_Top
  | W_Reap
  | W_Dequeue
  | W_Plan evaluation
  | W_Commit evaluation plan
  | W_Check evaluation
  | W_Block evaluation
  | W_Ack evaluation
  | W_Nack evaluation
  | W_Exit

fun propose_all :: "allocation list \<Rightarrow> raft_node \<Rightarrow> unit result \<times> raft_node" where
  "propose_all [] r = (Inr (), r)"
| "propose_all (a # as) r =
     (case propose (UpsertAlloc a) r of (Inl e, r') \<Rightarrow> (Inl e, r') | (Inr _, r') \<Rightarrow> propose_all as r')"

fun worker_step ::
    "'v crates \<Rightarrow> (eval_id \<Rightarrow> nat) \<Rightarrow> nat \<Rightarrow> bool \<Rightarrow> worker_pc \<Rightarrow> raft_node \<times> eval_queue
       \<Rightarrow> worker_pc \<times> raft_node \<times> eval_queue" where
  "worker_step X clock now shutdown W_Top (r, q) =
     (if shutdown then W_Exit else if \<not> is_leader r then W_Top else W_Reap, r, q)"
| "worker_step X clock now shutdown W_Reap (r, q) =
     (W_Dequeue, r, snd (reap_expired clock VISIBILITY q))"
| "worker_step X clock now shutdown W_Dequeue (r, q) =
     (case dequeue now q of
        (Inr (Some e), q') \<Rightarrow> (W_Plan e, r, q')
      | (Inr None, q') \<Rightarrow> (W_Top, r, q')
      | (Inl _, q') \<Rightarrow> (W_Exit, r, q'))"
| "worker_step X clock now shutdown (W_Plan e) (r, q) =
     (W_Commit e (process_eval X e (raft_state r)), r, q)"
| "worker_step X clock now shutdown (W_Commit e p) (r, q) =
     (case propose_all (pl_allocs p) r of
        (Inr _, r') \<Rightarrow> (if pl_allocs p = [] then W_Check e else W_Ack e, r', q)
      | (Inl _, r') \<Rightarrow> (W_Nack e, r', q))"
| "worker_step X clock now shutdown (W_Check e) (r, q) =
     (if 0 < sint (desired_count e (raft_state r)) then W_Block e else W_Ack e, r, q)"
| "worker_step X clock now shutdown (W_Block e) (r, q) = (W_Ack e, r, snd (block e q))"
| "worker_step X clock now shutdown (W_Ack e) (r, q) = (W_Top, r, snd (ack (ev_id e) q))"
| "worker_step X clock now shutdown (W_Nack e) (r, q) = (W_Top, r, snd (nack (ev_id e) q))"
| "worker_step X clock now shutdown W_Exit (r, q) = (W_Exit, r, q)"

section \<open>The server with its worker and its clients\<close>

text \<open>
  The steps of a server and its worker task: the worker moves, a request is handled, the server
  is stopped (the task ends at once when it sleeps, and otherwise at its next turn), or it is
  started while no task runs. A node that is registered again never offers less than before, and
  no registered group's demand overflows: without these two conditions the capacity of a node
  cannot be kept by anyone.
\<close>

record system =
  sy_server :: server
  sy_task :: worker_pc

definition benign :: "request \<Rightarrow> state_store \<Rightarrow> bool" where
  "benign req s =
     (case req of
        Req_JobRegister j \<Rightarrow> list_all demand_fits (jb_task_groups j)
      | Req_NodeRegister n \<Rightarrow>
          resources_ok (nd_resources n) \<and>
          (case get_node s (nd_id n) of
             None \<Rightarrow> True
           | Some m \<Rightarrow> fits (nd_resources n) (nd_resources m))
      | _ \<Rightarrow> True)"

inductive system_step :: "'v crates \<Rightarrow> system \<Rightarrow> system \<Rightarrow> bool" for X where
  work: "worker_step X clock now (sv_shutdown (sy_server y)) (sy_task y)
           (sv_raft (sy_server y), sv_queue (sy_server y)) = (pc, r, q) \<Longrightarrow>
         system_step X y (y\<lparr>sy_server := (sy_server y)\<lparr>sv_raft := r, sv_queue := q\<rparr>, sy_task := pc\<rparr>)"
| request: "\<lbrakk>handle inst nanos req (server_endpoint (sy_server y)) = (resp, ep);
             benign req (raft_state (sv_raft (sy_server y)))\<rbrakk> \<Longrightarrow>
         system_step X y (y\<lparr>sy_server := (sy_server y)\<lparr>sv_raft := ep_raft ep, sv_queue := ep_queue ep\<rparr>\<rparr>)"
| stop: "system_step X y (y\<lparr>sy_server := server_stop (sy_server y),
                            sy_task := (if sy_task y = W_Top then W_Exit else sy_task y)\<rparr>)"
| start: "\<lbrakk>sy_task y = W_Exit; sv_status (sy_server y) \<noteq> Running\<rbrakk> \<Longrightarrow>
         system_step X y (y\<lparr>sy_server := snd (server_run (sy_server y)), sy_task := W_Top\<rparr>)"

definition system_init :: "system \<Rightarrow> bool" where
  "system_init y \<longleftrightarrow> (\<exists>c. sy_server y = server_new c) \<and> sy_task y = W_Exit"

section \<open>What a request does to the two parts\<close>

fun request_command :: "request \<Rightarrow> command option" where
  "request_command (Req_JobRegister j) = Some (UpsertJob j)"
| "request_command (Req_JobDeregister name) = Some (DeregisterJob name)"
| "request_command (Req_NodeRegister n) = Some (UpsertNode n)"
| "request_command (Req_EvalDequeue _) = None"

lemma commit_parts:
  assumes "commit c ep = (r, ep')"
  shows "ep_queue ep' = ep_queue ep \<and> (ep_raft ep' = ep_raft ep \<or> ep_raft ep' = snd (propose c (ep_raft ep)))"
  using assms by (auto simp: commit_def split: if_splits prod.splits sum.splits)

definition queue_moves :: "eval_queue \<Rightarrow> eval_queue \<Rightarrow> bool" where
  "queue_moves q q' \<longleftrightarrow> q' = q \<or> (\<exists>op. q' = snd (queue_exec op q))"

lemma queue_moves_refl [simp]: "queue_moves q q"
  by (simp add: queue_moves_def)

lemma queue_moves_ops [simp]:
  "queue_moves q (snd (enqueue e q))" "queue_moves q (snd (ack i q))" "queue_moves q (snd (nack i q))"
  "queue_moves q (snd (reap_expired clock timeout q))" "queue_moves q (snd (block e q))"
  "queue_moves q (snd (unblock_all q))"
  unfolding queue_moves_def by (metis queue_exec.simps snd_conv)+

lemma queue_moves_dequeue [simp]: "queue_moves q (snd (dequeue now q))"
  unfolding queue_moves_def
  by (rule disjI2, rule exI [of _ "Dequeue now"]) (auto split: prod.split sum.split option.split)

lemma queue_moves_delivery: "\<lbrakk>queue_moves q q'; delivery_ok q\<rbrakk> \<Longrightarrow> delivery_ok q'"
  using queue_exec_credit by (auto simp: queue_moves_def)

lemma committing_parts:
  assumes "committing c rest ep = (r, ep')"
    and "\<And>ep1 r1 ep2. rest ep1 = (r1, ep2) \<Longrightarrow> ep_raft ep2 = ep_raft ep1 \<and> queue_moves (ep_queue ep1) (ep_queue ep2)"
  shows "(ep_raft ep' = ep_raft ep \<or> ep_raft ep' = snd (propose c (ep_raft ep))) \<and>
    queue_moves (ep_queue ep) (ep_queue ep')"
proof -
  obtain r1 ep1 where cm: "commit c ep = (r1, ep1)" by fastforce
  show ?thesis
  proof (cases "r1 = Inr None")
    case True
    with assms(1) cm have "rest ep1 = (r, ep')" by (simp add: committing_def sbind_def)
    from assms(2) [OF this] commit_parts [OF cm] show ?thesis by auto
  next
    case False
    with assms(1) cm have "ep' = ep1"
      by (auto simp: committing_def sbind_def slift_def split: sum.splits option.splits)
    with commit_parts [OF cm] show ?thesis by simp
  qed
qed

lemma on_queue_parts:
  "\<lbrakk>on_queue m ep = (r, ep'); queue_moves (ep_queue ep) (snd (m (ep_queue ep)))\<rbrakk> \<Longrightarrow>
     ep_raft ep' = ep_raft ep \<and> queue_moves (ep_queue ep) (ep_queue ep')"
  by (auto simp: on_queue_def split: prod.splits)

lemma sbind_on_queue_parts:
  "\<lbrakk>sbind (on_queue m) (\<lambda>x. slift (f x)) ep = (r, ep'); queue_moves (ep_queue ep) (snd (m (ep_queue ep)))\<rbrakk> \<Longrightarrow>
     ep_raft ep' = ep_raft ep \<and> queue_moves (ep_queue ep) (ep_queue ep')"
  by (auto simp: sbind_def slift_def on_queue_def split: prod.splits sum.splits)

lemma handle_parts:
  assumes "handle inst nanos req ep = (r, ep')"
  shows "(ep_raft ep' = ep_raft ep \<or>
      (\<exists>c. request_command req = Some c \<and> ep_raft ep' = snd (propose c (ep_raft ep)))) \<and>
    queue_moves (ep_queue ep) (ep_queue ep')"
proof (cases req)
  case (Req_JobRegister j)
  show ?thesis
  proof (cases "job_validate j")
    case (Inl e)
    with assms Req_JobRegister show ?thesis by (simp add: sbind_def slift_def)
  next
    case (Inr u)
    with assms Req_JobRegister show ?thesis
      by (auto simp: sbind_def [of "slift _"] slift_def [of "Inr ()"] Let_def
          dest!: committing_parts dest: sbind_on_queue_parts)
  qed
next
  case (Req_JobDeregister name)
  with assms show ?thesis by (auto dest!: committing_parts dest: sbind_on_queue_parts)
next
  case (Req_NodeRegister n)
  with assms show ?thesis by (auto dest!: committing_parts dest: sbind_on_queue_parts)
next
  case (Req_EvalDequeue ss)
  with assms show ?thesis by (auto dest!: sbind_on_queue_parts)
qed

section \<open>The invariant of the running system\<close>

definition registered :: "state_store \<Rightarrow> allocation list \<Rightarrow> bool" where
  "registered s as \<longleftrightarrow> (\<forall>a\<in>set as. get_node s (al_node_id a) \<noteq> None)"

definition room_for :: "state_store \<Rightarrow> allocation list \<Rightarrow> bool" where
  "room_for s as \<longleftrightarrow> nonneg_allocs as \<and> registered s as \<and> (\<forall>a\<in>set as. alloc_ok a) \<and>
     (\<forall>n\<in>set (list_nodes s). \<forall>d\<in>dims.
        used d (nd_id n) as + used d (nd_id n) (list_allocs s) \<le> sint (d (nd_resources n)))"

definition store_inv :: "state_store \<Rightarrow> bool" where
  "store_inv s \<longleftrightarrow> state_ok s \<and> capacity_ok s \<and> demands_fit s \<and> registered s (list_allocs s)"

lemma process_eval_room:
  assumes "store_inv s"
  shows "room_for s (pl_allocs (process_eval X e s))"
proof (cases "get_job s (ev_job_id e)")
  case None
  with assms show ?thesis
    by (simp add: process_eval_def room_for_def nonneg_allocs_def registered_def store_inv_def capacity_ok_def)
next
  case (Some j)
  have inv: "state_ok s" "capacity_ok s" "\<forall>g\<in>set (jb_task_groups j). demand_fits g"
    using assms Some by (auto simp: store_inv_def demands_fit_def)
  obtain free where p: "plan_inv X e j s (free, process_eval X e s)" "account_inv s (free, process_eval X e s)"
    using process_eval_account [OF inv(1) Some inv(3)] by blast
  have "get_node s (nd_id n) \<noteq> None" if "n \<in> set (list_nodes s)" for n
    using that nodes.listing_iff [OF inv(1), of n] by simp
  then have "registered s (pl_allocs (process_eval X e s))"
    using p(1) by (auto simp: registered_def plan_inv_def alloc_justified_def)
  then show ?thesis
    using p(2) plan_allocs_ok [OF inv(1)] plan_fits_nodes [OF inv(1,2) Some inv(3)]
    by (auto simp: room_for_def account_inv_def)
qed

lemma upsert_node_frame:
  assumes "node_ok n"
  shows "list_allocs (snd (upsert_node n s)) = list_allocs s" "get_job (snd (upsert_node n s)) = get_job s"
  using upsert_node_cases [of n s] assms by (auto simp: list_allocs_def get_job_def)

lemma room_for_register:
  assumes ok: "state_ok s" and room: "room_for s as" and reg: "registered s (list_allocs s)"
    and nn: "nonneg_allocs (list_allocs s)" and n: "node_ok n" "benign (Req_NodeRegister n) s"
  shows "room_for (snd (upsert_node n s)) as"
proof -
  let ?s = "snd (upsert_node n s)"
  have get: "get_node ?s = (get_node s)(nd_id n \<mapsto> n)"
    using nodes.get_after_upsert [OF n(1), of s] by (auto simp: fun_eq_iff)
  have nodes: "set (list_nodes ?s) = insert n {x \<in> set (list_nodes s). nd_id x \<noteq> nd_id n}"
    by (rule nodes.listing_after_upsert [OF ok n(1)])
  have new: "used d (nd_id n) as + used d (nd_id n) (list_allocs s) \<le> sint (d (nd_resources n))"
    if d: "d \<in> dims" for d
  proof (cases "get_node s (nd_id n)")
    case None
    then have "\<forall>a\<in>set as. al_node_id a \<noteq> nd_id n" "\<forall>a\<in>set (list_allocs s). al_node_id a \<noteq> nd_id n"
      using room reg by (auto simp: room_for_def registered_def)
    then show ?thesis
      using n(2) d by (simp add: used_elsewhere benign_def resources_ok_def)
  next
    case (Some m)
    then have m: "m \<in> set (list_nodes s)" "nd_id m = nd_id n"
      using nodes.get_wf [OF ok Some] nodes.listing_iff [OF ok, of m] by auto
    have "sint (d (nd_resources m)) \<le> sint (d (nd_resources n))"
      using n(2) Some d by (simp add: benign_def fits_iff)
    with room m d show ?thesis by (fastforce simp: room_for_def)
  qed
  show ?thesis
    using room new by (auto simp: room_for_def upsert_node_frame [OF n(1)] nodes get registered_def)
qed

lemma store_inv_iff_room:
  "store_inv s \<longleftrightarrow> state_ok s \<and> demands_fit s \<and> registered s (list_allocs s) \<and>
     nonneg_allocs (list_allocs s) \<and> room_for s []"
  by (auto simp: store_inv_def capacity_ok_def room_for_def nonneg_allocs_def registered_def)

lemma store_inv_frame:
  assumes "store_inv s" and "room_for s as" and "state_ok s'" and "demands_fit s'"
    and "list_nodes s' = list_nodes s" and "list_allocs s' = list_allocs s" and "get_node s' = get_node s"
  shows "store_inv s' \<and> room_for s' as"
  using assms unfolding store_inv_def capacity_ok_def room_for_def registered_def assms(5-7) by blast

lemma store_inv_jobs:
  assumes "store_inv s" "room_for s as"
    and "state_ok (s\<lparr>st_jobs := js\<rparr>)" "demands_fit (s\<lparr>st_jobs := js\<rparr>)"
  shows "store_inv (s\<lparr>st_jobs := js\<rparr>) \<and> room_for (s\<lparr>st_jobs := js\<rparr>) as"
  by (rule store_inv_frame [OF assms]) (simp_all add: list_nodes_def list_allocs_def get_node_def)

text \<open>A benign command keeps the store invariant and the room for a plan made before it.\<close>

lemma benign_command:
  assumes inv: "store_inv s" and room: "room_for s as" and b: "benign req s"
    and c: "request_command req = Some c"
  shows "store_inv (snd (state_apply c s)) \<and> room_for (snd (state_apply c s)) as"
proof -
  have ok: "state_ok (snd (state_apply c s))" using inv by (simp add: store_inv_def state_apply_ok)
  show ?thesis
  proof (cases "command_ok c s")
    case False
    then obtain e where "fst (state_apply c s) = Inl e"
      using state_apply_iff [of c s] by (cases "fst (state_apply c s)") auto
    then show ?thesis using inv room state_apply_failed [of c s e] by simp
  next
    case good: True
    show ?thesis
    proof (cases req)
      case (Req_JobRegister j)
      then have cj: "c = UpsertJob j" "job_ok j" using c good by (auto simp: command_ok_def)
      from upsert_job_cases [of j s] cj have s': "snd (state_apply c s) = s\<lparr>st_jobs := hm_insert (jb_name j) j (st_jobs s)\<rparr>"
        by auto
      have "demands_fit (snd (state_apply c s))"
        using inv b Req_JobRegister
        by (auto simp: s' demands_fit_def store_inv_def get_job_def benign_def list_all_iff)
      with ok show ?thesis
        unfolding s' by (intro store_inv_jobs [OF inv room])
    next
      case (Req_JobDeregister name)
      then have cn: "c = DeregisterJob name" "get_job s name \<noteq> None" using c good by (auto simp: command_ok_def)
      then have s': "snd (state_apply c s) = s\<lparr>st_jobs := hm_remove name (st_jobs s)\<rparr>"
        by (auto simp: delete_job_def get_job_def)
      have "demands_fit (snd (state_apply c s))"
        using inv by (auto simp: s' demands_fit_def store_inv_def get_job_def)
      with ok show ?thesis
        unfolding s' by (intro store_inv_jobs [OF inv room])
    next
      case (Req_NodeRegister n)
      then have cn: "c = UpsertNode n" "node_ok n" using c good by (auto simp: command_ok_def)
      have s: "state_ok s" "registered s (list_allocs s)" "nonneg_allocs (list_allocs s)" "room_for s []"
        using inv by (simp_all add: store_inv_iff_room)
      have reg: "registered (snd (upsert_node n s)) (list_allocs s)"
        using s(2) nodes.get_after_upsert [OF cn(2), of s] by (auto simp: registered_def)
      show ?thesis
        using room_for_register [OF s(1) room s(2,3) cn(2)] room_for_register [OF s(1,4,2,3) cn(2)]
          b Req_NodeRegister inv ok s reg
        by (simp add: cn store_inv_iff_room upsert_node_frame demands_fit_def)
    next
      case (Req_EvalDequeue x)
      with c show ?thesis by simp
    qed
  qed
qed

lemma propose_all_ok:
  assumes "\<forall>a\<in>set as. alloc_ok a" and "is_leader r" and "raft_inv r"
  shows "\<exists>r'. propose_all as r = (Inr (), r') \<and> is_leader r' \<and> raft_inv r' \<and>
    raft_state r' = (raft_state r)\<lparr>st_allocs := fold (\<lambda>a. hm_insert (al_id a) a) as (st_allocs (raft_state r))\<rparr>"
  using assms
proof (induction as arbitrary: r)
  case (Cons a as)
  have "command_ok (UpsertAlloc a) (raft_state r)" using Cons.prems by (simp add: command_ok_def)
  then obtain r1 where run: "propose (UpsertAlloc a) r = (Inr (), r1)"
    using propose_ok_iff [of "UpsertAlloc a" r] Cons.prems(2) by (metis prod.collapse)
  then obtain s where s: "state_apply (UpsertAlloc a) (raft_state r) = (Inr (), s)" "raft_state r1 = s" "rn_role r1 = rn_role r"
    by (rule propose_ok_cases)
  have "raft_state r1 = (raft_state r)\<lparr>st_allocs := hm_insert (al_id a) a (st_allocs (raft_state r))\<rparr>"
    using s upsert_alloc_cases [of a "raft_state r"] by auto
  moreover have "is_leader r1" "raft_inv r1"
    using Cons.prems s(3) raft_inv_propose [of r "UpsertAlloc a"] run by (simp_all add: is_leader_def)
  ultimately show ?case
    using Cons.IH [of r1] Cons.prems(1) run by simp
qed simp

lemma commit_room:
  assumes inv: "store_inv s" and room: "room_for s as"
    and s': "s' = s\<lparr>st_allocs := fold (\<lambda>a. hm_insert (al_id a) a) as (st_allocs s)\<rparr>" and ok: "state_ok s'"
  shows "store_inv s'"
proof -
  have frame: "list_nodes s' = list_nodes s" "get_node s' = get_node s" "get_job s' = get_job s"
    by (simp_all add: s' list_nodes_def get_node_def get_job_def)
  have nn: "nonneg_allocs (hm_values (st_allocs s))" "nonneg_allocs as"
    using inv room by (simp_all add: store_inv_iff_room room_for_def list_allocs_def)
  have fold: "nonneg_allocs (list_allocs s')"
    "\<And>d n. d \<in> dims \<Longrightarrow> used d n (list_allocs s') \<le> used d n (list_allocs s) + used d n as"
    using used_fold_insert [OF nn] by (auto simp: s' list_allocs_def)
  have "capacity_ok s'"
    unfolding capacity_ok_def
  proof (intro conjI ballI)
    fix n d assume nd: "n \<in> set (list_nodes s')" "d \<in> dims"
    have "used d (nd_id n) as + used d (nd_id n) (list_allocs s) \<le> sint (d (nd_resources n))"
      using room nd by (simp add: room_for_def frame)
    with fold(2) [OF nd(2), of "nd_id n"] show "used d (nd_id n) (list_allocs s') \<le> sint (d (nd_resources n))"
      by linarith
  qed (rule fold(1))
  moreover have "set (hm_values (fold (\<lambda>a. hm_insert (al_id a) a) as m)) \<subseteq> set (hm_values m) \<union> set as" for m
  proof (induction as arbitrary: m)
    case (Cons a as)
    have "set (hm_values (hm_insert (al_id a) a m)) \<subseteq> insert a (set (hm_values m))"
      by (induction m) auto
    with Cons.IH [of "hm_insert (al_id a) a m"] show ?case by auto
  qed simp
  then have "registered s' (list_allocs s')"
  proof -
    assume sub: "\<And>m. set (hm_values (fold (\<lambda>a. hm_insert (al_id a) a) as m)) \<subseteq> set (hm_values m) \<union> set as"
    have "set (list_allocs s') \<subseteq> set (list_allocs s) \<union> set as"
      using sub [of "st_allocs s"] by (simp add: s' list_allocs_def)
    then show ?thesis
      using inv room unfolding registered_def frame store_inv_def room_for_def by blast
  qed
  ultimately show ?thesis
    using inv ok by (simp add: store_inv_def demands_fit_def frame)
qed

fun pc_room :: "state_store \<Rightarrow> worker_pc \<Rightarrow> bool" where
  "pc_room s (W_Commit e p) = room_for s (pl_allocs p)"
| "pc_room s _ = True"

definition system_inv :: "system \<Rightarrow> bool" where
  "system_inv y \<longleftrightarrow>
     raft_inv (sv_raft (sy_server y)) \<and> is_leader (sv_raft (sy_server y)) \<and>
     delivery_ok (sv_queue (sy_server y)) \<and> store_inv (raft_state (sv_raft (sy_server y))) \<and>
     pc_room (raft_state (sv_raft (sy_server y))) (sy_task y)"

lemma worker_step_inv:
  assumes run: "worker_step X clock now sd pc (r, q) = (pc', r', q')"
    and inv: "raft_inv r" "is_leader r" "delivery_ok q" "store_inv (raft_state r)" "pc_room (raft_state r) pc"
  shows "raft_inv r' \<and> is_leader r' \<and> delivery_ok q' \<and> store_inv (raft_state r') \<and> pc_room (raft_state r') pc'"
proof (cases pc)
  case (W_Commit e p)
  have room: "room_for (raft_state r) (pl_allocs p)" using inv(5) W_Commit by simp
  then obtain r1 where r1: "propose_all (pl_allocs p) r = (Inr (), r1)" "is_leader r1" "raft_inv r1"
    "raft_state r1 = (raft_state r)\<lparr>st_allocs := fold (\<lambda>a. hm_insert (al_id a) a) (pl_allocs p) (st_allocs (raft_state r))\<rparr>"
    using propose_all_ok [of "pl_allocs p" r] inv(1,2) unfolding room_for_def by blast
  have "store_inv (raft_state r1)"
    by (rule commit_room [OF inv(4) room r1(4) raft_inv_ok [OF r1(3)]])
  with r1 run W_Commit inv show ?thesis by auto
next
  case (W_Plan e)
  with run inv process_eval_room [OF inv(4)] show ?thesis by auto
next
  case W_Dequeue
  have "delivery_ok (snd (dequeue now q))" using queue_moves_delivery [OF queue_moves_dequeue inv(3)] .
  with run inv W_Dequeue show ?thesis by (auto split: prod.splits sum.splits option.splits)
next
  case W_Reap
  with run inv queue_moves_delivery [OF queue_moves_ops(4) inv(3)] show ?thesis by auto
next
  case (W_Block e)
  with run inv queue_moves_delivery [OF queue_moves_ops(5) inv(3)] show ?thesis by auto
next
  case (W_Ack e)
  with run inv queue_moves_delivery [OF queue_moves_ops(2) inv(3)] show ?thesis by auto
next
  case (W_Nack e)
  with run inv queue_moves_delivery [OF queue_moves_ops(3) inv(3)] show ?thesis by auto
qed (use run inv in \<open>auto split: if_splits\<close>)

text \<open>Proposing the command of a benign request, whatever comes of it, keeps the invariant.\<close>

lemma propose_benign_inv:
  assumes c: "request_command req = Some c" and b: "benign req (raft_state r)"
    and inv: "raft_inv r" "is_leader r" "store_inv (raft_state r)"
  defines "r' \<equiv> snd (propose c r)"
  shows "raft_inv r' \<and> is_leader r' \<and> store_inv (raft_state r') \<and>
    (pc_room (raft_state r) pc \<longrightarrow> pc_room (raft_state r') pc)"
proof -
  have st: "raft_state r' = snd (state_apply c (raft_state r))"
    using inv(2) state_apply_failed [of c "raft_state r"]
    by (auto simp: r'_def propose_leader raft_state_def split: prod.splits sum.splits)
  have "is_leader r'"
    using inv(2) by (auto simp: r'_def propose_leader is_leader_def split: prod.splits sum.splits)
  moreover have "store_inv (raft_state r')" "pc_room (raft_state r) pc \<Longrightarrow> pc_room (raft_state r') pc"
    using benign_command [OF inv(3) _ b c] inv(3) store_inv_iff_room [of "raft_state r"] st
    by (cases pc; fastforce)+
  ultimately show ?thesis
    using raft_inv_propose [OF inv(1), of c] by (simp add: r'_def)
qed

lemma request_step_inv:
  assumes run: "handle inst nanos req (with_raft q r) = (resp, ep)" and b: "benign req (raft_state r)"
    and inv: "raft_inv r" "is_leader r" "delivery_ok q" "store_inv (raft_state r)" "pc_room (raft_state r) pc"
  shows "raft_inv (ep_raft ep) \<and> is_leader (ep_raft ep) \<and> delivery_ok (ep_queue ep) \<and>
    store_inv (raft_state (ep_raft ep)) \<and> pc_room (raft_state (ep_raft ep)) pc"
proof -
  have q: "delivery_ok (ep_queue ep)"
    using handle_parts [OF run] queue_moves_delivery inv(3) by (auto simp: with_raft_def)
  consider "ep_raft ep = r" | c where "request_command req = Some c" "ep_raft ep = snd (propose c r)"
    using handle_parts [OF run] by (auto simp: with_raft_def)
  then show ?thesis
    using inv q propose_benign_inv [OF _ b inv(1,2,4), of _ pc] by cases auto
qed

interpretation server_system: inductive_invariant system_init "system_step X" system_inv for X
proof (unfold_locales, goal_cases)
  case (1 y)
  have "store_inv state_new"
    by (simp add: store_inv_def capacity_ok_def nonneg_allocs_def demands_fit_def registered_def
        list_allocs_def list_nodes_def get_job_def) (simp add: state_new_def)
  moreover have "raft_inv (raft_bootstrap i)" "is_leader (raft_bootstrap i)"
    "raft_state (raft_bootstrap i) = state_new" for i
    by (auto simp: raft_init_def is_leader_def raft_bootstrap_def raft_state_def raft_new_def fsm_new_def
        intro!: raft_init_inv)
  ultimately show ?case
    using 1 by (auto simp: system_init_def system_inv_def server_new_def delivery_ok_new)
next
  case (2 y y')
  note inv = 2(1) [unfolded system_inv_def]
  from 2(2) show ?case
  proof cases
    case (work clock now pc r q)
    with worker_step_inv [OF work(2)] inv show ?thesis by (simp add: system_inv_def)
  next
    case (request inst nanos req resp ep)
    with request_step_inv [OF request(2) [unfolded server_endpoint_def] request(3), of "sy_task y"] inv
    show ?thesis by (simp add: system_inv_def)
  next
    case stop
    with inv show ?thesis by (cases "sy_task y") (simp_all add: system_inv_def server_stop_def)
  next
    case start
    with inv show ?thesis by (simp add: system_inv_def server_run_def)
  qed
qed

section \<open>Properties\<close>

text \<open>Safety of a running server under every interleaving of its scheduler worker with requests,
  stops and restarts: the committed log replays to the served state, that state is well formed,
  the live allocations of every node fit its resources in every dimension, every allocation is
  on a registered node, and every evaluation in flight has been delivered at most three times.
  In particular a request that is handled between the worker's planning and its commit cannot
  make the commit oversubscribe a node.\<close>

theorem server_safe:
  assumes "reachable system_init (system_step X) y"
  shows "(let r = sv_raft (sy_server y); s = raft_state r in
    replay (rn_log r) state_new = Some s \<and> state_ok s \<and>
    (\<forall>n\<in>set (list_nodes s). \<forall>d\<in>dims. used d (nd_id n) (list_allocs s) \<le> sint (d (nd_resources n))) \<and>
    (\<forall>a\<in>set (list_allocs s). get_node s (al_node_id a) \<noteq> None) \<and>
    (\<forall>(i, pe)\<in>set (q_in_flight (sv_queue (sy_server y))). unat (pe_dequeues pe) \<le> 3))"
  using server_system.reachable_inv [OF assms]
  by (auto simp: system_inv_def store_inv_def capacity_ok_def registered_def raft_inv_def delivery_ok_def Let_def)

text \<open>A server that has a node and a job, and whose worker is about to plan.\<close>

definition sample_config :: config where
  "sample_config = config_default Map.empty"

definition sys_step :: "request \<Rightarrow> system \<Rightarrow> system" where
  "sys_step req y =
     (let ep = snd (handle 0 0 req (server_endpoint (sy_server y)))
      in y\<lparr>sy_server := (sy_server y)\<lparr>sv_raft := ep_raft ep, sv_queue := ep_queue ep\<rparr>\<rparr>)"

definition sample_system :: system where
  "sample_system =
     sys_step (Req_NodeRegister sample_node) \<lparr>sy_server = server_new sample_config, sy_task = W_Exit\<rparr>"

lemma sample_system_reachable: "reachable system_init (system_step X) sample_system"
proof -
  let ?y = "\<lparr>sy_server = server_new sample_config, sy_task = W_Exit\<rparr>"
  obtain resp ep where h: "handle 0 0 (Req_NodeRegister sample_node) (server_endpoint (server_new sample_config)) = (resp, ep)"
    by fastforce
  have "reachable system_init (system_step X) ?y"
    by (rule reach_init) (auto simp: system_init_def)
  moreover have "system_step X ?y sample_system"
    using system_step.request [of 0 0 "Req_NodeRegister sample_node" ?y resp ep X] h
    by (simp add: sample_system_def sys_step_def benign_def resources_ok_def ball_dims sample_node_def
        get_node_def server_new_def raft_bootstrap_def raft_new_def raft_state_def fsm_new_def state_new_def)
  ultimately show ?thesis by (rule reach_step)
qed

theorem server_safe_witness:
  "map nd_id (list_nodes (raft_state (sv_raft (sy_server sample_system)))) = [''n1''] \<and>
   replay (rn_log (sv_raft (sy_server sample_system))) state_new =
     Some (raft_state (sv_raft (sy_server sample_system)))"
proof -
  have "map nd_id (list_nodes (raft_state (sv_raft (sy_server sample_system)))) = [''n1'']"
    by code_simp
  with server_safe [OF sample_system_reachable [of no_crates]] show ?thesis by (simp add: Let_def)
qed

text \<open>
  A worker that runs on its own, with no request, stop or other worker in between: \<open>k\<close> steps from
  the step \<open>i\<close> on. \<open>T i\<close> are the readings of the clock in step \<open>i\<close>, for each delivery that is looked
  at and for a new one.
\<close>

type_synonym readings = "nat \<Rightarrow> (eval_id \<Rightarrow> nat) \<times> nat"

fun worker_run ::
    "'v crates \<Rightarrow> readings \<Rightarrow> nat \<Rightarrow> nat \<Rightarrow> worker_pc \<times> raft_node \<times> eval_queue \<Rightarrow> worker_pc \<times> raft_node \<times> eval_queue" where
  "worker_run X T i 0 st = st"
| "worker_run X T i (Suc k) st = worker_run X T (Suc i) k (worker_step X (fst (T i)) (snd (T i)) False (fst st) (snd st))"

text \<open>From the step \<open>i\<close> on no delivery that is in flight now times out.\<close>

definition in_time :: "readings \<Rightarrow> nat \<Rightarrow> eval_queue \<Rightarrow> bool" where
  "in_time T i q \<longleftrightarrow> (\<forall>k\<ge>i. \<forall>x\<in>set (q_in_flight q). \<not> is_expired (fst (T k)) VISIBILITY x)"

lemma in_time_mono: "\<lbrakk>in_time T i q; set (q_in_flight q') \<subseteq> set (q_in_flight q); i \<le> j\<rbrakk> \<Longrightarrow> in_time T j q'"
  by (auto simp: in_time_def)

lemma reap_in_time:
  assumes "\<not> q_poisoned q" and "in_time T i q" and "i \<le> k"
  shows "reap_expired (fst (T k)) VISIBILITY q = (Inr 0, q)"
proof -
  have "filter (is_expired (fst (T k)) VISIBILITY) (q_in_flight q) = []"
    using assms(2,3) by (auto simp: in_time_def filter_empty_conv)
  then show ?thesis using assms(1) by (simp add: reap_expired_def)
qed

lemma reap_nothing: "\<not> q_poisoned q \<Longrightarrow> reap_expired (\<lambda>_. 0) VISIBILITY q = (Inr 0, q)"
proof -
  have "is_expired (\<lambda>_. 0) VISIBILITY = (\<lambda>_. False)"
    by (auto simp: fun_eq_iff is_expired_def VISIBILITY_def split: option.split)
  then show "\<not> q_poisoned q \<Longrightarrow> ?thesis" by (simp add: reap_expired_def)
qed

text \<open>A turn of the worker that finds an evaluation it can place.\<close>

lemma worker_run_places:
  assumes "is_leader r" "\<not> q_poisoned q" "in_time T i q" "dequeue (snd (T (i + 2))) q = (Inr (Some e), q')"
    and "propose_all (pl_allocs (process_eval X e (raft_state r))) r = (Inr (), r')"
    and "pl_allocs (process_eval X e (raft_state r)) \<noteq> []"
  shows "worker_run X T i 6 (W_Top, r, q) = (W_Top, r', snd (ack (ev_id e) q'))"
  using assms reap_in_time [OF assms(2,3), of "Suc i"] by (simp add: eval_nat_numeral)

lemma worker_run_add: "worker_run X T i (m + n) st = worker_run X T (i + m) n (worker_run X T i m st)"
  by (induction m arbitrary: i st) auto

text \<open>What a whole turn of the worker does with an evaluation: its placements are committed one after
  the other, and it is parked as blocked when there are none although its job wants instances.\<close>

definition serve_eval :: "'v crates \<Rightarrow> evaluation \<Rightarrow> raft_node \<Rightarrow> raft_node" where
  "serve_eval X e r = snd (propose_all (pl_allocs (process_eval X e (raft_state r))) r)"

definition parks :: "'v crates \<Rightarrow> evaluation \<Rightarrow> raft_node \<Rightarrow> evaluation list" where
  "parks X e r =
     (if pl_allocs (process_eval X e (raft_state r)) = [] \<and> 0 < sint (desired_count e (raft_state r))
      then [e] else [])"

lemma propose_all_logs: "propose_all as r = (Inr (), r') \<Longrightarrow> rn_log r' = rn_log r @ map UpsertAlloc as"
  by (induction as arbitrary: r) (auto split: prod.splits sum.splits elim!: propose_ok_cases)

lemma serve_ok:
  assumes "raft_inv r" and "is_leader r"
  shows "propose_all (pl_allocs (process_eval X e (raft_state r))) r = (Inr (), serve_eval X e r)"
    and "raft_inv (serve_eval X e r)" and "is_leader (serve_eval X e r)"
    and "get_job (raft_state (serve_eval X e r)) = get_job (raft_state r)"
    and "rn_log (serve_eval X e r) = rn_log r @ map UpsertAlloc (pl_allocs (process_eval X e (raft_state r)))"
proof -
  have "\<forall>a\<in>set (pl_allocs (process_eval X e (raft_state r))). alloc_ok a"
    using plan_allocs_ok [OF raft_inv_ok [OF assms(1)]] by blast
  from propose_all_ok [OF this assms(2,1)]
  show "propose_all (pl_allocs (process_eval X e (raft_state r))) r = (Inr (), serve_eval X e r)"
    and "raft_inv (serve_eval X e r)" and "is_leader (serve_eval X e r)"
    and "get_job (raft_state (serve_eval X e r)) = get_job (raft_state r)"
    by (auto simp: serve_eval_def get_job_def)
  from propose_all_logs [OF this(1)]
  show "rn_log (serve_eval X e r) = rn_log r @ map UpsertAlloc (pl_allocs (process_eval X e (raft_state r)))" .
qed

lemma plan_turn:
  assumes "raft_inv r" and "is_leader r" and "\<not> q_poisoned q"
  shows "\<exists>k \<le> 5. worker_run X T i k (W_Plan e, r, q) = (W_Top, serve_eval X e r,
    q\<lparr>q_blocked := q_blocked q @ parks X e r, q_in_flight := hm_remove (ev_id e) (q_in_flight q)\<rparr>)"
proof (cases "pl_allocs (process_eval X e (raft_state r)) = []")
  case False
  with serve_ok(1) [OF assms(1,2), of X e] assms(3) show ?thesis
    by (intro exI [of _ 3]) (simp add: numeral_3_eq_3 parks_def ack_def)
next
  case none: True
  with serve_ok(1) [OF assms(1,2), of X e] have stays: "serve_eval X e r = r" by simp
  show ?thesis
  proof (cases "0 < sint (desired_count e (raft_state r))")
    case True
    with none stays assms(3) show ?thesis
      by (intro exI [of _ 5]) (simp add: eval_nat_numeral parks_def ack_def block_def)
  next
    case False
    with none stays assms(3) show ?thesis
      by (intro exI [of _ 4]) (simp add: eval_nat_numeral parks_def ack_def)
  qed
qed

text \<open>The worker finishes what it has dequeued: on a leader whose state is well formed, starting
  from the planning of an evaluation, at most five of its own steps later it is back at the top
  of its loop, the evaluation is no longer in flight, and if it placed nothing although the job
  wants instances the evaluation is parked as blocked.\<close>

theorem worker_finishes:
  assumes "raft_inv r" and "is_leader r" and "\<not> q_poisoned q"
  shows "\<exists>k r' q'. k \<le> 5 \<and> worker_run X T i k (W_Plan e, r, q) = (W_Top, r', q') \<and>
    hm_get (q_in_flight q') (ev_id e) = None \<and> raft_inv r' \<and>
    q_blocked q' = q_blocked q @
      (if pl_allocs (process_eval X e (raft_state r)) = [] \<and> 0 < sint (desired_count e (raft_state r)) then [e] else [])"
  using plan_turn [OF assms, of X T i e] serve_ok(2) [OF assms(1,2), of X e] by (fastforce simp: parks_def)

theorem worker_finishes_witness:
  "\<exists>k r' q'. worker_run no_crates (\<lambda>_. (\<lambda>_. 0, 0)) 0 k (W_Plan sample_eval, raft_bootstrap ''n1'', one_in_flight) = (W_Top, r', q') \<and>
     raft_inv r' \<and> hm_get (q_in_flight q') ''e1'' = None"
proof -
  have "raft_inv (raft_bootstrap ''n1'')" "is_leader (raft_bootstrap ''n1'')"
    by (auto simp: raft_init_def is_leader_def raft_bootstrap_def intro!: raft_init_inv)
  moreover have "\<not> q_poisoned one_in_flight" by (simp add: one_in_flight_eq)
  ultimately show ?thesis
    using worker_finishes [of "raft_bootstrap ''n1''" one_in_flight no_crates "\<lambda>_. (\<lambda>_. 0, 0)" 0 sample_eval]
    by (auto simp: sample_eval_def)
qed

text \<open>The lifecycle of an agent: a run of an agent that is not running starts a client and a server
  and, once a signal arrives, returns with all three stopped and the worker told to shut down;
  running a running agent does nothing; when the signal handlers cannot be registered the run
  fails and leaves the agent running.\<close>

theorem agent_lifecycle:
  "case agent_run signals during a of (res, a') \<Rightarrow>
     if ag_status a = Running then res = Inr () \<and> a' = a
     else (case signals of
        Inl err \<Rightarrow> res = Inl err \<and> ag_status a' = Running \<and>
                   map_option sv_worker (ag_server a') = Some True
      | Inr _ \<Rightarrow> res = Inr () \<and> ag_status a' = Stopped \<and>
                 map_option ca_status (ag_client a') = Some Stopped \<and>
                 map_option sv_status (ag_server a') = Some Stopped \<and>
                 map_option sv_shutdown (ag_server a') = Some True)"
  by (auto simp: agent_run_def agent_stop_def client_run_def client_stop_def server_run_def
      server_stop_def client_new_def server_new_def Let_def split: sum.split)

end
