(* ===== verification/Rpc_Server.thy ===== *)
theory Rpc_Server
  imports Server
begin

text \<open>
  \<open>RpcServer\<close> of \<open>src/src/rpc.rs\<close> at the granularity of its locks: every accepted connection is
  served by a task of its own, and a handler takes the lock of the consensus node and then the
  lock of the queue, with anything in between. The tasks run beside the scheduler workers of
  \<open>src/src/server.rs\<close>, of which a restart may leave an old one behind. \<open>cluster_step\<close> is any
  interleaving of all of them.
\<close>

section \<open>A handler between its two locks\<close>

datatype handler_op = Q_Enqueue evaluation | Q_Unblock | Q_Dequeue

text \<open>What remains after the consensus lock is released: nothing, or the queue and an answer.\<close>

datatype after_commit = Done "response result" | Then_Queue handler_op response

definition commit_then :: "command \<Rightarrow> after_commit \<Rightarrow> raft_node \<Rightarrow> after_commit \<times> raft_node" where
  "commit_then c rest r =
     (if \<not> is_leader r then (Done (Inr (NotLeader (leader_addr r))), r)
      else case propose c r of
             (Inl e, r') \<Rightarrow> (Done (Inl e), r')
           | (Inr _, r') \<Rightarrow> (rest, r'))"

fun handle_commit :: "nat \<Rightarrow> request \<Rightarrow> raft_node \<Rightarrow> after_commit \<times> raft_node" where
  "handle_commit nanos (Req_JobRegister job) r =
     (case job_validate job of
        Inl e \<Rightarrow> (Done (Inl e), r)
      | Inr _ \<Rightarrow>
          commit_then (UpsertJob job)
            (Then_Queue (Q_Enqueue \<lparr>ev_id = eval_id_for nanos (jb_name job), ev_job_id = jb_name job,
                ev_priority = jb_priority job, ev_trigger = JobRegister, ev_status = EPending\<rparr>)
               (JobRegistered (eval_id_for nanos (jb_name job)))) r)"
| "handle_commit nanos (Req_JobDeregister name) r =
     commit_then (DeregisterJob name)
       (Then_Queue (Q_Enqueue \<lparr>ev_id = eval_id_for nanos name, ev_job_id = name,
           ev_priority = 50, ev_trigger = JobDeregister, ev_status = EPending\<rparr>) Resp_Ack) r"
| "handle_commit nanos (Req_NodeRegister n) r = commit_then (UpsertNode n) (Then_Queue Q_Unblock Resp_Ack) r"
| "handle_commit nanos (Req_EvalDequeue schedulers) r = (Then_Queue Q_Dequeue (Resp_Eval None), r)"

fun handle_queue :: "nat \<Rightarrow> handler_op \<Rightarrow> response \<Rightarrow> eval_queue \<Rightarrow> response result \<times> eval_queue" where
  "handle_queue inst (Q_Enqueue e) resp q =
     (case enqueue e q of (Inl err, q') \<Rightarrow> (Inl err, q') | (Inr _, q') \<Rightarrow> (Inr resp, q'))"
| "handle_queue inst Q_Unblock resp q =
     (case unblock_all q of (Inl err, q') \<Rightarrow> (Inl err, q') | (Inr _, q') \<Rightarrow> (Inr resp, q'))"
| "handle_queue inst Q_Dequeue resp q =
     (case dequeue inst q of (Inl err, q') \<Rightarrow> (Inl err, q') | (Inr eo, q') \<Rightarrow> (Inr (Resp_Eval eo), q'))"

text \<open>With nothing in between, the two halves are the handler.\<close>

lemma handle_split:
  "handle inst nanos req ep =
     (case handle_commit nanos req (ep_raft ep) of
        (Done res, r) \<Rightarrow> (res, ep\<lparr>ep_raft := r\<rparr>)
      | (Then_Queue op resp, r) \<Rightarrow>
          (case handle_queue inst op resp (ep_queue ep) of
             (res, q) \<Rightarrow> (res, ep\<lparr>ep_raft := r, ep_queue := q\<rparr>)))"
  by (cases req)
    (auto simp: sbind_def slift_def committing_def commit_def commit_then_def on_queue_def Let_def
      split: sum.splits prod.splits)

section \<open>Sessions\<close>

text \<open>
  The task of one connection: waiting for a frame, between reading a request and the consensus
  lock, between the two locks, before writing the answer, or gone. It remembers what it has
  answered so far.
\<close>

datatype session_pc =
    Reading
  | Handling request
  | Queueing request handler_op response
  | Answering request response
  | Closed

record session =
  ss_conn :: conn
  ss_pc :: session_pc
  ss_served :: "(request \<times> response) list"

record codecs =
  dec_request :: "string \<Rightarrow> request result"
  enc_response :: "response \<Rightarrow> string result"

fun session_step ::
    "codecs \<Rightarrow> nat \<times> nat \<Rightarrow> session_pc \<Rightarrow> session \<times> raft_node \<times> eval_queue \<Rightarrow> session \<times> raft_node \<times> eval_queue" where
  "session_step X t Reading (s, r, q) =
     (case read_frame (dec_request X) (ss_conn s) of
        (Inr (Some req), c) \<Rightarrow> (s\<lparr>ss_conn := c, ss_pc := Handling req\<rparr>, r, q)
      | (_, c) \<Rightarrow> (s\<lparr>ss_conn := c, ss_pc := Closed\<rparr>, r, q))"
| "session_step X t (Handling req) (s, r, q) =
     (case handle_commit (snd t) req r of
        (Done (Inl e), r') \<Rightarrow> (s\<lparr>ss_pc := Closed\<rparr>, r', q)
      | (Done (Inr resp), r') \<Rightarrow> (s\<lparr>ss_pc := Answering req resp\<rparr>, r', q)
      | (Then_Queue op resp, r') \<Rightarrow> (s\<lparr>ss_pc := Queueing req op resp\<rparr>, r', q))"
| "session_step X t (Queueing req op resp) (s, r, q) =
     (case handle_queue (fst t) op resp q of
        (Inl e, q') \<Rightarrow> (s\<lparr>ss_pc := Closed\<rparr>, r, q')
      | (Inr resp', q') \<Rightarrow> (s\<lparr>ss_pc := Answering req resp'\<rparr>, r, q'))"
| "session_step X t (Answering req resp) (s, r, q) =
     (case write_frame (enc_response X) resp (ss_conn s) of
        (Inl e, c) \<Rightarrow> (s\<lparr>ss_conn := c, ss_pc := Closed\<rparr>, r, q)
      | (Inr _, c) \<Rightarrow> (s\<lparr>ss_conn := c, ss_pc := Reading, ss_served := ss_served s @ [(req, resp)]\<rparr>, r, q))"
| "session_step X t Closed (s, r, q) = (s, r, q)"

definition session_move ::
    "codecs \<Rightarrow> nat \<times> nat \<Rightarrow> session \<times> raft_node \<times> eval_queue \<Rightarrow> session \<times> raft_node \<times> eval_queue" where
  "session_move X t st = session_step X t (ss_pc (fst st)) st"

text \<open>A session that runs on its own; the clock of a turn is numbered by the answers before it.\<close>

fun session_run ::
    "codecs \<Rightarrow> (nat \<Rightarrow> nat \<times> nat) \<Rightarrow> nat \<Rightarrow> session \<times> raft_node \<times> eval_queue \<Rightarrow> session \<times> raft_node \<times> eval_queue" where
  "session_run X clock 0 st = st"
| "session_run X clock (Suc n) st =
     session_run X clock n (session_move X (clock (length (ss_served (fst st)))) st)"

lemma session_run_add: "session_run X clock (m + n) st = session_run X clock n (session_run X clock m st)"
  by (induction m arbitrary: st) auto

section \<open>A session on its own is \<open>serve_conn\<close>\<close>

abbreviation at_pc :: "session_pc \<Rightarrow> session \<Rightarrow> session" where
  "at_pc pc s \<equiv> s\<lparr>ss_pc := pc\<rparr>"

lemma session_run_one: "session_run X clock 1 st = session_move X (clock (length (ss_served (fst st)))) st"
  by simp

lemma session_handles:
  fixes X :: codecs and s :: session and ep :: endpoint and clock :: "nat \<Rightarrow> nat \<times> nat"
  defines "t \<equiv> clock (length (ss_served s))"
  shows "\<exists>n. session_run X clock n (at_pc (Handling req) s, ep_raft ep, ep_queue ep) =
    (case handle (fst t) (snd t) req ep of
       (Inl e, ep') \<Rightarrow> (at_pc Closed s, ep_raft ep', ep_queue ep')
     | (Inr resp, ep') \<Rightarrow> (at_pc (Answering req resp) s, ep_raft ep', ep_queue ep'))"
proof (cases "handle_commit (snd t) req (ep_raft ep)")
  case (Pair a r')
  show ?thesis
  proof (cases a)
    case (Done res)
    with Pair show ?thesis
      by (intro exI [of _ 1], unfold session_run_one)
        (auto simp: session_move_def handle_split t_def split: sum.split)
  next
    case (Then_Queue op resp)
    have "session_run X clock (1 + 1) (at_pc (Handling req) s, ep_raft ep, ep_queue ep) =
      (case handle (fst t) (snd t) req ep of
         (Inl e, ep') \<Rightarrow> (at_pc Closed s, ep_raft ep', ep_queue ep')
       | (Inr resp, ep') \<Rightarrow> (at_pc (Answering req resp) s, ep_raft ep', ep_queue ep'))"
      unfolding session_run_add session_run_one using Pair Then_Queue
      by (auto simp: session_move_def handle_split t_def split: sum.split prod.split)
    then show ?thesis by blast
  qed
qed

lemma write_frame_in: "cn_in (snd (write_frame enc m c)) = cn_in c"
  by (simp add: write_frame_def sbind_def slift_def conn_write_all_def
      split: sum.split option.split prod.split)

text \<open>One turn of a session follows one turn of the loop, which ends it or leads to the next.\<close>

lemma session_turn:
  fixes X :: codecs and s :: session and ep :: endpoint and clock :: "nat \<Rightarrow> nat \<times> nat"
  defines "serve \<equiv> serve_conn (dec_request X) (enc_response X) clock"
  assumes pc: "ss_pc s = Reading"
  obtains (closed) n s' ep' where "ss_pc s' = Closed"
      "session_run X clock n (s, ep_raft ep, ep_queue ep) = (s', ep_raft ep', ep_queue ep')"
      "serve (length (ss_served s)) (ss_conn s) ep = (ss_conn s', ep')"
  | (again) n s' ep' where "ss_pc s' = Reading"
      "session_run X clock n (s, ep_raft ep, ep_queue ep) = (s', ep_raft ep', ep_queue ep')"
      "serve (length (ss_served s)) (ss_conn s) ep = serve (length (ss_served s')) (ss_conn s') ep'"
      "length (cn_in (ss_conn s')) < length (cn_in (ss_conn s))"
proof -
  let ?t = "clock (length (ss_served s))"
  obtain res c1 where rd: "read_frame (dec_request X) (ss_conn s) = (res, c1)" by fastforce
  note unfold = serve_def serve_conn.simps [of _ _ _ _ "ss_conn s"]
  show thesis
  proof (cases "\<exists>req. res = Inr (Some req)")
    case False
    show thesis
      by (rule closed [of "s\<lparr>ss_conn := c1, ss_pc := Closed\<rparr>" 1 ep])
        (use False pc rd in \<open>auto simp: session_move_def unfold split: sum.splits option.splits\<close>)
  next
    case True
    then obtain req where req: "res = Inr (Some req)" by blast
    let ?s1 = "s\<lparr>ss_conn := c1\<rparr>"
    have read: "session_run X clock 1 (s, ep_raft ep, ep_queue ep) = (at_pc (Handling req) ?s1, ep_raft ep, ep_queue ep)"
      unfolding session_run_one using pc rd req by (simp add: session_move_def)
    obtain n where n: "session_run X clock n (at_pc (Handling req) ?s1, ep_raft ep, ep_queue ep) =
        (case handle (fst ?t) (snd ?t) req ep of
           (Inl e, ep') \<Rightarrow> (at_pc Closed ?s1, ep_raft ep', ep_queue ep')
         | (Inr resp, ep') \<Rightarrow> (at_pc (Answering req resp) ?s1, ep_raft ep', ep_queue ep'))"
      using session_handles [of X clock req ?s1 ep] by auto
    obtain hres ep1 where h: "handle (fst ?t) (snd ?t) req ep = (hres, ep1)" by fastforce
    show thesis
    proof (cases hres)
      case (Inl e)
      show thesis
        by (rule closed [of "at_pc Closed ?s1" "1 + n" ep1], simp, unfold session_run_add read n)
          (use rd req h Inl in \<open>simp_all add: unfold\<close>)
    next
      case (Inr resp)
      obtain w c2 where wr: "write_frame (enc_response X) resp c1 = (w, c2)" by fastforce
      have ans: "session_run X clock (1 + n) (s, ep_raft ep, ep_queue ep) =
          (at_pc (Answering req resp) ?s1, ep_raft ep1, ep_queue ep1)"
        unfolding session_run_add read n by (simp add: h Inr)
      let ?s2 = "session_move X ?t (at_pc (Answering req resp) ?s1, ep_raft ep1, ep_queue ep1)"
      have all: "session_run X clock (1 + n + 1) (s, ep_raft ep, ep_queue ep) = ?s2"
        unfolding session_run_add [of _ _ "1 + n" 1] ans session_run_one by simp
      have shorter: "length (cn_in c2) < length (cn_in (ss_conn s))"
        using read_frame_shorter [of "dec_request X" "ss_conn s" req c1] rd req
          write_frame_in [of "enc_response X" resp c1] wr by simp
      show thesis
      proof (cases w)
        case werr: (Inl e)
        show thesis
          by (rule closed [of "fst ?s2" "1 + n + 1" ep1], unfold all)
            (use rd req h Inr wr werr in \<open>simp_all add: unfold session_move_def\<close>)
      next
        case ok: (Inr u)
        show thesis
          by (rule again [of "fst ?s2" "1 + n + 1" ep1], unfold all)
            (use rd req h Inr wr ok shorter in \<open>simp_all add: unfold session_move_def\<close>)
      qed
    qed
  qed
qed

section \<open>The server with all its tasks\<close>

text \<open>A spawned scheduler worker; an aborted one ends the next time it would sleep.\<close>

record worker_task =
  wt_pc :: worker_pc
  wt_aborted :: bool

record cluster =
  cl_server :: server
  cl_tasks :: "worker_task list"
  cl_sessions :: "session list"
  cl_serve_error :: "error option"

definition sleeps :: "worker_pc \<Rightarrow> worker_pc \<Rightarrow> bool" where
  "sleeps pc pc' \<longleftrightarrow> pc' = W_Top \<and> (pc = W_Top \<or> pc = W_Dequeue)"

definition task_step ::
    "'v crates \<Rightarrow> (eval_id \<Rightarrow> nat) \<Rightarrow> nat \<Rightarrow> bool \<Rightarrow> worker_task \<times> raft_node \<times> eval_queue
       \<Rightarrow> worker_task \<times> raft_node \<times> eval_queue" where
  "task_step X clock now shutdown = (\<lambda>(w, r, q).
     case worker_step X clock now shutdown (wt_pc w) (r, q) of
       (pc, r', q') \<Rightarrow>
         (w\<lparr>wt_pc := if wt_aborted w \<and> sleeps (wt_pc w) pc then W_Exit else pc\<rparr>, r', q'))"

text \<open>
  What can happen: a worker or a session moves, a connection is accepted or accepting fails for
  good, the server is stopped (the worker it has a handle of is aborted, and is gone at once if it
  sleeps), or it is started.
\<close>

datatype event =
    Work nat "eval_id \<Rightarrow> nat" nat
  | Session nat "nat \<times> nat"
  | Accept conn
  | Accept_Error error
  | Stop bool
  | Start

definition abort_last :: "bool \<Rightarrow> worker_task list \<Rightarrow> worker_task list" where
  "abort_last asleep ws =
     (if ws = [] then []
      else butlast ws @ [(last ws)\<lparr>wt_aborted := True,
             wt_pc := if asleep \<and> wt_pc (last ws) = W_Top then W_Exit else wt_pc (last ws)\<rparr>])"

definition with_parts :: "raft_node \<Rightarrow> eval_queue \<Rightarrow> cluster \<Rightarrow> cluster" where
  "with_parts r q y = y\<lparr>cl_server := (cl_server y)\<lparr>sv_raft := r, sv_queue := q\<rparr>\<rparr>"

fun cluster_exec :: "'v crates \<Rightarrow> codecs \<Rightarrow> event \<Rightarrow> cluster \<Rightarrow> cluster" where
  "cluster_exec X C (Work i clock now) y =
     (case task_step X clock now (sv_shutdown (cl_server y))
             (cl_tasks y ! i, sv_raft (cl_server y), sv_queue (cl_server y)) of
        (w, r, q) \<Rightarrow> with_parts r q (y\<lparr>cl_tasks := (cl_tasks y)[i := w]\<rparr>))"
| "cluster_exec X C (Session i t) y =
     (case session_move C t (cl_sessions y ! i, sv_raft (cl_server y), sv_queue (cl_server y)) of
        (s, r, q) \<Rightarrow> with_parts r q (y\<lparr>cl_sessions := (cl_sessions y)[i := s]\<rparr>))"
| "cluster_exec X C (Accept c) y =
     y\<lparr>cl_sessions := cl_sessions y @ [\<lparr>ss_conn = c, ss_pc = Reading, ss_served = []\<rparr>]\<rparr>"
| "cluster_exec X C (Accept_Error e) y = y\<lparr>cl_serve_error := Some e\<rparr>"
| "cluster_exec X C (Stop asleep) y =
     y\<lparr>cl_server := server_stop (cl_server y),
       cl_tasks := if sv_worker (cl_server y) then abort_last asleep (cl_tasks y) else cl_tasks y\<rparr>"
| "cluster_exec X C Start y =
     (if sv_status (cl_server y) = Running then y
      else y\<lparr>cl_server := snd (server_run (cl_server y)),
             cl_tasks := cl_tasks y @ [\<lparr>wt_pc = W_Top, wt_aborted = False\<rparr>]\<rparr>)"

text \<open>
  An event that can happen at all. \<open>waits\<close> is the discipline of starting the server again only when
  the old worker is gone, which the code does not enforce.
\<close>

definition all_exited :: "worker_task list \<Rightarrow> bool" where
  "all_exited ws \<longleftrightarrow> list_all (\<lambda>w. wt_pc w = W_Exit) ws"

fun enabled :: "bool \<Rightarrow> event \<Rightarrow> cluster \<Rightarrow> bool" where
  "enabled waits (Work i clock now) y \<longleftrightarrow> i < length (cl_tasks y)"
| "enabled waits (Session i t) y \<longleftrightarrow> i < length (cl_sessions y)"
| "enabled waits (Accept c) y \<longleftrightarrow> cl_serve_error y = None"
| "enabled waits (Accept_Error e) y \<longleftrightarrow> cl_serve_error y = None"
| "enabled waits (Stop asleep) y \<longleftrightarrow> True"
| "enabled waits Start y \<longleftrightarrow>
     sv_status (cl_server y) = Running \<or> \<not> waits \<or> all_exited (cl_tasks y)"

text \<open>
  What is assumed of the clients: \<open>A req s\<close> says that the request \<open>req\<close> may be the next to be handled
  in the state \<open>s\<close>. The code makes no such assumption, and \<open>anything\<close> is the one that always holds;
  the capacity of the nodes can only be kept for requests that are \<open>benign\<close>.
\<close>

type_synonym client_assumption = "request \<Rightarrow> state_store \<Rightarrow> bool"

definition anything :: client_assumption where
  "anything req s \<longleftrightarrow> True"

fun session_meets :: "client_assumption \<Rightarrow> session_pc \<Rightarrow> state_store \<Rightarrow> bool" where
  "session_meets A (Handling req) s = A req s"
| "session_meets A _ s = True"

fun meets :: "client_assumption \<Rightarrow> event \<Rightarrow> cluster \<Rightarrow> bool" where
  "meets A (Session i t) y = session_meets A (ss_pc (cl_sessions y ! i)) (raft_state (sv_raft (cl_server y)))"
| "meets A _ y = True"

inductive cluster_step ::
    "bool \<Rightarrow> client_assumption \<Rightarrow> 'v crates \<Rightarrow> codecs \<Rightarrow> cluster \<Rightarrow> cluster \<Rightarrow> bool" for waits A X C where
  cluster_event: "\<lbrakk>enabled waits ev y; meets A ev y\<rbrakk> \<Longrightarrow> cluster_step waits A X C y (cluster_exec X C ev y)"

inductive_cases cluster_step_elim: "cluster_step waits A X C y y'"

definition cluster_init :: "cluster \<Rightarrow> bool" where
  "cluster_init y \<longleftrightarrow> (\<exists>c. cl_server y = server_new c) \<and> cl_tasks y = [] \<and> cl_sessions y = [] \<and>
     cl_serve_error y = None"

text \<open>What a run under a strong assumption reaches is reached under a weak one.\<close>

lemma cluster_step_weaken:
  assumes "reachable cluster_init (cluster_step waits A X C) y" and "\<And>req s. A req s \<Longrightarrow> B req s"
  shows "reachable cluster_init (cluster_step waits B X C) y"
proof -
  have pc: "session_meets B pc s" if "session_meets A pc s" for pc s
    using that assms(2) by (cases pc) auto
  have "meets B ev z" if "meets A ev z" for ev z
    using that pc by (cases ev) auto
  then have "cluster_step waits B X C z z'" if "cluster_step waits A X C z z'" for z z'
    using that by (auto elim!: cluster_step_elim intro: cluster_event)
  with assms(1) show ?thesis by (induction rule: reachable.induct) (auto intro: reachable.intros)
qed

lemma anything_weaken:
  "reachable cluster_init (cluster_step waits A X C) y \<Longrightarrow> reachable cluster_init (cluster_step waits anything X C) y"
  by (erule cluster_step_weaken) (simp add: anything_def)

fun run_events :: "'v crates \<Rightarrow> codecs \<Rightarrow> event list \<Rightarrow> cluster \<Rightarrow> cluster" where
  "run_events X C [] y = y"
| "run_events X C (ev # evs) y = run_events X C evs (cluster_exec X C ev y)"

fun all_enabled :: "bool \<Rightarrow> client_assumption \<Rightarrow> 'v crates \<Rightarrow> codecs \<Rightarrow> event list \<Rightarrow> cluster \<Rightarrow> bool" where
  "all_enabled waits A X C [] y \<longleftrightarrow> True"
| "all_enabled waits A X C (ev # evs) y \<longleftrightarrow>
     enabled waits ev y \<and> meets A ev y \<and> all_enabled waits A X C evs (cluster_exec X C ev y)"

lemma run_events_reachable:
  "\<lbrakk>reachable init (cluster_step waits A X C) y; all_enabled waits A X C evs y\<rbrakk> \<Longrightarrow>
     reachable init (cluster_step waits A X C) (run_events X C evs y)"
proof (induction evs arbitrary: y)
  case (Cons ev evs)
  then have "reachable init (cluster_step waits A X C) (cluster_exec X C ev y)"
    by (auto intro: reach_step cluster_event)
  with Cons show ?case by simp
qed simp

section \<open>What a move does to the log and to the queue\<close>

lemma propose_log: "prefix (rn_log r) (rn_log (snd (propose c r)))"
  by (cases "is_leader r") (auto simp: propose_leader propose_follower split: prod.splits sum.splits)

lemma propose_all_log: "prefix (rn_log r) (rn_log (snd (propose_all as r)))"
proof (induction as arbitrary: r)
  case (Cons a as)
  obtain res r1 where p: "propose (UpsertAlloc a) r = (res, r1)" by fastforce
  with propose_log [of r "UpsertAlloc a"] Cons [of r1] show ?case
    by (cases res) (auto dest: prefix_order.trans)
qed simp

lemma worker_step_log:
  "worker_step X clock now sd pc (r, q) = (pc', r', q') \<Longrightarrow> prefix (rn_log r) (rn_log r')"
proof (cases pc)
  case (W_Commit e p)
  assume "worker_step X clock now sd pc (r, q) = (pc', r', q')"
  with W_Commit have "r' = snd (propose_all (pl_allocs p) r)"
    by (auto split: prod.splits sum.splits)
  then show ?thesis by (simp add: propose_all_log)
qed (auto split: if_splits prod.splits sum.splits option.splits)

lemma commit_then_cases:
  "commit_then c rest r = (a, r') \<Longrightarrow>
     (r' = r \<or> r' = snd (propose c r)) \<and>
     (a = rest \<and> c \<in> set (rn_log r') \<or> (\<exists>e. a = Done (Inl e)) \<or> (\<exists>l. a = Done (Inr (NotLeader l))))"
  by (auto simp: commit_then_def propose_leader split: if_splits prod.splits sum.splits)

lemma handle_commit_raft:
  assumes "handle_commit nanos req r = (a, r')"
  shows "r' = r \<or> (\<exists>c. request_command req = Some c \<and> r' = snd (propose c r))"
  using assms by (cases req) (auto dest: commit_then_cases split: sum.splits)

lemma handle_queue_snd [simp]:
  "snd (handle_queue inst (Q_Enqueue e) resp q) = snd (enqueue e q)"
  "snd (handle_queue inst Q_Unblock resp q) = snd (unblock_all q)"
  "snd (handle_queue inst Q_Dequeue resp q) = snd (dequeue inst q)"
  by (simp_all split: prod.split sum.split)

lemma handle_queue_moves: "queue_moves q (snd (handle_queue inst op resp q))"
  by (cases op) (simp_all del: handle_queue.simps)

section \<open>Safety at the granularity of the locks\<close>

definition raft_safe :: "raft_node \<Rightarrow> bool" where
  "raft_safe r \<longleftrightarrow> raft_inv r \<and> is_leader r \<and> store_inv (raft_state r)"

text \<open>At most one worker is left, and what it is about to commit still fits.\<close>

definition tasks_ok :: "state_store \<Rightarrow> worker_task list \<Rightarrow> bool" where
  "tasks_ok st ws \<longleftrightarrow>
     (\<forall>i < length ws. pc_room st (wt_pc (ws ! i)) \<and>
        (wt_pc (ws ! i) \<noteq> W_Exit \<longrightarrow> (\<forall>j < length ws. j \<noteq> i \<longrightarrow> wt_pc (ws ! j) = W_Exit)))"

definition cluster_inv :: "cluster \<Rightarrow> bool" where
  "cluster_inv y \<longleftrightarrow>
     raft_safe (sv_raft (cl_server y)) \<and> delivery_ok (sv_queue (cl_server y)) \<and>
     tasks_ok (raft_state (sv_raft (cl_server y))) (cl_tasks y)"

lemma pc_room_simps [simp]: "pc_room s W_Exit" "pc_room s W_Top"
  by simp_all

lemma with_parts_simps [simp]:
  "sv_raft (cl_server (with_parts r q y)) = r" "sv_queue (cl_server (with_parts r q y)) = q"
  "cl_tasks (with_parts r q y) = cl_tasks y" "cl_sessions (with_parts r q y) = cl_sessions y"
  by (simp_all add: with_parts_def)

lemma task_step_inv:
  assumes run: "task_step X clock now sd (w, r, q) = (w', r', q')"
    and inv: "raft_safe r" "delivery_ok q" "pc_room (raft_state r) (wt_pc w)"
  shows "raft_safe r' \<and> delivery_ok q' \<and> pc_room (raft_state r') (wt_pc w') \<and>
    (wt_pc w = W_Exit \<longrightarrow> wt_pc w' = W_Exit \<and> r' = r)"
proof -
  obtain pc where "worker_step X clock now sd (wt_pc w) (r, q) = (pc, r', q')"
    "wt_pc w' = pc \<or> wt_pc w' = W_Exit" "wt_pc w = W_Exit \<longrightarrow> wt_pc w' = pc \<or> wt_pc w' = W_Exit"
    using run by (auto simp: task_step_def split: prod.splits if_splits)
  moreover from this worker_step_inv [OF this(1)] inv
  have "raft_inv r' \<and> is_leader r' \<and> delivery_ok q' \<and> store_inv (raft_state r') \<and> pc_room (raft_state r') pc"
    by (simp add: raft_safe_def)
  ultimately show ?thesis by (auto simp: raft_safe_def)
qed

lemma session_move_cases:
  assumes "session_move C t (s, r, q) = (s', r', q')"
  shows "(r' = r \<or> (\<exists>req c. ss_pc s = Handling req \<and> request_command req = Some c \<and> r' = snd (propose c r))) \<and>
    queue_moves q q'"
proof (cases "ss_pc s")
  case (Handling req)
  obtain a r1 where "handle_commit (snd t) req r = (a, r1)" by fastforce
  with handle_commit_raft [OF this] assms Handling show ?thesis
    by (auto simp: session_move_def split: after_commit.splits sum.splits)
next
  case (Queueing req op resp)
  with assms handle_queue_moves [of q "fst t" op resp] show ?thesis
    by (auto simp: session_move_def simp del: handle_queue.simps split: prod.splits sum.splits
        dest: arg_cong [where f = snd])
qed (use assms in \<open>auto simp: session_move_def split: prod.splits sum.splits option.splits\<close>)

lemma session_move_inv:
  assumes run: "session_move C t (s, r, q) = (s', r', q')" and b: "session_meets benign (ss_pc s) (raft_state r)"
    and inv: "raft_safe r" "delivery_ok q"
  shows "raft_safe r' \<and> delivery_ok q' \<and> (\<forall>pc. pc_room (raft_state r) pc \<longrightarrow> pc_room (raft_state r') pc)"
proof -
  have q: "delivery_ok q'" using session_move_cases [OF run] queue_moves_delivery inv(2) by blast
  consider "r' = r" | req c where "ss_pc s = Handling req" "request_command req = Some c" "r' = snd (propose c r)"
    using session_move_cases [OF run] by blast
  then show ?thesis
  proof cases
    case 2
    with b propose_benign_inv [OF 2(2), of r] inv(1) q show ?thesis by (auto simp: raft_safe_def)
  qed (use inv q in simp)
qed

lemma tasks_ok_mono:
  "\<lbrakk>tasks_ok st ws; \<forall>pc. pc_room st pc \<longrightarrow> pc_room st' pc\<rbrakk> \<Longrightarrow> tasks_ok st' ws"
  unfolding tasks_ok_def by blast

lemma tasks_ok_update:
  assumes ok: "tasks_ok st ws" and i: "i < length ws" and room: "pc_room st' (wt_pc w)"
    and exited: "wt_pc (ws ! i) = W_Exit \<longrightarrow> wt_pc w = W_Exit \<and> st' = st"
  shows "tasks_ok st' (ws[i := w])"
proof (cases "wt_pc (ws ! i) = W_Exit")
  case True
  then have same: "wt_pc (ws[i := w] ! j) = wt_pc (ws ! j)" for j
    using exited i by (cases "j = i") auto
  have "tasks_ok st (ws[i := w])"
    using ok unfolding tasks_ok_def length_list_update same .
  with True exited show ?thesis by simp
next
  case False
  then have gone: "wt_pc (ws ! j) = W_Exit" if "j < length ws" "j \<noteq> i" for j
    using ok i that unfolding tasks_ok_def by blast
  have "pc_room st' (wt_pc (ws[i := w] ! k)) \<and> (k \<noteq> i \<longrightarrow> wt_pc (ws[i := w] ! k) = W_Exit)" if "k < length ws" for k
    using that room i gone [of k] by (cases "k = i") auto
  then show ?thesis unfolding tasks_ok_def length_list_update by metis
qed

lemma abort_last_nth:
  assumes "i < length ws"
  shows "wt_pc (abort_last asleep ws ! i) = wt_pc (ws ! i) \<or> wt_pc (abort_last asleep ws ! i) = W_Exit"
proof (cases "i = length ws - 1")
  case True
  then show ?thesis using assms by (auto simp: abort_last_def nth_append last_conv_nth)
next
  case False
  with assms have "i < length ws - 1" by linarith
  then show ?thesis by (auto simp: abort_last_def nth_append nth_butlast)
qed

lemma abort_last_length [simp]: "length (abort_last asleep ws) = length ws"
  by (auto simp: abort_last_def)

lemma tasks_ok_abort: "tasks_ok st ws \<Longrightarrow> tasks_ok st (abort_last asleep ws)"
  unfolding tasks_ok_def abort_last_length using abort_last_nth pc_room_simps(1) by metis

lemma tasks_ok_spawn:
  "all_exited ws \<Longrightarrow> tasks_ok st (ws @ [\<lparr>wt_pc = W_Top, wt_aborted = False\<rparr>])"
  by (auto simp: tasks_ok_def all_exited_def list_all_length nth_append less_Suc_eq)

lemma cluster_exec_inv:
  assumes inv: "cluster_inv y" and en: "enabled True ev y" "meets benign ev y"
  shows "cluster_inv (cluster_exec X C ev y)"
proof -
  let ?r = "sv_raft (cl_server y)" and ?q = "sv_queue (cl_server y)"
  note parts = inv [unfolded cluster_inv_def]
  show ?thesis
  proof (cases ev)
    case (Work i clock now)
    obtain w r q where run: "task_step X clock now (sv_shutdown (cl_server y)) (cl_tasks y ! i, ?r, ?q) = (w, r, q)"
      by (metis prod_cases3)
    have i: "i < length (cl_tasks y)" "pc_room (raft_state ?r) (wt_pc (cl_tasks y ! i))"
      using en Work parts by (auto simp: tasks_ok_def)
    note one = task_step_inv [OF run _ _ i(2)]
    with parts have "tasks_ok (raft_state r) ((cl_tasks y)[i := w])"
      by (intro tasks_ok_update [OF _ i(1)]) auto
    with one parts Work run show ?thesis by (simp add: cluster_inv_def)
  next
    case (Session i t)
    obtain s r q where run: "session_move C t (cl_sessions y ! i, ?r, ?q) = (s, r, q)"
      by (metis prod_cases3)
    have "raft_safe r \<and> delivery_ok q \<and> (\<forall>pc. pc_room (raft_state ?r) pc \<longrightarrow> pc_room (raft_state r) pc)"
      by (rule session_move_inv [OF run]) (use parts en Session in auto)
    with parts run Session tasks_ok_mono show ?thesis by (simp add: cluster_inv_def) blast
  next
    case (Stop asleep)
    with parts tasks_ok_abort show ?thesis by (simp add: cluster_inv_def server_stop_def)
  next
    case Start
    with parts en show ?thesis by (auto simp: cluster_inv_def server_run_def tasks_ok_spawn)
  qed (use parts in \<open>simp_all add: cluster_inv_def\<close>)
qed

interpretation cluster_system: inductive_invariant cluster_init "cluster_step True benign X C" cluster_inv for X C
proof (unfold_locales, goal_cases)
  case (1 y)
  then obtain c where y: "cl_server y = server_new c" "cl_tasks y = []" by (auto simp: cluster_init_def)
  have "system_inv \<lparr>sy_server = cl_server y, sy_task = W_Exit\<rparr>"
    by (rule server_system.inv_init) (auto simp: system_init_def y)
  with y show ?case by (simp add: cluster_inv_def tasks_ok_def raft_safe_def system_inv_def)
next
  case (2 y y')
  from 2(2) show ?case by (rule cluster_step_elim) (use 2(1) cluster_exec_inv in simp)
qed

section \<open>What needs no assumption\<close>

text \<open>
  Whatever the clients ask for and however many workers there are: the log replays, allocations sit
  on registered nodes, those that are planned and not yet committed included, and deliveries are
  counted.
\<close>

fun pc_registered :: "state_store \<Rightarrow> worker_pc \<Rightarrow> bool" where
  "pc_registered s (W_Commit e p) = registered s (pl_allocs p)"
| "pc_registered s _ = True"

definition placed_inv :: "cluster \<Rightarrow> bool" where
  "placed_inv y \<longleftrightarrow> (let r = sv_raft (cl_server y); s = raft_state r in
     raft_inv r \<and> is_leader r \<and> delivery_ok (sv_queue (cl_server y)) \<and>
     registered s (list_allocs s) \<and> list_all (\<lambda>w. pc_registered s (wt_pc w)) (cl_tasks y))"

lemma propose_keeps: "\<lbrakk>raft_inv r; is_leader r\<rbrakk> \<Longrightarrow> raft_inv (snd (propose c r)) \<and> is_leader (snd (propose c r))"
  using raft_inv_propose [of r c]
  by (auto simp: propose_leader is_leader_def split: prod.splits sum.splits)

lemma propose_all_keeps:
  "\<lbrakk>raft_inv r; is_leader r\<rbrakk> \<Longrightarrow> raft_inv (snd (propose_all as r)) \<and> is_leader (snd (propose_all as r))"
proof (induction as arbitrary: r)
  case (Cons a as)
  obtain res r1 where p: "propose (UpsertAlloc a) r = (res, r1)" by fastforce
  with propose_keeps [OF Cons.prems, of "UpsertAlloc a"] Cons.IH [of r1] show ?case
    by (cases res) auto
qed simp

lemma worker_step_keeps:
  assumes "worker_step X clock now sd pc (r, q) = (pc', r', q')" and "raft_inv r" "is_leader r"
  shows "raft_inv r' \<and> is_leader r'"
proof (cases pc)
  case (W_Commit e p)
  with assms(1) have "r' = snd (propose_all (pl_allocs p) r)"
    by (auto split: prod.splits sum.splits)
  then show ?thesis using propose_all_keeps assms(2,3) by simp
qed (use assms in \<open>auto split: if_splits prod.splits sum.splits option.splits\<close>)

lemma propose_state:
  "raft_state (snd (propose c r)) = raft_state r \<or> raft_state (snd (propose c r)) = snd (state_apply c (raft_state r))"
  by (cases "is_leader r") (auto simp: propose_leader propose_follower raft_state_def split: prod.splits sum.splits)

lemma apply_nodes: "get_node s n \<noteq> None \<Longrightarrow> get_node (snd (state_apply c s)) n \<noteq> None"
proof (cases c)
  case (UpsertJob j)
  then show "get_node s n \<noteq> None \<Longrightarrow> ?thesis" using upsert_job_cases [of j s] by (auto simp: get_node_def)
next
  case (DeregisterJob name)
  then show "get_node s n \<noteq> None \<Longrightarrow> ?thesis" by (auto simp: get_node_def delete_job_def split: option.splits)
next
  case (UpsertNode m)
  then show "get_node s n \<noteq> None \<Longrightarrow> ?thesis" using upsert_node_cases [of m s] by (auto simp: get_node_def)
next
  case (UpsertAlloc a)
  then show "get_node s n \<noteq> None \<Longrightarrow> ?thesis" using upsert_alloc_cases [of a s] by (auto simp: get_node_def)
next
  case (UpsertEval e)
  then show "get_node s n \<noteq> None \<Longrightarrow> ?thesis" using upsert_eval_cases [of e s] by (auto simp: get_node_def)
qed

lemma apply_allocs_subset:
  "set (list_allocs (snd (state_apply c s))) \<subseteq> set (list_allocs s) \<union> (case c of UpsertAlloc a \<Rightarrow> {a} | _ \<Rightarrow> {})"
proof (cases c)
  case (UpsertAlloc a)
  have "set (hm_values (hm_insert k a m)) \<subseteq> insert a (set (hm_values m))" for k m
    by (induction m) auto
  from this [of "al_id a" "st_allocs s"] upsert_alloc_cases [of a s] UpsertAlloc show ?thesis
    by (auto simp: list_allocs_def simp del: set_map)
next
  case (UpsertJob j)
  with upsert_job_cases [of j s] show ?thesis by (auto simp: list_allocs_def)
next
  case (DeregisterJob name)
  then show ?thesis by (auto simp: list_allocs_def delete_job_def split: option.splits)
next
  case (UpsertNode n)
  with upsert_node_cases [of n s] show ?thesis by (auto simp: list_allocs_def)
next
  case (UpsertEval e)
  with upsert_eval_cases [of e s] show ?thesis by (auto simp: list_allocs_def)
qed

lemma propose_registered:
  assumes "registered (raft_state r) (list_allocs (raft_state r))" and "registered (raft_state r) as"
    and "\<And>a. c = UpsertAlloc a \<Longrightarrow> a \<in> set as"
  defines "s' \<equiv> raft_state (snd (propose c r))"
  shows "registered s' (list_allocs s') \<and> registered s' as"
proof -
  let ?s = "snd (state_apply c (raft_state r))"
  have "registered ?s as" "registered ?s (list_allocs (raft_state r))"
    using assms(1,2) apply_nodes by (auto simp: registered_def)
  moreover from this have "registered ?s (list_allocs ?s)"
    using apply_allocs_subset [of c "raft_state r"] assms(3)
    by (auto simp: registered_def split: command.splits)
  ultimately show ?thesis
    using propose_state [of c r] assms(1,2) by (auto simp: s'_def)
qed

lemma propose_all_registered:
  "\<lbrakk>registered (raft_state r) (list_allocs (raft_state r)); registered (raft_state r) as; registered (raft_state r) bs\<rbrakk> \<Longrightarrow>
     registered (raft_state (snd (propose_all as r))) (list_allocs (raft_state (snd (propose_all as r)))) \<and>
     registered (raft_state (snd (propose_all as r))) bs"
proof (induction as arbitrary: r)
  case (Cons a as)
  obtain res r1 where p: "propose (UpsertAlloc a) r = (res, r1)" by fastforce
  have "registered (raft_state r) (a # as @ bs)" using Cons.prems(2,3) by (auto simp: registered_def)
  from propose_registered [OF Cons.prems(1) this, of "UpsertAlloc a"] p
  have "registered (raft_state r1) (list_allocs (raft_state r1)) \<and> registered (raft_state r1) (a # as @ bs)" by simp
  then have "registered (raft_state r1) (list_allocs (raft_state r1))" "registered (raft_state r1) as"
    "registered (raft_state r1) bs" by (auto simp: registered_def)
  with Cons.IH [of r1] p show ?case by (cases res) auto
qed simp

lemma worker_step_moves:
  "worker_step X clock now sd pc (r, q) = (pc', r', q') \<Longrightarrow> queue_moves q q'"
proof (cases pc)
  case W_Dequeue
  assume "worker_step X clock now sd pc (r, q) = (pc', r', q')"
  with W_Dequeue have "q' = snd (dequeue now q)" by (auto split: prod.splits sum.splits option.splits)
  then show ?thesis by simp
qed (auto split: if_splits prod.splits sum.splits)

lemma plan_registered: "state_ok s \<Longrightarrow> registered s (pl_allocs (process_eval X e s))"
proof (cases "get_job s (ev_job_id e)")
  case (Some j)
  assume ok: "state_ok s"
  then have "get_node s (nd_id n) \<noteq> None" if "n \<in> set (list_nodes s)" for n
    using that nodes.listing_iff [of s n] by simp
  with process_eval_inv [OF ok Some, of X] show ?thesis
    by (auto simp: registered_def plan_inv_def alloc_justified_def)
qed (simp add: process_eval_def registered_def)

lemma pc_registered_mono:
  "\<lbrakk>pc_registered s pc; \<And>as. registered s as \<Longrightarrow> registered s' as\<rbrakk> \<Longrightarrow> pc_registered s' pc"
  by (cases pc) auto

lemma worker_step_registered:
  assumes run: "worker_step X clock now sd pc (r, q) = (pc', r', q')" and ok: "raft_inv r"
    and reg: "registered (raft_state r) (list_allocs (raft_state r))" and pc: "pc_registered (raft_state r) pc"
  shows "registered (raft_state r') (list_allocs (raft_state r')) \<and> pc_registered (raft_state r') pc' \<and>
    (\<forall>bs. registered (raft_state r) bs \<longrightarrow> registered (raft_state r') bs)"
proof (cases pc)
  case (W_Commit e p)
  with run have r': "r' = snd (propose_all (pl_allocs p) r)" and pc': "pc' \<in> {W_Check e, W_Ack e, W_Nack e}"
    by (auto split: prod.splits sum.splits if_splits)
  have "registered (raft_state r) (pl_allocs p)" using pc W_Commit by simp
  from propose_all_registered [OF reg this this] propose_all_registered [OF reg this] pc' show ?thesis
    unfolding r' by auto
next
  case (W_Plan e)
  with run reg plan_registered [OF raft_inv_ok [OF ok]] show ?thesis by auto
qed (use run reg in \<open>auto split: if_splits prod.splits sum.splits option.splits\<close>)

lemma cluster_exec_placed:
  assumes inv: "placed_inv y" and en: "enabled waits ev y"
  shows "placed_inv (cluster_exec X C ev y)"
proof -
  let ?r = "sv_raft (cl_server y)" and ?q = "sv_queue (cl_server y)"
  note parts = inv [unfolded placed_inv_def Let_def]
  show ?thesis
  proof (cases ev)
    case (Work i clock now)
    obtain w r q where run: "task_step X clock now (sv_shutdown (cl_server y)) (cl_tasks y ! i, ?r, ?q) = (w, r, q)"
      by (metis prod_cases3)
    then obtain pc where st: "worker_step X clock now (sv_shutdown (cl_server y)) (wt_pc (cl_tasks y ! i)) (?r, ?q) = (pc, r, q)"
      and w: "wt_pc w = pc \<or> wt_pc w = W_Exit"
      by (auto simp: task_step_def split: prod.splits if_splits)
    have i: "pc_registered (raft_state ?r) (wt_pc (cl_tasks y ! i))" using en Work parts by (auto simp: list_all_length)
    have one: "registered (raft_state r) (list_allocs (raft_state r)) \<and> pc_registered (raft_state r) pc \<and>
        (\<forall>bs. registered (raft_state ?r) bs \<longrightarrow> registered (raft_state r) bs)"
      by (rule worker_step_registered [OF st _ _ i]) (use parts in simp_all)
    have "list_all (\<lambda>w. pc_registered (raft_state r) (wt_pc w)) (cl_tasks y)"
      using parts one by (auto simp: list_all_iff intro: pc_registered_mono)
    then have "list_all (\<lambda>w. pc_registered (raft_state r) (wt_pc w)) ((cl_tasks y)[i := w])"
      using one w by (intro list_all_update) auto
    with one worker_step_keeps [OF st] queue_moves_delivery [OF worker_step_moves [OF st]] parts Work run
    show ?thesis by (simp add: placed_inv_def)
  next
    case (Session i t)
    obtain s r q where run: "session_move C t (cl_sessions y ! i, ?r, ?q) = (s, r, q)"
      by (metis prod_cases3)
    note moved = session_move_cases [OF run]
    have keep: "registered (raft_state r) (list_allocs (raft_state r)) \<and>
        (\<forall>bs. registered (raft_state ?r) bs \<longrightarrow> registered (raft_state r) bs)"
    proof (cases "r = ?r")
      case False
      with moved obtain req c where c: "request_command req = Some c" "r = snd (propose c ?r)" by blast
      from c(1) have "c \<noteq> UpsertAlloc a" for a by (cases req) auto
      with propose_registered [of ?r _ c] parts show ?thesis by (auto simp: c(2) registered_def)
    qed (use parts in simp)
    then have "list_all (\<lambda>w. pc_registered (raft_state r) (wt_pc w)) (cl_tasks y)"
      using parts by (auto simp: list_all_iff intro: pc_registered_mono)
    with keep moved propose_keeps queue_moves_delivery parts Session run show ?thesis
      by (auto simp: placed_inv_def)
  next
    case (Stop asleep)
    have "list_all (\<lambda>w. pc_registered (raft_state ?r) (wt_pc w)) (abort_last asleep (cl_tasks y))"
      using parts abort_last_nth [of _ "cl_tasks y" asleep]
      by (simp add: list_all_length) (metis pc_registered.simps(10))
    with parts Stop show ?thesis by (simp add: placed_inv_def server_stop_def)
  next
    case Start
    with parts show ?thesis by (simp add: placed_inv_def server_run_def)
  qed (use parts in \<open>simp_all add: placed_inv_def\<close>)
qed

interpretation placing: inductive_invariant cluster_init "cluster_step waits A X C" placed_inv for waits A X C
proof (unfold_locales, goal_cases)
  case (1 y)
  then obtain c where y: "cl_server y = server_new c" "cl_tasks y = []" by (auto simp: cluster_init_def)
  have "system_inv \<lparr>sy_server = cl_server y, sy_task = W_Exit\<rparr>"
    by (rule server_system.inv_init) (auto simp: system_init_def y)
  with y show ?case by (simp add: placed_inv_def system_inv_def store_inv_def)
next
  case (2 y y')
  from 2(2) show ?case by (rule cluster_step_elim) (use 2(1) cluster_exec_placed in simp)
qed

section \<open>Answered writes\<close>

text \<open>What a session has answered or is about to answer, and what that promises of the log.\<close>

definition answers :: "session \<Rightarrow> (request \<times> response) set" where
  "answers s = set (ss_served s) \<union>
     (case ss_pc s of
        Answering req resp \<Rightarrow> {(req, resp)}
      | Queueing req op resp \<Rightarrow> {(req, resp)}
      | _ \<Rightarrow> {})"

definition logged :: "command list \<Rightarrow> request \<Rightarrow> bool" where
  "logged cs req \<longleftrightarrow> (\<forall>c. request_command req = Some c \<longrightarrow> c \<in> set cs)"

definition writes_logged :: "command list \<Rightarrow> session \<Rightarrow> bool" where
  "writes_logged cs s \<longleftrightarrow> (\<forall>x\<in>answers s. logged cs (fst x))"

definition answers_inv :: "cluster \<Rightarrow> bool" where
  "answers_inv y \<longleftrightarrow>
     raft_inv (sv_raft (cl_server y)) \<and> is_leader (sv_raft (cl_server y)) \<and>
     list_all (writes_logged (rn_log (sv_raft (cl_server y)))) (cl_sessions y)"

lemma writes_logged_mono: "\<lbrakk>writes_logged cs s; prefix cs cs'\<rbrakk> \<Longrightarrow> writes_logged cs' s"
  using set_mono_prefix by (fastforce simp: writes_logged_def logged_def)

text \<open>On a leader a request only reaches the queue with its command in the log.\<close>

lemma handle_commit_logged:
  assumes "handle_commit nanos req r = (a, r')" and "is_leader r"
  shows "case a of
      Done (Inr resp) \<Rightarrow> False
    | Done (Inl e) \<Rightarrow> True
    | Then_Queue op resp \<Rightarrow> logged (rn_log r') req"
  using assms by (cases req)
    (auto simp: commit_then_def propose_leader logged_def split: if_splits prod.splits sum.splits)

lemma session_move_logged:
  assumes run: "session_move C t (s, r, q) = (s', r', q')" and ok: "writes_logged (rn_log r) s" "is_leader r"
  shows "prefix (rn_log r) (rn_log r') \<and> writes_logged (rn_log r') s'"
proof -
  have grows: "prefix (rn_log r) (rn_log r')"
    using session_move_cases [OF run] propose_log by auto
  have old: "writes_logged (rn_log r') s" by (rule writes_logged_mono [OF ok(1) grows])
  have "writes_logged (rn_log r') s'"
  proof (cases "ss_pc s")
    case (Handling req)
    obtain a r1 where a: "handle_commit (snd t) req r = (a, r1)" by fastforce
    from handle_commit_logged [OF this ok(2)] old run Handling a show ?thesis
      by (auto simp: session_move_def writes_logged_def answers_def split: after_commit.splits sum.splits)
  next
    case (Queueing req op resp)
    with old run show ?thesis
      by (auto simp: session_move_def writes_logged_def answers_def simp del: handle_queue.simps
          split: prod.splits sum.splits)
  qed (use old run in \<open>auto simp: session_move_def writes_logged_def answers_def
      split: prod.splits sum.splits option.splits\<close>)
  with grows show ?thesis by simp
qed

lemma cluster_exec_answers:
  assumes inv: "answers_inv y" and en: "enabled waits ev y"
  shows "answers_inv (cluster_exec X C ev y)"
proof -
  let ?r = "sv_raft (cl_server y)" and ?q = "sv_queue (cl_server y)"
  note parts = inv [unfolded answers_inv_def]
  show ?thesis
  proof (cases ev)
    case (Work i clock now)
    obtain w r q where run: "task_step X clock now (sv_shutdown (cl_server y)) (cl_tasks y ! i, ?r, ?q) = (w, r, q)"
      by (metis prod_cases3)
    then obtain pc where "worker_step X clock now (sv_shutdown (cl_server y)) (wt_pc (cl_tasks y ! i)) (?r, ?q) = (pc, r, q)"
      by (auto simp: task_step_def split: prod.splits)
    from worker_step_log [OF this] worker_step_keeps [OF this] parts
    have "raft_inv r \<and> is_leader r \<and> list_all (writes_logged (rn_log r)) (cl_sessions y)"
      by (auto simp: list_all_iff intro: writes_logged_mono)
    with Work run show ?thesis by (simp add: answers_inv_def with_parts_def)
  next
    case (Session i t)
    obtain s r q where run: "session_move C t (cl_sessions y ! i, ?r, ?q) = (s, r, q)"
      by (metis prod_cases3)
    have i: "i < length (cl_sessions y)" "writes_logged (rn_log ?r) (cl_sessions y ! i)"
      using en Session parts by (auto simp: list_all_length)
    have kept: "raft_inv r \<and> is_leader r"
      using session_move_cases [OF run] propose_keeps parts by auto
    have "prefix (rn_log ?r) (rn_log r) \<and> writes_logged (rn_log r) s"
      by (rule session_move_logged [OF run i(2)]) (use parts in simp)
    with parts i(1) have "list_all (writes_logged (rn_log r)) ((cl_sessions y)[i := s])"
      by (auto simp: list_all_length nth_list_update intro: writes_logged_mono)
    with kept Session run show ?thesis by (simp add: answers_inv_def with_parts_def)
  next
    case (Accept c)
    with parts show ?thesis by (simp add: answers_inv_def writes_logged_def answers_def)
  next
    case Start
    with parts show ?thesis by (simp add: answers_inv_def server_run_def)
  qed (use parts in \<open>simp_all add: answers_inv_def server_stop_def\<close>)
qed

interpretation answering: inductive_invariant cluster_init "cluster_step waits A X C" answers_inv for waits A X C
proof (unfold_locales, goal_cases)
  case (1 y)
  then show ?case
    by (auto simp: cluster_init_def answers_inv_def server_new_def raft_init_def is_leader_def
        raft_bootstrap_def intro!: raft_init_inv)
next
  case (2 y y')
  from 2(2) show ?case by (rule cluster_step_elim) (use 2(1) cluster_exec_answers in simp)
qed

section \<open>Requests and turns of a worker, as runs of the server\<close>

lemma with_parts_sessions: "with_parts r q (y\<lparr>cl_sessions := ss\<rparr>) = (with_parts r q y)\<lparr>cl_sessions := ss\<rparr>"
  by (cases y) (simp add: with_parts_def)

lemma session_reachable:
  assumes "reachable init (cluster_step waits A X C) (with_parts r q (y\<lparr>cl_sessions := xs @ [s]\<rparr>))"
    and "session_meets A (ss_pc s) (raft_state r)" and "session_move C t (s, r, q) = (s', r', q')"
  shows "reachable init (cluster_step waits A X C) (with_parts r' q' (y\<lparr>cl_sessions := xs @ [s']\<rparr>))"
  using reach_step [OF assms(1) cluster_event [of waits "Session (length xs) t"]] assms(2,3)
  by (simp add: with_parts_def)

lemma handling_move:
  "\<lbrakk>handle_commit (snd t) req r = (a, r'); ss_pc s = Handling req\<rbrakk> \<Longrightarrow>
     \<exists>s'. session_move C t (s, r, q) = (s', r', q) \<and> (\<forall>op resp. a = Then_Queue op resp \<longrightarrow> ss_pc s' = Queueing req op resp)"
  by (cases a) (auto simp: session_move_def split: sum.split)

text \<open>Any request that meets the assumption can be sent over a connection of its own, with nothing in between.\<close>

lemma request_reachable:
  assumes reach: "reachable init (cluster_step waits A X C) (with_parts r q y)" and acc: "cl_serve_error y = None"
    and dec: "dec_request C b = Inr req" "length b \<le> MAX_FRAME" and b: "A req (raft_state r)"
    and h: "handle inst nanos req (with_raft q r) = (resp, ep)"
  shows "\<exists>ss. reachable init (cluster_step waits A X C) (with_parts (ep_raft ep) (ep_queue ep) (y\<lparr>cl_sessions := ss\<rparr>))"
proof -
  let ?R = "\<lambda>r q s. reachable init (cluster_step waits A X C) (with_parts r q (y\<lparr>cl_sessions := cl_sessions y @ [s]\<rparr>))"
  let ?s = "\<lparr>ss_conn = plain_conn (frame b), ss_pc = Reading, ss_served = []\<rparr>"
  obtain c where "read_frame (dec_request C) (plain_conn (frame b)) = (Inr (Some req), c)"
    using read_frame_ok [of "plain_conn (frame b)" b "[]" "dec_request C"] dec by (auto simp: plain_conn_def)
  then have rd: "session_move C (inst, nanos) (?s, r, q) = (?s\<lparr>ss_conn := c, ss_pc := Handling req\<rparr>, r, q)"
    by (simp add: session_move_def)
  have "?R r q ?s"
    using reach_step [OF reach cluster_event [of waits "Accept (plain_conn (frame b))"]] acc
    by (simp add: with_parts_sessions) (simp add: with_parts_def)
  from session_reachable [OF this _ rd] have handling: "?R r q (?s\<lparr>ss_conn := c, ss_pc := Handling req\<rparr>)"
    by simp
  obtain a r1 where a: "handle_commit nanos req r = (a, r1)" by fastforce
  obtain s1 where mv: "session_move C (inst, nanos) (?s\<lparr>ss_conn := c, ss_pc := Handling req\<rparr>, r, q) = (s1, r1, q)"
    and s1: "\<And>op rp. a = Then_Queue op rp \<Longrightarrow> ss_pc s1 = Queueing req op rp"
    using handling_move [of "(inst, nanos)" req r a r1 "?s\<lparr>ss_conn := c, ss_pc := Handling req\<rparr>" C q] a by auto
  from session_reachable [OF handling _ mv] b have cmt: "?R r1 q s1" by simp
  show ?thesis
  proof (cases a)
    case (Done res)
    then show ?thesis using cmt h a by (auto simp: handle_split with_raft_def)
  next
    case (Then_Queue op rp)
    obtain res q1 where qr: "handle_queue inst op rp q = (res, q1)" by fastforce
    obtain s2 where "session_move C (inst, nanos) (s1, r1, q) = (s2, r1, q1)"
      using s1 [OF Then_Queue] qr by (cases res) (simp_all add: session_move_def)
    from session_reachable [OF cmt _ this] s1 [OF Then_Queue] have "?R r1 q1 s2" by simp
    then show ?thesis using h a Then_Queue qr by (auto simp: handle_split with_raft_def)
  qed
qed

fun all_meet :: "client_assumption \<Rightarrow> request list \<Rightarrow> endpoint \<Rightarrow> bool" where
  "all_meet A [] ep \<longleftrightarrow> True"
| "all_meet A (req # reqs) ep \<longleftrightarrow>
     A req (raft_state (ep_raft ep)) \<and> all_meet A reqs (snd (handle 0 0 req ep))"

definition handled :: "request list \<Rightarrow> endpoint \<Rightarrow> endpoint" where
  "handled reqs ep = fold (\<lambda>req ep. snd (handle 0 0 req ep)) reqs ep"

lemma requests_reachable:
  assumes "reachable init (cluster_step waits A X C) (with_parts (ep_raft ep) (ep_queue ep) y)"
    and "cl_serve_error y = None" and "all_meet A reqs ep"
    and "\<forall>req\<in>set reqs. \<exists>b. dec_request C b = Inr req \<and> length b \<le> MAX_FRAME"
  shows "\<exists>ss. reachable init (cluster_step waits A X C)
    (with_parts (ep_raft (handled reqs ep)) (ep_queue (handled reqs ep)) (y\<lparr>cl_sessions := ss\<rparr>))"
  using assms
proof (induction reqs arbitrary: ep y)
  case Nil
  then show ?case by (intro exI [of _ "cl_sessions y"]) (simp add: handled_def)
next
  case (Cons req reqs)
  obtain resp ep1 where h: "handle 0 0 req (with_raft (ep_queue ep) (ep_raft ep)) = (resp, ep1)" by fastforce
  have ep: "with_raft (ep_queue ep) (ep_raft ep) = ep" by (simp add: with_raft_def)
  obtain b where b: "dec_request C b = Inr req" "length b \<le> MAX_FRAME" using Cons.prems(4) by auto
  obtain ss where "reachable init (cluster_step waits A X C) (with_parts (ep_raft ep1) (ep_queue ep1) (y\<lparr>cl_sessions := ss\<rparr>))"
    using request_reachable [OF Cons.prems(1,2) b _ h] Cons.prems(3) by auto
  from Cons.IH [OF this] Cons.prems h show ?case by (simp add: handled_def ep)
qed

text \<open>A worker at the top of its loop gets to the point where it has planned; then it commits.\<close>

lemma work_reachable:
  assumes "reachable init (cluster_step waits A X C) (with_parts r q y)" and "i < length (cl_tasks y)"
    and "worker_step X (\<lambda>_. 0) 0 (sv_shutdown (cl_server y)) (wt_pc (cl_tasks y ! i)) (r, q) = (pc, r', q')"
    and "\<not> sleeps (wt_pc (cl_tasks y ! i)) pc"
  shows "reachable init (cluster_step waits A X C)
    (with_parts r' q' (y\<lparr>cl_tasks := (cl_tasks y)[i := (cl_tasks y ! i)\<lparr>wt_pc := pc\<rparr>]\<rparr>))"
  using reach_step [OF assms(1) cluster_event [of waits "Work i (\<lambda>_. 0) 0"]] assms(2-4)
  by (simp add: with_parts_def task_step_def)

lemma worker_plans:
  assumes reach: "reachable init (cluster_step waits A X C) (with_parts r q y)" and i: "i < length (cl_tasks y)"
    and pc: "wt_pc (cl_tasks y ! i) = W_Top" and run: "\<not> sv_shutdown (cl_server y)" "is_leader r" "\<not> q_poisoned q"
    and dq: "dequeue 0 q = (Inr (Some e), q')"
  shows "reachable init (cluster_step waits A X C) (with_parts r q' (y\<lparr>cl_tasks :=
    (cl_tasks y)[i := (cl_tasks y ! i)\<lparr>wt_pc := W_Commit e (process_eval X e (raft_state r))\<rparr>]\<rparr>))"
proof -
  let ?R = "\<lambda>q pc. reachable init (cluster_step waits A X C)
    (with_parts r q (y\<lparr>cl_tasks := (cl_tasks y)[i := (cl_tasks y ! i)\<lparr>wt_pc := pc\<rparr>]\<rparr>))"
  have step: "?R q2 pc2" if "?R q1 pc1" "worker_step X (\<lambda>_. 0) 0 False pc1 (r, q1) = (pc2, r, q2)" "\<not> sleeps pc1 pc2"
    for pc1 q1 pc2 q2
    using work_reachable [OF that(1), of i pc2 r q2] that(2,3) i run by simp
  have "(cl_tasks y)[i := (cl_tasks y ! i)\<lparr>wt_pc := W_Top\<rparr>] = cl_tasks y"
    using pc by (metis list_update_id worker_task.surjective worker_task.update_convs(1))
  then have "?R q W_Top" using reach by simp
  from step [OF this, of W_Reap q] run have "?R q W_Reap" by (simp add: sleeps_def)
  from step [OF this, of W_Dequeue q] run have "?R q W_Dequeue" by (simp add: reap_nothing sleeps_def)
  from step [OF this, of "W_Plan e" q'] dq have "?R q' (W_Plan e)" by (simp add: sleeps_def)
  from step [OF this] show ?thesis by (simp add: sleeps_def)
qed

lemma worker_commits:
  assumes reach: "reachable init (cluster_step waits A X C) (with_parts r q y)" and i: "i < length (cl_tasks y)"
    and pc: "wt_pc (cl_tasks y ! i) = W_Commit e p"
  shows "\<exists>pc'. reachable init (cluster_step waits A X C) (with_parts (snd (propose_all (pl_allocs p) r)) q
    (y\<lparr>cl_tasks := (cl_tasks y)[i := (cl_tasks y ! i)\<lparr>wt_pc := pc'\<rparr>]\<rparr>))"
proof -
  obtain res r' where p: "propose_all (pl_allocs p) r = (res, r')" by fastforce
  let ?pc = "fst (worker_step X (\<lambda>_. 0) 0 (sv_shutdown (cl_server y)) (W_Commit e p) (r, q))"
  show ?thesis
    by (intro exI [of _ ?pc] work_reachable [OF reach i])
      (use pc p in \<open>cases res; simp add: sleeps_def\<close>)+
qed

section \<open>Examples\<close>

text \<open>A node and two jobs, each of which fits the node, but not both.\<close>

definition letters :: codecs where
  "letters = \<lparr>
     dec_request = (\<lambda>b. if b = ''n'' then Inr (Req_NodeRegister sample_node)
                        else if b = ''a'' \<or> b = ''b'' then Inr (Req_JobRegister (sample_job\<lparr>jb_name := b\<rparr>))
                        else Inl (Runtime ''unknown'')),
     enc_response = (\<lambda>_. Inr [])\<rparr>"

definition booking :: "request list" where
  "booking = [Req_NodeRegister sample_node, Req_JobRegister (sample_job\<lparr>jb_name := ''a''\<rparr>),
              Req_JobRegister (sample_job\<lparr>jb_name := ''b''\<rparr>)]"

definition booked :: endpoint where
  "booked = handled booking (server_endpoint (server_new sample_config))"

definition job_eval :: "string \<Rightarrow> evaluation" where
  "job_eval name = sample_eval\<lparr>ev_id := eval_id_for 0 name, ev_job_id := name\<rparr>"

text \<open>The server after its start, with nothing asked of it yet.\<close>

definition started :: cluster where
  "started = \<lparr>cl_server = snd (server_run (server_new sample_config)),
     cl_tasks = [\<lparr>wt_pc = W_Top, wt_aborted = False\<rparr>], cl_sessions = [], cl_serve_error = None\<rparr>"

lemma started_reachable: "reachable cluster_init (cluster_step waits A X C) started"
proof -
  let ?y = "\<lparr>cl_server = server_new sample_config, cl_tasks = [], cl_sessions = [], cl_serve_error = None\<rparr>"
  have "reachable cluster_init (cluster_step waits A X C) ?y"
    by (rule reach_init) (auto simp: cluster_init_def)
  from reach_step [OF this cluster_event [of waits Start]] show ?thesis
    by (simp add: started_def server_run_def all_exited_def server_new_def)
qed

lemma with_parts_id: "with_parts (sv_raft (cl_server y)) (sv_queue (cl_server y)) y = y"
  by (simp add: with_parts_def)

lemma booking_benign: "all_meet benign booking (server_endpoint (server_new sample_config))"
proof -
  have "demand_fits sample_group"
    by (simp add: demand_fits_def ball_dims sample_group_def)
  moreover have "resources_ok (nd_resources sample_node)"
    by (simp add: resources_ok_def ball_dims sample_node_def)
  moreover have "get_node (raft_state (ep_raft (server_endpoint (server_new sample_config)))) (nd_id sample_node) = None"
    by code_simp
  ultimately show ?thesis by (simp add: booking_def benign_def sample_job_def)
qed

lemma booked_reachable:
  "\<exists>ss. reachable cluster_init (cluster_step waits benign X letters)
     (with_parts (ep_raft booked) (ep_queue booked) (started\<lparr>cl_sessions := ss\<rparr>))"
  unfolding booked_def
proof (rule requests_reachable)
  let ?ep = "server_endpoint (server_new sample_config)"
  have "with_parts (ep_raft ?ep) (ep_queue ?ep) started = started"
    by (simp add: with_parts_def started_def server_endpoint_def with_raft_def server_run_def)
  then show "reachable cluster_init (cluster_step waits benign X letters) (with_parts (ep_raft ?ep) (ep_queue ?ep) started)"
    by (simp add: started_reachable)
  have "dec_request letters ''n'' = Inr (Req_NodeRegister sample_node)"
    "dec_request letters ''a'' = Inr (Req_JobRegister (sample_job\<lparr>jb_name := ''a''\<rparr>))"
    "dec_request letters ''b'' = Inr (Req_JobRegister (sample_job\<lparr>jb_name := ''b''\<rparr>))"
    by (simp_all add: letters_def)
  moreover have "length ''n'' \<le> MAX_FRAME" "length ''a'' \<le> MAX_FRAME" "length ''b'' \<le> MAX_FRAME"
    by (simp_all add: MAX_FRAME_def)
  ultimately show "\<forall>req\<in>set booking. \<exists>b. dec_request letters b = Inr req \<and> length b \<le> MAX_FRAME"
    unfolding booking_def by (metis empty_iff empty_set set_ConsD)
qed (simp_all add: started_def booking_benign)

lemma booked_facts:
  "is_leader (ep_raft booked)" "\<not> q_poisoned (ep_queue booked)"
  "\<not> q_poisoned (snd (dequeue 0 (ep_queue booked)))"
  "fst (dequeue 0 (ep_queue booked)) = Inr (Some (job_eval ''a''))"
  "fst (dequeue 0 (snd (dequeue 0 (ep_queue booked)))) = Inr (Some (job_eval ''b''))"
  by code_simp+

definition plan_of :: "string \<Rightarrow> plan" where
  "plan_of name = process_eval no_crates (job_eval name) (raft_state (ep_raft booked))"

definition overcommitted :: raft_node where
  "overcommitted = snd (propose_all (pl_allocs (plan_of ''a''))
     (snd (propose_all (pl_allocs (plan_of ''b'')) (ep_raft booked))))"

lemma overcommitted_facts:
  "list_nodes (raft_state overcommitted) = [sample_node]"
  "sint (cpu_mhz (nd_resources sample_node)) < used cpu_mhz ''n1'' (list_allocs (raft_state overcommitted))"
  by code_simp+

section \<open>Properties\<close>

text \<open>C1. Safety of the whole server at the granularity of its locks. Whatever the clients ask for and
  whatever the interleaving of its connections, each between any two of its locks, with its
  scheduler workers, stops and restarts: the committed log replays to the served state, that state
  is well formed, every allocation is on a registered node, and every evaluation in flight has been
  delivered at most three times. The live allocations of every node also fit its resources in every
  dimension, under two conditions that the code does not enforce: a restart waits until the old
  worker is gone, and clients are benign, that is, they register no job with a group whose demand
  overflows 32 bits, and no node with negative resources or with less than it offered before.\<close>

theorem concurrent_server_safe:
  assumes "reachable cluster_init (cluster_step waits A X C) y"
  shows "let r = sv_raft (cl_server y); s = raft_state r in
    replay (rn_log r) state_new = Some s \<and> state_ok s \<and>
    (\<forall>a\<in>set (list_allocs s). get_node s (al_node_id a) \<noteq> None) \<and>
    (\<forall>(i, pe)\<in>set (q_in_flight (sv_queue (cl_server y))). unat (pe_dequeues pe) \<le> 3) \<and>
    (waits \<and> (\<forall>req s. A req s \<longrightarrow> benign req s) \<longrightarrow>
       (\<forall>n\<in>set (list_nodes s). \<forall>d\<in>dims. used d (nd_id n) (list_allocs s) \<le> sint (d (nd_resources n))))"
proof -
  have inv: "placed_inv y" by (rule placing.reachable_inv [OF assms])
  have capacity: "capacity_ok (raft_state (sv_raft (cl_server y)))" if "waits" "\<forall>req s. A req s \<longrightarrow> benign req s"
  proof -
    have "reachable cluster_init (cluster_step True benign X C) y"
      using cluster_step_weaken [of waits A X C y benign] assms that by simp
    then have "cluster_inv y" by (rule cluster_system.reachable_inv)
    then show ?thesis by (simp add: cluster_inv_def raft_safe_def store_inv_def)
  qed
  then show ?thesis
    using inv raft_inv_ok by (auto simp: placed_inv_def Let_def capacity_ok_def registered_def raft_inv_def delivery_ok_def)
qed

theorem concurrent_server_safe_witness:
  "\<exists>y. reachable cluster_init (cluster_step True benign no_crates letters) y \<and>
     length (rn_log (sv_raft (cl_server y))) = 3 \<and>
     replay (rn_log (sv_raft (cl_server y))) state_new = Some (raft_state (sv_raft (cl_server y))) \<and>
     used cpu_mhz ''n1'' (list_allocs (raft_state (sv_raft (cl_server y)))) \<le> 1000"
proof -
  obtain ss where ss: "reachable cluster_init (cluster_step True benign no_crates letters)
      (with_parts (ep_raft booked) (ep_queue booked) (started\<lparr>cl_sessions := ss\<rparr>))"
    using booked_reachable by blast
  have "length (rn_log (ep_raft booked)) = 3" by code_simp
  moreover have "list_nodes (raft_state (ep_raft booked)) = [sample_node]" by code_simp
  then have "replay (rn_log (ep_raft booked)) state_new = Some (raft_state (ep_raft booked))"
    "used cpu_mhz ''n1'' (list_allocs (raft_state (ep_raft booked))) \<le> 1000"
    using concurrent_server_safe [OF ss] by (simp_all add: Let_def ball_dims) (simp add: sample_node_def)
  ultimately show ?thesis
    using ss by (intro exI [of _ "with_parts (ep_raft booked) (ep_queue booked) (started\<lparr>cl_sessions := ss\<rparr>)"]) simp
qed

text \<open>C2. No write that a client was told about is lost: in every state of the server, whatever the
  clients ask for and whenever the server is restarted, the command of every write that has been
  answered on a connection is in the committed log, and that log replays to the served state.\<close>

theorem answered_writes_are_logged:
  assumes "reachable cluster_init (cluster_step waits A X C) y"
    and "s \<in> set (cl_sessions y)" and "(req, resp) \<in> set (ss_served s)" and "request_command req = Some c"
  shows "c \<in> set (rn_log (sv_raft (cl_server y))) \<and>
    replay (rn_log (sv_raft (cl_server y))) state_new = Some (raft_state (sv_raft (cl_server y)))"
proof -
  have inv: "answers_inv y" by (rule answering.reachable_inv [OF assms(1)])
  then have "writes_logged (rn_log (sv_raft (cl_server y))) s"
    using assms(2) by (simp add: answers_inv_def list_all_iff)
  with assms(3,4) inv show ?thesis
    by (force simp: writes_logged_def answers_def logged_def answers_inv_def raft_inv_def)
qed

text \<open>A connection on which a node has been registered and the answer has been written.\<close>

lemma answered_reachable:
  "\<exists>y s. reachable cluster_init (cluster_step waits benign X letters) y \<and> cl_sessions y = [s] \<and>
     ss_served s = [(Req_NodeRegister sample_node, Resp_Ack)]"
proof -
  let ?r = "sv_raft (cl_server started)" and ?q = "sv_queue (cl_server started)" and ?req = "Req_NodeRegister sample_node"
  let ?R = "\<lambda>r q s. reachable cluster_init (cluster_step waits benign X letters) (with_parts r q (started\<lparr>cl_sessions := [] @ [s]\<rparr>))"
  let ?s = "\<lambda>c pc. \<lparr>ss_conn = c, ss_pc = pc, ss_served = []\<rparr>"
  let ?c = "(plain_conn (frame ''n''))\<lparr>cn_in := []\<rparr>"
  have dec: "dec_request letters ''n'' = Inr ?req" "length ''n'' \<le> MAX_FRAME" "enc_response letters Resp_Ack = Inr []"
    by (simp_all add: letters_def MAX_FRAME_def)
  have 1: "session_move letters (0, 0) (?s (plain_conn (frame ''n'')) Reading, ?r, ?q) = (?s ?c (Handling ?req), ?r, ?q)"
    using read_frame_ok [of "plain_conn (frame ''n'')" "''n''" "[]" "dec_request letters"] dec
    by (simp add: session_move_def plain_conn_def)
  obtain r1 where "handle_commit 0 ?req ?r = (Then_Queue Q_Unblock Resp_Ack, r1)"
  proof -
    have "fst (handle_commit 0 ?req ?r) = Then_Queue Q_Unblock Resp_Ack" by code_simp
    then show thesis by (intro that [of "snd (handle_commit 0 ?req ?r)"]) (simp add: prod_eq_iff)
  qed
  then have 2: "session_move letters (0, 0) (?s ?c (Handling ?req), ?r, ?q) = (?s ?c (Queueing ?req Q_Unblock Resp_Ack), r1, ?q)"
    by (simp add: session_move_def)
  have "\<not> q_poisoned ?q" by code_simp
  then have 3: "session_move letters (0, 0) (?s ?c (Queueing ?req Q_Unblock Resp_Ack), r1, ?q) =
      (?s ?c (Answering ?req Resp_Ack), r1, snd (unblock_all ?q))"
    by (simp add: session_move_def unblock_all_def split: prod.split)
  have "write_frame (enc_response letters) Resp_Ack ?c = (Inr (), ?c\<lparr>cn_out := cn_out ?c @ frame []\<rparr>)"
    by (rule write_frame_ok) (simp_all add: dec plain_conn_def)
  then have 4: "session_move letters (0, 0) (?s ?c (Answering ?req Resp_Ack), r1, snd (unblock_all ?q)) =
      ((?s (?c\<lparr>cn_out := cn_out ?c @ frame []\<rparr>) Reading)\<lparr>ss_served := [(?req, Resp_Ack)]\<rparr>, r1, snd (unblock_all ?q))"
    by (simp add: session_move_def)
  have "?R ?r ?q (?s (plain_conn (frame ''n'')) Reading)"
    using reach_step [OF started_reachable cluster_event [of waits "Accept (plain_conn (frame ''n''))"]]
    by (simp add: started_def with_parts_def)
  from session_reachable [OF this _ 1] have "?R ?r ?q (?s ?c (Handling ?req))" by simp
  from session_reachable [OF this _ 2] have "?R r1 ?q (?s ?c (Queueing ?req Q_Unblock Resp_Ack))"
    using booking_benign by (simp add: booking_def started_def server_run_def server_endpoint_def with_raft_def)
  from session_reachable [OF this _ 3] have "?R r1 (snd (unblock_all ?q)) (?s ?c (Answering ?req Resp_Ack))" by simp
  from session_reachable [OF this _ 4] show ?thesis by fastforce
qed

theorem answered_writes_are_logged_witness:
  "\<exists>y s. reachable cluster_init (cluster_step False anything no_crates letters) y \<and> cl_sessions y = [s] \<and>
     ss_served s = [(Req_NodeRegister sample_node, Resp_Ack)] \<and>
     UpsertNode sample_node \<in> set (rn_log (sv_raft (cl_server y)))"
proof -
  obtain y s where y: "reachable cluster_init (cluster_step False anything no_crates letters) y" "cl_sessions y = [s]"
    "ss_served s = [(Req_NodeRegister sample_node, Resp_Ack)]"
    using answered_reachable anything_weaken by blast
  with answered_writes_are_logged [OF y(1), of s "Req_NodeRegister sample_node" Resp_Ack "UpsertNode sample_node"]
  show ?thesis by auto
qed

text \<open>A connection that is served with nothing in between is the sequential loop: from a session
  that waits for a frame, finitely many of its steps close it, with the bytes, the log and the
  queue that \<open>serve_conn\<close> gives.\<close>

theorem session_is_serve_conn:
  assumes "ss_pc s = Reading"
  shows "\<exists>n s' ep'. ss_pc s' = Closed \<and>
    session_run C clock n (s, ep_raft ep, ep_queue ep) = (s', ep_raft ep', ep_queue ep') \<and>
    serve_conn (dec_request C) (enc_response C) clock (length (ss_served s)) (ss_conn s) ep = (ss_conn s', ep')"
  using assms
proof (induction "length (cn_in (ss_conn s))" arbitrary: s ep rule: less_induct)
  case less
  from less.prems show ?case
  proof (cases rule: session_turn [where X = C and clock = clock and ep = ep])
    case (closed n s' ep')
    then show ?thesis by blast
  next
    case (again n s1 ep1)
    from less.hyps [OF again(4,1)] obtain m s' ep' where "ss_pc s' = Closed"
      "session_run C clock m (s1, ep_raft ep1, ep_queue ep1) = (s', ep_raft ep', ep_queue ep')"
      "serve_conn (dec_request C) (enc_response C) clock (length (ss_served s1)) (ss_conn s1) ep1 = (ss_conn s', ep')"
      by blast
    with again(2,3) show ?thesis by (metis session_run_add)
  qed
qed

theorem session_is_serve_conn_witness:
  "\<exists>n s' ep'. ss_pc s' = Closed \<and>
     session_run letters (\<lambda>_. (0, 0)) n (\<lparr>ss_conn = plain_conn [], ss_pc = Reading, ss_served = []\<rparr>,
       ep_raft booked, ep_queue booked) = (s', ep_raft ep', ep_queue ep') \<and>
     serve_conn (dec_request letters) (enc_response letters) (\<lambda>_. (0, 0)) 0 (plain_conn []) booked = (ss_conn s', ep')"
  using session_is_serve_conn [of "\<lparr>ss_conn = plain_conn [], ss_pc = Reading, ss_served = []\<rparr>" letters "\<lambda>_. (0, 0)" booked,
      OF session.select_convs(2)]
  by simp

text \<open>C30. Without that wait a restart breaks the capacity of a node: \<open>stop\<close> only asks the worker to
  end, \<open>run\<close> clears the flag it would look at, and a plan is committed as it was made. There is
  a run in which the old worker commits a plan that the new worker's commit has made obsolete,
  and the one node there is ends up with more than it offers, although all clients are benign.\<close>

theorem restart_race_oversubscribes:
  "\<exists>y. reachable cluster_init (cluster_step False benign no_crates letters) y \<and>
     list_nodes (raft_state (sv_raft (cl_server y))) = [sample_node] \<and>
     sint (cpu_mhz (nd_resources sample_node)) <
       used cpu_mhz (nd_id sample_node) (list_allocs (raft_state (sv_raft (cl_server y))))"
proof -
  let ?R = "reachable cluster_init (cluster_step False benign no_crates letters)"
  let ?r = "ep_raft booked" and ?q1 = "snd (dequeue 0 (ep_queue booked))"
  let ?q2 = "snd (dequeue 0 ?q1)"
  obtain ss where "?R (with_parts ?r (ep_queue booked) (started\<lparr>cl_sessions := ss\<rparr>))"
    using booked_reachable by blast
  from worker_plans [OF this, of 0 "job_eval ''a''" ?q1]
  have planned: "?R (with_parts ?r ?q1 (started\<lparr>cl_sessions := ss, cl_tasks :=
      [\<lparr>wt_pc = W_Commit (job_eval ''a'') (plan_of ''a''), wt_aborted = False\<rparr>]\<rparr>))"
    by (simp add: started_def server_run_def booked_facts prod_eq_iff plan_of_def server_new_def)
  let ?y = "started\<lparr>cl_sessions := ss, cl_tasks :=
      [\<lparr>wt_pc = W_Commit (job_eval ''a'') (plan_of ''a''), wt_aborted = True\<rparr>, \<lparr>wt_pc = W_Top, wt_aborted = False\<rparr>]\<rparr>"
  have "?R (run_events no_crates letters [Stop False, Start] (with_parts ?r ?q1 (started\<lparr>cl_sessions := ss, cl_tasks :=
      [\<lparr>wt_pc = W_Commit (job_eval ''a'') (plan_of ''a''), wt_aborted = False\<rparr>]\<rparr>)))"
    by (rule run_events_reachable [OF planned]) simp
  then have "?R (with_parts ?r ?q1 ?y)"
    by (simp add: with_parts_def started_def server_run_def server_stop_def abort_last_def server_new_def)
  from worker_plans [OF this, of 1 "job_eval ''b''" ?q2]
  have "?R (with_parts ?r ?q2 (?y\<lparr>cl_tasks :=
      [\<lparr>wt_pc = W_Commit (job_eval ''a'') (plan_of ''a''), wt_aborted = True\<rparr>,
       \<lparr>wt_pc = W_Commit (job_eval ''b'') (plan_of ''b''), wt_aborted = False\<rparr>]\<rparr>))"
    by (simp add: started_def server_run_def booked_facts prod_eq_iff plan_of_def server_new_def)
  from worker_commits [OF this, of 1] obtain w where
    "?R (with_parts (snd (propose_all (pl_allocs (plan_of ''b'')) ?r)) ?q2 (?y\<lparr>cl_tasks :=
      [\<lparr>wt_pc = W_Commit (job_eval ''a'') (plan_of ''a''), wt_aborted = True\<rparr>, w]\<rparr>))"
    by auto
  from worker_commits [OF this, of 0] obtain ws where "?R (with_parts overcommitted ?q2 (?y\<lparr>cl_tasks := ws\<rparr>))"
    by (auto simp: overcommitted_def)
  moreover have "nd_id sample_node = ''n1''" by (simp add: sample_node_def)
  ultimately show ?thesis
    using overcommitted_facts by (intro exI [of _ "with_parts overcommitted ?q2 (?y\<lparr>cl_tasks := ws\<rparr>)"]) simp
qed

section \<open>A client and its server\<close>

text \<open>
  \<open>RpcClient::connect\<close>: \<open>dial\<close> is what the network makes of an address. The far end of a
  connection reads what the client has sent, and what it sends back is what the client reads.
\<close>

definition client_connect :: "(string \<Rightarrow> io_error + conn) \<Rightarrow> string \<Rightarrow> conn result" where
  "client_connect dial addr = (case dial addr of Inl e \<Rightarrow> Inl (io_into e) | Inr stream \<Rightarrow> Inr stream)"

definition far_end :: "codecs \<Rightarrow> (nat \<Rightarrow> nat \<times> nat) \<Rightarrow> endpoint \<Rightarrow> conn \<Rightarrow> conn" where
  "far_end C clock ep c =
     c\<lparr>cn_in := cn_out (fst (serve_conn (dec_request C) (enc_response C) clock 0 (plain_conn (cn_out c)) ep))\<rparr>"

definition remote_call ::
    "(string \<Rightarrow> io_error + conn) \<Rightarrow> (request \<Rightarrow> string result) \<Rightarrow> (string \<Rightarrow> response result) \<Rightarrow> codecs
       \<Rightarrow> (nat \<Rightarrow> nat \<times> nat) \<Rightarrow> string \<Rightarrow> request \<Rightarrow> endpoint \<Rightarrow> response result" where
  "remote_call dial enc dec C clock addr req ep =
     (case client_connect dial addr of
        Inl e \<Rightarrow> Inl e
      | Inr c \<Rightarrow> fst (client_call enc dec req (far_end C clock ep) c))"

lemma serve_one:
  assumes dec: "dec_request C bytes = Inr req" "length bytes \<le> MAX_FRAME"
    and h: "handle (fst (clock 0)) (snd (clock 0)) req ep = (res, ep')"
    and enc: "\<And>resp. res = Inr resp \<Longrightarrow> enc_response C resp = Inr rbytes \<and> length rbytes \<le> MAX_FRAME"
  shows "cn_out (fst (serve_conn (dec_request C) (enc_response C) clock 0 (plain_conn (frame bytes)) ep)) =
    (case res of Inl e \<Rightarrow> [] | Inr resp \<Rightarrow> frame rbytes)"
proof -
  have rd: "read_frame (dec_request C) (plain_conn (frame bytes)) = (Inr (Some req), plain_conn [])"
    using read_frame_ok [of "plain_conn (frame bytes)" bytes "[]" "dec_request C"] dec by (simp add: plain_conn_def)
  show ?thesis
  proof (cases res)
    case (Inl e)
    then show ?thesis by (simp add: serve_conn.simps [of _ _ _ _ "plain_conn (frame bytes)"] rd h) (simp add: plain_conn_def)
  next
    case (Inr resp)
    have wr: "write_frame (enc_response C) resp (plain_conn []) = (Inr (), (plain_conn [])\<lparr>cn_out := frame rbytes\<rparr>)"
      using write_frame_ok [of "enc_response C" resp rbytes "plain_conn []"] enc [OF Inr] by (simp add: plain_conn_def)
    have eof: "read_frame (dec_request C) ((plain_conn [])\<lparr>cn_out := frame rbytes\<rparr>) =
        (Inr None, (plain_conn [])\<lparr>cn_out := frame rbytes\<rparr>)"
      using read_frame_eof [of "(plain_conn [])\<lparr>cn_out := frame rbytes\<rparr>"] by (simp add: plain_conn_def)
    show ?thesis
      using Inr by (simp add: serve_conn.simps [of _ _ _ _ "plain_conn (frame bytes)"] rd h wr
          serve_conn.simps [of _ _ _ _ "(plain_conn [])\<lparr>cn_out := frame rbytes\<rparr>"] eof)
  qed
qed

text \<open>C29. A call over a connection is the handler: with codecs that agree, the client gets the
  response of the server's endpoint; when the handler fails it gets the error that the
  connection was closed, never the reason; and when it cannot connect it gets the error of the
  connection attempt.\<close>

theorem remote_call_is_handle:
  assumes "codec_for enc (dec_request C) req" 
    and "\<And>resp. fst (handle (fst (clock 0)) (snd (clock 0)) req ep) = Inr resp \<Longrightarrow> codec_for (enc_response C) dec resp"
    and "\<And>c. dial addr = Inr c \<Longrightarrow> c = plain_conn []"
  shows "remote_call dial enc dec C clock addr req ep =
    (case dial addr of
       Inl e \<Rightarrow> Inl (io_into e)
     | Inr _ \<Rightarrow> (case fst (handle (fst (clock 0)) (snd (clock 0)) req ep) of
                  Inl _ \<Rightarrow> Inl (Runtime ''rpc connection closed by server'')
                | Inr resp \<Rightarrow> Inr resp))"
proof (cases "dial addr")
  case (Inl e)
  then show ?thesis by (simp add: remote_call_def client_connect_def)
next
  case (Inr c)
  obtain res ep' where h: "handle (fst (clock 0)) (snd (clock 0)) req ep = (res, ep')" by fastforce
  from assms(1) obtain bytes where b: "enc req = Inr bytes" "dec_request C bytes = Inr req" "length bytes \<le> MAX_FRAME"
    by (auto simp: codec_for_def)
  obtain rbytes where r: "\<And>resp. res = Inr resp \<Longrightarrow>
      enc_response C resp = Inr rbytes \<and> length rbytes \<le> MAX_FRAME \<and> dec rbytes = Inr resp"
    using assms(2) [of "projr res"] h by (cases res) (auto simp: codec_for_def)
  have sent: "write_frame enc req (plain_conn []) = (Inr (), (plain_conn [])\<lparr>cn_out := frame bytes\<rparr>)"
    using write_frame_ok [of enc req bytes "plain_conn []"] b by (simp add: plain_conn_def)
  have reply: "far_end C clock ep ((plain_conn [])\<lparr>cn_out := frame bytes\<rparr>) =
      (plain_conn (case res of Inl e \<Rightarrow> [] | Inr resp \<Rightarrow> frame rbytes))\<lparr>cn_out := frame bytes\<rparr>"
    using serve_one [where C = C and clock = clock and ep = ep, OF b(2,3) h, of rbytes] r
    by (simp add: far_end_def plain_conn_def)
  have "fst (read_frame dec ((plain_conn (case res of Inl e \<Rightarrow> [] | Inr resp \<Rightarrow> frame rbytes))\<lparr>cn_out := frame bytes\<rparr>)) =
      Inr (case res of Inl e \<Rightarrow> None | Inr resp \<Rightarrow> Some resp)"
  proof (cases res)
    case (Inl e)
    then show ?thesis using read_frame_eof [of "(plain_conn [])\<lparr>cn_out := frame bytes\<rparr>" dec] by (simp add: plain_conn_def)
  next
    case ok: (Inr resp)
    then show ?thesis
      using read_frame_ok [of "(plain_conn (frame rbytes))\<lparr>cn_out := frame bytes\<rparr>" rbytes "[]" dec] r [OF ok]
      by (simp add: plain_conn_def)
  qed
  then show ?thesis
    using assms(3) [OF Inr] Inr h sent reply
    by (auto simp: remote_call_def client_connect_def client_call_def sbind_def slift_def split: sum.splits prod.splits)
qed


theorem remote_call_is_handle_witness:
  "remote_call (\<lambda>_. Inr (plain_conn [])) (\<lambda>_. Inr ''n'') (\<lambda>_. Inr Resp_Ack) letters (\<lambda>_. (0, 0)) ''h:1''
     (Req_NodeRegister sample_node) (server_endpoint (server_new sample_config)) = Inr Resp_Ack"
proof -
  let ?ep = "server_endpoint (server_new sample_config)"
  have h: "fst (handle 0 0 (Req_NodeRegister sample_node) ?ep) = Inr Resp_Ack" by code_simp
  have "codec_for (\<lambda>_. Inr ''n'') (dec_request letters) (Req_NodeRegister sample_node)"
    "codec_for (enc_response letters) (\<lambda>_. Inr Resp_Ack) Resp_Ack"
    by (simp_all add: codec_for_def letters_def MAX_FRAME_def)
  with remote_call_is_handle [of "\<lambda>_. Inr ''n''" letters "Req_NodeRegister sample_node" "\<lambda>_. (0, 0)" ?ep
      "\<lambda>_. Inr Resp_Ack" "\<lambda>_. Inr (plain_conn [])" "''h:1''"] h
  show ?thesis by simp
qed

end
