(* ===== verification/Queue_Accounts.thy ===== *)
theory Queue_Accounts
  imports Eval_Queue
begin

text \<open>
  What becomes of an evaluation that was given to the queue of \<open>src/src/eval_queue.rs\<close>: it is held
  by the queue, pending, in flight or blocked, until it is acknowledged or has had its three
  deliveries.
\<close>

definition held :: "eval_queue \<Rightarrow> evaluation set" where
  "held q = pe_eval ` set (q_heap q) \<union> pe_eval ` set (hm_values (q_in_flight q)) \<union> set (q_blocked q)"

fun supplied :: "queue_op \<Rightarrow> evaluation set" where
  "supplied (Enqueue e) = {e}"
| "supplied (Block e) = {e}"
| "supplied _ = {}"

fun acked :: "queue_op \<Rightarrow> eval_id set" where
  "acked (Ack i) = {i}"
| "acked _ = {}"

section \<open>What each operation does to the evaluations held\<close>

lemma held_push [simp]: "held (push_seq e n q) = insert e (held q)"
  by (auto simp: held_def push_seq_def heap_push_def)

lemma held_fold_push: "held (fold (\<lambda>e. push_seq e n) es q) = set es \<union> held q"
  by (induction es arbitrary: q) auto

lemma held_requeue: "held (requeue i q) \<subseteq> held q"
  by (cases "hm_get (q_in_flight q) i")
    (auto simp: requeue_def Let_def held_def push_seq_def heap_push_def AList.delete_eq
      dest!: map_of_SomeD intro: rev_image_eqI)

lemma held_fold_requeue: "held (fold requeue is q) \<subseteq> held q"
  by (induction "is" arbitrary: q) (use held_requeue in force)+

lemma dequeue_cases:
  obtains (none) "dequeue now q = (Inl poison_err, q) \<or> dequeue now q = (Inr None, q)"
  | (some) pe h where "heap_pop (q_heap q) = Some (pe, h)" "set (q_heap q) = insert pe (set h)"
      "dequeue now q = (Inr (Some (pe_eval pe)), q\<lparr>q_heap := h, q_in_flight := hm_insert (ev_id (pe_eval pe))
         (pe\<lparr>pe_dequeues := pe_dequeues pe + 1, pe_dequeued_at := Some now\<rparr>) (q_in_flight q)\<rparr>)"
proof (cases "q_poisoned q \<or> heap_pop (q_heap q) = None")
  case True
  then show thesis by (intro none) (auto simp: dequeue_def)
next
  case False
  then obtain pe h where pop: "heap_pop (q_heap q) = Some (pe, h)" by auto
  show thesis
    by (rule some [OF pop heap_pop_sum(2) [OF pop]]) (use False pop in \<open>simp add: dequeue_def Let_def\<close>)
qed

lemma hm_values_insert: "set (hm_values (hm_insert k v m)) \<subseteq> insert v (set (hm_values m))"
  by (induction m) auto

lemma held_dequeue: "held (snd (dequeue now q)) \<subseteq> held q"
proof (cases rule: dequeue_cases [of now q])
  case (some pe h)
  let ?pe = "pe\<lparr>pe_dequeues := pe_dequeues pe + 1, pe_dequeued_at := Some now\<rparr>"
  have "pe_eval ` set (hm_values (hm_insert (ev_id (pe_eval pe)) ?pe (q_in_flight q))) \<subseteq>
      insert (pe_eval pe) (pe_eval ` set (hm_values (q_in_flight q)))"
    using image_mono [OF hm_values_insert [of "ev_id (pe_eval pe)" ?pe "q_in_flight q"], of pe_eval] by simp
  then show ?thesis unfolding held_def some by auto
qed auto

text \<open>No operation makes up an evaluation.\<close>

lemma held_exec: "held (snd (queue_exec op q)) \<subseteq> held q \<union> supplied op"
proof (cases op)
  case (Dequeue now)
  have "snd (queue_exec (Dequeue now) q) = snd (dequeue now q)"
    by (auto split: prod.split sum.split option.split)
  with Dequeue held_dequeue [of now q] show ?thesis by simp
next
  case (Ack i)
  then show ?thesis by (auto simp: ack_def held_def AList.delete_eq)
next
  case (Nack i)
  with held_requeue [of i q] show ?thesis by (auto simp: nack_def)
next
  case (Reap c t)
  with held_fold_requeue show ?thesis by (auto simp: reap_expired_def Let_def)
next
  case (Block e)
  then show ?thesis by (auto simp: block_def held_def)
next
  case Unblock_All
  then show ?thesis by (auto simp: unblock_all_def held_fold_push) (auto simp: held_def)
qed (auto simp: enqueue_def)

section \<open>The account of a run\<close>

text \<open>
  \<open>ds\<close> are the deliveries so far. No entry counts more deliveries than there were, and an
  evaluation that was supplied is held, acknowledged, or has been delivered three times.
\<close>

definition counts_ok :: "evaluation list \<Rightarrow> eval_queue \<Rightarrow> bool" where
  "counts_ok ds q \<longleftrightarrow> (\<forall>pe\<in>set (q_heap q) \<union> set (hm_values (q_in_flight q)).
     unat (pe_dequeues pe) \<le> deliveries (ev_id (pe_eval pe)) ds)"

definition accounted :: "eval_id set \<Rightarrow> evaluation list \<Rightarrow> eval_queue \<Rightarrow> evaluation \<Rightarrow> bool" where
  "accounted A ds q e \<longleftrightarrow> e \<in> held q \<or> ev_id e \<in> A \<or> 3 \<le> deliveries (ev_id e) ds"

definition ledger :: "evaluation set \<Rightarrow> eval_id set \<Rightarrow> evaluation list \<Rightarrow> eval_queue \<Rightarrow> bool" where
  "ledger S A ds q \<longleftrightarrow> delivery_ok q \<and> \<not> q_poisoned q \<and> held q \<subseteq> S \<and> counts_ok ds q \<and> (\<forall>e\<in>S. accounted A ds q e)"

lemma deliveries_append [simp]: "deliveries i (xs @ ys) = deliveries i xs + deliveries i ys"
  by (simp add: deliveries_def)

lemma accountedI:
  "\<lbrakk>accounted A ds q e; e \<in> held q \<Longrightarrow> e \<in> held q' \<or> ev_id e \<in> A' \<or> 3 \<le> deliveries (ev_id e) (ds @ d); A \<subseteq> A'\<rbrakk> \<Longrightarrow>
     accounted A' (ds @ d) q' e"
  by (auto simp: accounted_def)

lemma requeue_accounts:
  assumes "delivery_ok q" "counts_ok ds q" "e \<in> held q"
  shows "counts_ok ds (requeue i q) \<and> (e \<in> held (requeue i q) \<or> 3 \<le> deliveries (ev_id e) ds)"
proof (cases "hm_get (q_in_flight q) i")
  case None
  with assms show ?thesis by (simp add: requeue_def)
next
  case (Some pe)
  let ?q = "q\<lparr>q_in_flight := hm_remove i (q_in_flight q)\<rparr>"
  have mem: "(i, pe) \<in> set (q_in_flight q)" by (rule map_of_SomeD [OF Some])
  then have key: "ev_id (pe_eval pe) = i" using assms(1) by (auto simp: delivery_ok_def)
  have count: "unat (pe_dequeues pe) \<le> deliveries i ds"
    using mem assms(2) unfolding counts_ok_def key [symmetric] by (metis Un_iff image_eqI list.set_map snd_conv)
  have only: "pe' = pe" if "(i, pe') \<in> set (q_in_flight q)" for pe'
    using that Some assms(1) by (simp add: delivery_ok_def)
  have rest: "e \<in> held ?q \<or> e = pe_eval pe"
  proof (cases "\<exists>k pe'. (k, pe') \<in> set (q_in_flight q) \<and> e = pe_eval pe'")
    case True
    then obtain k pe' where k: "(k, pe') \<in> set (q_in_flight q)" "e = pe_eval pe'" by blast
    show ?thesis
    proof (cases "k = i")
      case False
      with k have "(k, pe') \<in> set (hm_remove i (q_in_flight q))" by (simp add: set_hm_remove)
      then show ?thesis unfolding held_def by (auto simp: k(2) intro!: image_eqI [of _ snd "(k, pe')"])
    qed (use k only in simp)
  next
    case False
    with assms(3) show ?thesis by (fastforce simp: held_def)
  qed
  have counts: "counts_ok ds ?q"
    using assms(2) by (auto simp: counts_ok_def AList.delete_eq)
  show ?thesis
  proof (cases "pe_dequeues pe < MAX_DEQUEUE")
    case True
    then have "requeue i q = push_seq (pe_eval pe) (pe_dequeues pe) ?q" by (simp add: requeue_def Some)
    with rest counts key count show ?thesis
      by (auto simp: counts_ok_def push_seq_def heap_push_def) (auto simp: held_def)
  next
    case False
    then have "requeue i q = ?q" "3 \<le> deliveries i ds"
      using count by (simp_all add: requeue_def Some MAX_DEQUEUE_less)
    with rest counts key show ?thesis by auto
  qed
qed

lemma requeue_keeps_counts: "\<lbrakk>delivery_ok q; counts_ok ds q\<rbrakk> \<Longrightarrow> counts_ok ds (requeue i q)"
proof (cases "held q = {}")
  case True
  assume "counts_ok ds q"
  moreover from True have "hm_get (q_in_flight q) i = None" by (auto simp: held_def)
  ultimately show ?thesis by (simp add: requeue_def)
qed (use requeue_accounts in blast)

lemma fold_requeue_accounts:
  assumes "delivery_ok q" "counts_ok ds q"
  shows "counts_ok ds (fold requeue is q) \<and>
    (e \<in> held q \<longrightarrow> e \<in> held (fold requeue is q) \<or> 3 \<le> deliveries (ev_id e) ds)"
  using assms
proof (induction "is" arbitrary: q)
  case (Cons i "is")
  from Cons.IH [OF requeue_delivery [OF Cons.prems(1)] requeue_keeps_counts [OF Cons.prems], of i]
    requeue_accounts [OF Cons.prems, of e i]
  show ?case by auto
qed simp

lemma counts_mono: "counts_ok ds q \<Longrightarrow> counts_ok (ds @ d) q"
  by (auto simp: counts_ok_def intro: trans_le_add1)

lemma counts_blocked [simp]: "counts_ok ds (q\<lparr>q_blocked := es\<rparr>) = counts_ok ds q"
  by (simp add: counts_ok_def)

lemma counts_push: "\<lbrakk>counts_ok ds q; unat n \<le> deliveries (ev_id e) ds\<rbrakk> \<Longrightarrow> counts_ok ds (push_seq e n q)"
  by (auto simp: counts_ok_def push_seq_def heap_push_def)

lemma dequeue_accounts:
  assumes led: "ledger S A ds q" and inj: "inj_on ev_id S"
    and ex: "queue_exec (Dequeue now) q = (d, q')"
  shows "counts_ok (ds @ d) q' \<and> held q \<subseteq> held q'"
proof (cases rule: dequeue_cases [of now q])
  case none
  with ex led show ?thesis by (auto simp: ledger_def)
next
  case (some pe h)
  let ?pe = "pe\<lparr>pe_dequeues := pe_dequeues pe + 1, pe_dequeued_at := Some now\<rparr>" and ?i = "ev_id (pe_eval pe)"
  have q': "q' = q\<lparr>q_heap := h, q_in_flight := hm_insert ?i ?pe (q_in_flight q)\<rparr>" "d = [pe_eval pe]"
    using ex by (simp_all add: some)
  have wf: "hm_wf (q_in_flight q)" and S: "held q \<subseteq> S" and counts: "counts_ok ds q"
    using led by (simp_all add: ledger_def delivery_ok_def)
  have fl: "set (hm_insert ?i ?pe (q_in_flight q)) = insert (?i, ?pe) {x \<in> set (q_in_flight q). fst x \<noteq> ?i}"
    by (rule set_hm_insert [OF wf])
  have own: "pe_eval pe' = pe_eval pe" if "(?i, pe') \<in> set (q_in_flight q)" for pe'
  proof -
    have "ev_id (pe_eval pe') = ?i" using led that by (auto simp: ledger_def delivery_ok_def)
    moreover have "pe_eval pe' \<in> S" "pe_eval pe \<in> S" using that S some(2) by (force simp: held_def)+
    ultimately show ?thesis using inj by (simp add: inj_on_eq_iff)
  qed
  have "e \<in> held q'" if e: "e \<in> held q" for e
  proof (cases "\<exists>k pe'. (k, pe') \<in> set (q_in_flight q) \<and> e = pe_eval pe'")
    case True
    then obtain k pe' where k: "(k, pe') \<in> set (q_in_flight q)" "e = pe_eval pe'" by blast
    have "e \<in> pe_eval ` snd ` set (hm_insert ?i ?pe (q_in_flight q))"
      unfolding fl using k own by (cases "k = ?i") (force simp: image_iff)+
    then show ?thesis by (simp add: q' held_def)
  next
    case False
    with e have "e \<in> pe_eval ` insert pe (set h) \<or> e \<in> set (q_blocked q)"
      unfolding held_def some(2) by fastforce
    moreover have "pe_eval pe \<in> pe_eval ` snd ` set (hm_insert ?i ?pe (q_in_flight q))"
      unfolding fl by (auto intro!: image_eqI [of _ pe_eval ?pe])
    ultimately show ?thesis by (auto simp: q' held_def)
  qed
  moreover have "unat (pe_dequeues ?pe) \<le> deliveries ?i (ds @ d)"
  proof -
    have "unat (pe_dequeues pe + 1) \<le> Suc (unat (pe_dequeues pe))"
      by (simp add: unat_word_ariths(1))
    moreover have "unat (pe_dequeues pe) \<le> deliveries ?i ds" using counts some(2) by (simp add: counts_ok_def)
    ultimately show ?thesis by (simp add: q' deliveries_def)
  qed
  then have "counts_ok (ds @ d) q'"
    using counts_mono [OF counts, of d] fl some(2) by (auto simp: counts_ok_def q')
  ultimately show ?thesis by blast
qed

lemma exec_accounts:
  assumes led: "ledger S A ds q" and inj: "inj_on ev_id S" and ex: "queue_exec op q = (d, q')"
  shows "counts_ok (ds @ d) q' \<and> \<not> q_poisoned q' \<and> supplied op \<subseteq> held q' \<and>
    (\<forall>e\<in>held q. e \<in> held q' \<or> ev_id e \<in> acked op \<or> 3 \<le> deliveries (ev_id e) ds)"
proof (cases op)
  case (Dequeue now)
  have "\<not> q_poisoned q'"
    using ex led Dequeue by (cases rule: dequeue_cases [of now q]) (auto simp: ledger_def)
  with dequeue_accounts [OF led inj] ex Dequeue show ?thesis by auto
next
  case (Enqueue e)
  with ex led show ?thesis
    by (auto simp: ledger_def enqueue_def) (auto simp: counts_ok_def push_seq_def heap_push_def)
next
  case (Ack i)
  have q': "q' = q\<lparr>q_in_flight := hm_remove i (q_in_flight q)\<rparr>" "d = []"
    using ex led Ack by (auto simp: ack_def ledger_def)
  have "e \<in> held q' \<or> ev_id e = i" if "e \<in> held q" for e
    using that led by (fastforce simp: q' held_def set_hm_remove ledger_def delivery_ok_def image_iff)
  with led Ack show ?thesis
    by (auto simp: q' ledger_def counts_ok_def set_hm_remove)
next
  case (Nack i)
  have q': "q' = requeue i q" "d = []" using ex led Nack by (auto simp: nack_def ledger_def)
  moreover have "\<not> q_poisoned (requeue i q)"
    using led by (auto simp: requeue_def ledger_def Let_def push_seq_def split: option.split)
  ultimately show ?thesis
    using led Nack requeue_accounts [of q ds _ i] requeue_keeps_counts [of q ds i] by (auto simp: ledger_def)
next
  case (Reap c t)
  then obtain ks where q': "q' = fold requeue ks q" "d = []"
    using ex led by (auto simp: reap_expired_def ledger_def Let_def)
  have "q_poisoned (fold requeue ks q) = q_poisoned q"
    by (induction ks arbitrary: q) (auto simp: requeue_def Let_def push_seq_def split: option.split)
  with q' led Reap fold_requeue_accounts [of q ds ks] show ?thesis by (auto simp: ledger_def)
next
  case (Block e)
  with ex led show ?thesis by (auto simp: block_def ledger_def) (auto simp: held_def)
next
  case Unblock_All
  then have q': "q' = fold (\<lambda>e. push_seq e 0) (q_blocked q) (q\<lparr>q_blocked := []\<rparr>)" "d = []"
    using ex led by (auto simp: unblock_all_def ledger_def)
  have "counts_ok ds (fold (\<lambda>e. push_seq e 0) es r)" if "counts_ok ds r" for es r
    using that by (induction es arbitrary: r) (auto simp: counts_push)
  moreover have "counts_ok ds (q\<lparr>q_blocked := []\<rparr>)" using led by (simp add: ledger_def)
  moreover have "held q' = held q" unfolding q' held_fold_push by (auto simp: held_def)
  ultimately show ?thesis
    using led Unblock_All by (simp add: q' fold_push_poisoned ledger_def)
qed

lemma ledger_exec:
  assumes led: "ledger S A ds q" and inj: "inj_on ev_id S" and ex: "queue_exec op q = (d, q')"
  shows "ledger (S \<union> supplied op) (A \<union> acked op) (ds @ d) q'"
proof -
  have "held q' \<subseteq> S \<union> supplied op"
    using held_exec [of op q] ex led by (auto simp: ledger_def)
  moreover have "delivery_ok q'" using queue_exec_credit [of q op] ex led by (simp add: ledger_def)
  moreover have "accounted (A \<union> acked op) (ds @ d) q' e" if "e \<in> S \<union> supplied op" for e
  proof -
    have "e \<in> held q' \<or> ev_id e \<in> A \<union> acked op \<or> 3 \<le> deliveries (ev_id e) ds"
      using that exec_accounts [OF led inj ex] led unfolding accounted_def ledger_def by blast
    then show ?thesis by (auto simp: accounted_def)
  qed
  ultimately show ?thesis
    using exec_accounts [OF led inj ex] by (simp add: ledger_def)
qed

lemma ledger_run:
  assumes "ledger S A ds q" and "inj_on ev_id (S \<union> (\<Union>op\<in>set ops. supplied op))" and "queue_run ops q = (ds', q')"
  shows "ledger (S \<union> (\<Union>op\<in>set ops. supplied op)) (A \<union> (\<Union>op\<in>set ops. acked op)) (ds @ ds') q'"
  using assms
proof (induction ops arbitrary: S A ds q ds')
  case (Cons op ops)
  obtain d q1 where ex: "queue_exec op q = (d, q1)" by fastforce
  obtain ds1 where run: "queue_run ops q1 = (ds1, q')" "ds' = d @ ds1"
    using Cons.prems(3) ex by (auto split: prod.splits)
  have "ledger (S \<union> supplied op) (A \<union> acked op) (ds @ d) q1"
    by (rule ledger_exec [OF Cons.prems(1) _ ex]) (use Cons.prems(2) in \<open>auto intro: inj_on_subset\<close>)
  from Cons.IH [OF this _ run(1)] Cons.prems(2) run(2) show ?case by (simp add: Un_assoc)
qed simp

lemma run_ledger:
  assumes "inj_on ev_id (\<Union>op\<in>set ops. supplied op)" and "queue_run ops queue_new = (ds, q)"
  shows "ledger (\<Union>op\<in>set ops. supplied op) (\<Union>op\<in>set ops. acked op) ds q"
proof -
  have "ledger {} {} [] queue_new"
    by (simp add: ledger_def delivery_ok_new) (simp add: queue_new_def held_def counts_ok_def)
  from ledger_run [OF this, of ops ds q] assms show ?thesis by simp
qed

lemma acked_iff: "i \<in> acked op \<longleftrightarrow> op = Ack i"
  by (cases op) auto

text \<open>Without any condition on the identifiers, a queue holds what it was given.\<close>

lemma held_run: "held (snd (queue_run ops q)) \<subseteq> held q \<union> (\<Union>op\<in>set ops. supplied op)"
proof (induction ops arbitrary: q)
  case (Cons op ops)
  obtain d q1 where "queue_exec op q = (d, q1)" by fastforce
  with Cons.IH [of q1] held_exec [of op q] show ?case by (auto split: prod.split)
qed simp

lemma queue_run_append: "snd (queue_run (xs @ ys) q) = snd (queue_run ys (snd (queue_run xs q)))"
proof (induction xs arbitrary: q)
  case (Cons op xs)
  obtain d q1 where "queue_exec op q = (d, q1)" by fastforce
  with Cons.IH [of q1] show ?case by (simp add: split_beta)
qed simp

section \<open>Properties\<close>

text \<open>C4. No evaluation is lost: over any sequence of operations on a fresh queue, where different
  evaluations have different identifiers, an evaluation that was enqueued or parked as blocked is
  afterwards still held by the queue, pending, in flight or blocked, or its identifier has been
  acknowledged, or it has been delivered three times; and the queue holds nothing that was not
  given to it.\<close>

theorem no_evaluation_lost:
  assumes "inj_on ev_id (\<Union>op\<in>set ops. supplied op)" and "queue_run ops queue_new = (ds, q)"
  shows "held q \<subseteq> (\<Union>op\<in>set ops. supplied op) \<and>
    (\<forall>e\<in>(\<Union>op\<in>set ops. supplied op).
       e \<in> held q \<or> Ack (ev_id e) \<in> set ops \<or> 3 \<le> deliveries (ev_id e) ds)"
proof -
  have "ledger (\<Union>op\<in>set ops. supplied op) (\<Union>op\<in>set ops. acked op) ds q"
    by (rule run_ledger [OF assms])
  then show ?thesis unfolding ledger_def accounted_def by (auto simp: acked_iff)
qed

theorem no_evaluation_lost_witness:
  "sample_eval \<in> held (snd (queue_run [Enqueue sample_eval, Dequeue 0, Nack ''e1'', Dequeue 1] queue_new))"
proof -
  let ?ops = "[Enqueue sample_eval, Dequeue 0, Nack ''e1'', Dequeue 1]"
  have "deliveries (ev_id sample_eval) (fst (queue_run ?ops queue_new)) = 2" by code_simp
  then show ?thesis
    using no_evaluation_lost [of ?ops "fst (queue_run ?ops queue_new)" "snd (queue_run ?ops queue_new)"] by simp
qed

end
