(* ===== verification/Server_Types.thy ===== *)
theory Server_Types
  imports Rpc_Server Queue_Accounts
begin

text \<open>
  That everything a running server keeps is well formed: the tables of its state, the evaluations
  in its queue, and what its workers and its connections hold between two of their locks.
\<close>

fun pc_ok :: "worker_pc \<Rightarrow> bool" where
  "pc_ok (W_Plan e) = eval_ok e"
| "pc_ok (W_Commit e p) \<longleftrightarrow> eval_ok e \<and> (\<forall>a\<in>set (pl_allocs p). alloc_ok a)"
| "pc_ok (W_Check e) = eval_ok e"
| "pc_ok (W_Block e) = eval_ok e"
| "pc_ok (W_Ack e) = eval_ok e"
| "pc_ok (W_Nack e) = False"
| "pc_ok _ = True"

fun op_ok :: "handler_op \<Rightarrow> bool" where
  "op_ok (Q_Enqueue e) = eval_ok e"
| "op_ok _ = True"

fun session_ok :: "session_pc \<Rightarrow> bool" where
  "session_ok (Queueing req op resp) = op_ok op"
| "session_ok _ = True"

definition queue_ok :: "eval_queue \<Rightarrow> bool" where
  "queue_ok q \<longleftrightarrow> (\<forall>e\<in>held q. eval_ok e)"

definition types_inv :: "cluster \<Rightarrow> bool" where
  "types_inv y \<longleftrightarrow>
     raft_inv (sv_raft (cl_server y)) \<and> is_leader (sv_raft (cl_server y)) \<and> queue_ok (sv_queue (cl_server y)) \<and>
     list_all (\<lambda>w. pc_ok (wt_pc w)) (cl_tasks y) \<and> list_all (\<lambda>s. session_ok (ss_pc s)) (cl_sessions y)"

section \<open>The queue\<close>

lemma queue_ok_exec: "\<lbrakk>queue_ok q; \<forall>e\<in>supplied op. eval_ok e\<rbrakk> \<Longrightarrow> queue_ok (snd (queue_exec op q))"
  using held_exec [of op q] by (auto simp: queue_ok_def)

lemma queue_ok_ops:
  assumes "queue_ok q"
  shows "eval_ok e \<Longrightarrow> queue_ok (snd (enqueue e q))" "eval_ok e \<Longrightarrow> queue_ok (snd (block e q))"
    "queue_ok (snd (ack i q))" "queue_ok (snd (nack i q))" "queue_ok (snd (reap_expired clock timeout q))"
    "queue_ok (snd (unblock_all q))" "queue_ok (snd (dequeue now q))"
proof -
  show "eval_ok e \<Longrightarrow> queue_ok (snd (enqueue e q))" using queue_ok_exec [OF assms, of "Enqueue e"] by simp
  show "eval_ok e \<Longrightarrow> queue_ok (snd (block e q))" using queue_ok_exec [OF assms, of "Block e"] by simp
  show "queue_ok (snd (ack i q))" using queue_ok_exec [OF assms, of "Ack i"] by simp
  show "queue_ok (snd (nack i q))" using queue_ok_exec [OF assms, of "Nack i"] by simp
  show "queue_ok (snd (reap_expired clock timeout q))" using queue_ok_exec [OF assms, of "Reap clock timeout"] by simp
  show "queue_ok (snd (unblock_all q))" using queue_ok_exec [OF assms, of Unblock_All] by simp
  show "queue_ok (snd (dequeue now q))" using held_dequeue [of now q] assms by (auto simp: queue_ok_def)
qed

lemma dequeued_held: "dequeue now q = (Inr (Some e), q') \<Longrightarrow> e \<in> held q"
  by (cases rule: dequeue_cases [of now q]) (auto simp: held_def)

section \<open>Workers and connections\<close>

lemma worker_step_types:
  assumes run: "worker_step X clock now sd pc (r, q) = (pc', r', q')"
    and ok: "raft_inv r" "is_leader r" "queue_ok q" "pc_ok pc"
  shows "queue_ok q' \<and> pc_ok pc'"
proof (cases pc)
  case (W_Commit e p)
  with ok obtain r1 where "propose_all (pl_allocs p) r = (Inr (), r1)"
    using propose_all_ok [of "pl_allocs p" r] by auto
  with run W_Commit ok show ?thesis by auto
next
  case (W_Plan e)
  with run ok plan_allocs_ok [OF raft_inv_ok [OF ok(1)]] show ?thesis by auto
next
  case W_Dequeue
  with run ok queue_ok_ops(7) [OF ok(3), of now] dequeued_held [of now q] show ?thesis
    by (auto simp: queue_ok_def split: prod.splits sum.splits option.splits)
qed (use run ok queue_ok_ops [OF ok(3)] in \<open>auto split: if_splits\<close>)

lemma handle_commit_types:
  assumes run: "handle_commit nanos req r = (Then_Queue op resp, r')" and ok: "raft_inv r"
  shows "op_ok op"
proof (cases req)
  case (Req_JobRegister j)
  show ?thesis
  proof (cases "job_validate j")
    case (Inr u)
    then have "job_ok j" using jv.validate_iff [of j] by simp
    then have "eval_ok (register_eval nanos j)" by (rule register_eval_ok)
    with run Req_JobRegister Inr show ?thesis
      by (auto simp: commit_then_def register_eval_def split: if_splits prod.splits sum.splits)
  qed (use run Req_JobRegister in simp)
next
  case (Req_JobDeregister name)
  then have "is_leader r" and com: "fst (propose (DeregisterJob name) r) = Inr ()"
    and op: "op = Q_Enqueue \<lparr>ev_id = eval_id_for nanos name, ev_job_id = name, ev_priority = 50,
       ev_trigger = JobDeregister, ev_status = EPending\<rparr>"
    using run by (auto simp: commit_then_def split: if_splits prod.splits sum.splits)
  then obtain j where "get_job (raft_state r) name = Some j"
    by (auto simp: propose_ok_iff command_ok_def)
  then have "name \<noteq> []" using jobs.get_wf [OF raft_inv_ok [OF ok]] by (auto simp: job_ok_def)
  then show ?thesis by (simp add: op eval_ok_def eval_id_for_def)
qed (use run in \<open>auto simp: commit_then_def split: if_splits prod.splits sum.splits\<close>)

lemma handle_queue_types:
  "\<lbrakk>queue_ok q; op_ok op\<rbrakk> \<Longrightarrow> queue_ok (snd (handle_queue inst op resp q))"
  by (cases op) (simp_all add: queue_ok_ops del: handle_queue.simps)

lemma session_move_types:
  assumes run: "session_move C t (s, r, q) = (s', r', q')" and ok: "raft_inv r" "queue_ok q" "session_ok (ss_pc s)"
  shows "queue_ok q' \<and> session_ok (ss_pc s')"
proof (cases "ss_pc s")
  case (Handling req)
  obtain a r1 where a: "handle_commit (snd t) req r = (a, r1)" by fastforce
  show ?thesis
  proof (cases a)
    case (Then_Queue op resp)
    with handle_commit_types [OF a [unfolded Then_Queue] ok(1)] a run Handling ok(2) show ?thesis
      by (auto simp: session_move_def)
  qed (use a run Handling ok(2) in \<open>auto simp: session_move_def split: sum.splits\<close>)
next
  case (Queueing req op resp)
  with handle_queue_types [OF ok(2), of op "fst t" resp] run ok(3) show ?thesis
    by (auto simp: session_move_def simp del: handle_queue.simps split: prod.splits sum.splits)
qed (use run ok in \<open>auto simp: session_move_def split: prod.splits sum.splits option.splits\<close>)

lemma cluster_exec_types:
  assumes inv: "types_inv y" and en: "enabled waits ev y"
  shows "types_inv (cluster_exec X C ev y)"
proof -
  let ?r = "sv_raft (cl_server y)" and ?q = "sv_queue (cl_server y)"
  note parts = inv [unfolded types_inv_def]
  show ?thesis
  proof (cases ev)
    case (Work i clock now)
    obtain w r q where run: "task_step X clock now (sv_shutdown (cl_server y)) (cl_tasks y ! i, ?r, ?q) = (w, r, q)"
      by (metis prod_cases3)
    then obtain pc where st: "worker_step X clock now (sv_shutdown (cl_server y)) (wt_pc (cl_tasks y ! i)) (?r, ?q) = (pc, r, q)"
      and w: "wt_pc w = pc \<or> wt_pc w = W_Exit"
      by (auto simp: task_step_def split: prod.splits if_splits)
    have i: "pc_ok (wt_pc (cl_tasks y ! i))" using en Work parts by (auto simp: list_all_length)
    have "raft_inv r \<and> is_leader r" by (rule worker_step_keeps [OF st]) (use parts in simp_all)
    moreover have "queue_ok q \<and> pc_ok pc" by (rule worker_step_types [OF st _ _ _ i]) (use parts in simp_all)
    moreover have "list_all (\<lambda>w. pc_ok (wt_pc w)) ((cl_tasks y)[i := w])" if "pc_ok pc"
      using that parts w by (intro list_all_update) auto
    ultimately show ?thesis using parts Work run by (simp add: types_inv_def)
  next
    case (Session i t)
    obtain s r q where run: "session_move C t (cl_sessions y ! i, ?r, ?q) = (s, r, q)"
      by (metis prod_cases3)
    have i: "session_ok (ss_pc (cl_sessions y ! i))" using en Session parts by (auto simp: list_all_length)
    have "raft_inv r \<and> is_leader r" using session_move_cases [OF run] propose_keeps parts by auto
    moreover have "queue_ok q \<and> session_ok (ss_pc s)"
      by (rule session_move_types [OF run _ _ i]) (use parts in simp_all)
    moreover have "list_all (\<lambda>s. session_ok (ss_pc s)) ((cl_sessions y)[i := s])" if "session_ok (ss_pc s)"
      using that parts by (intro list_all_update) auto
    ultimately show ?thesis using parts Session run by (simp add: types_inv_def)
  next
    case (Stop asleep)
    have "list_all (\<lambda>w. pc_ok (wt_pc w)) (abort_last asleep (cl_tasks y))"
      using parts abort_last_nth [of _ "cl_tasks y" asleep]
      by (simp add: list_all_length) (metis pc_ok.simps(10))
    with parts Stop show ?thesis by (simp add: types_inv_def server_stop_def)
  next
    case Start
    with parts show ?thesis by (simp add: types_inv_def server_run_def)
  qed (use parts in \<open>simp_all add: types_inv_def\<close>)
qed

interpretation typing: inductive_invariant cluster_init "cluster_step waits A X C" types_inv for waits A X C
proof (unfold_locales, goal_cases)
  case (1 y)
  then show ?case
    by (auto simp: cluster_init_def types_inv_def server_new_def raft_init_def is_leader_def queue_ok_def held_def
        queue_new_def raft_bootstrap_def intro!: raft_init_inv)
next
  case (2 y y')
  from 2(2) show ?case by (rule cluster_step_elim) (use 2(1) cluster_exec_types in simp)
qed

section \<open>Properties\<close>

text \<open>C3. Everything a running server keeps passes its own validation, whatever its clients ask for and
  whatever the interleaving of its connections, workers, stops and restarts: every job, node and
  allocation of its state, every evaluation in its queue, whether pending, in flight or blocked,
  every evaluation and planned allocation that a worker is dealing with, and every evaluation that
  a connection is about to enqueue. As a consequence no commit of a plan is ever rejected:
  no worker ever gets to the point where it returns an evaluation to the queue.\<close>

theorem server_well_typed:
  assumes "reachable cluster_init (cluster_step waits A X C) y"
  shows "(let s = raft_state (sv_raft (cl_server y)) in
    (\<forall>j\<in>set (list_jobs s). job_validate j = Inr ()) \<and> (\<forall>n\<in>set (list_nodes s). node_validate n = Inr ()) \<and>
    (\<forall>a\<in>set (list_allocs s). alloc_validate a = Inr ()) \<and>
    (\<forall>e\<in>held (sv_queue (cl_server y)). eval_validate e = Inr ()) \<and>
    (\<forall>w\<in>set (cl_tasks y). (\<forall>e. wt_pc w \<noteq> W_Nack e) \<and>
       (\<forall>e. wt_pc w \<in> {W_Plan e, W_Check e, W_Block e, W_Ack e} \<longrightarrow> eval_validate e = Inr ()) \<and>
       (\<forall>e p. wt_pc w = W_Commit e p \<longrightarrow>
          eval_validate e = Inr () \<and> (\<forall>a\<in>set (pl_allocs p). alloc_validate a = Inr ()))) \<and>
    (\<forall>c\<in>set (cl_sessions y). \<forall>req e resp. ss_pc c = Queueing req (Q_Enqueue e) resp \<longrightarrow> eval_validate e = Inr ()))"
proof -
  have inv: "types_inv y" by (rule typing.reachable_inv [OF assms])
  then have ok: "state_ok (raft_state (sv_raft (cl_server y)))"
    by (simp add: types_inv_def raft_inv_ok)
  have tasks: "pc_ok (wt_pc w)" if "w \<in> set (cl_tasks y)" for w
    using inv that by (simp add: types_inv_def list_all_iff)
  have held: "eval_validate e = Inr ()" if "pc \<in> {W_Plan e, W_Check e, W_Block e, W_Ack e}" "pc_ok pc" for pc e
    using that by (auto simp: ev.validate_iff)
  have plans: "eval_validate e = Inr () \<and> (\<forall>a\<in>set (pl_allocs p). alloc_validate a = Inr ())"
    if "pc = W_Commit e p" "pc_ok pc" for pc e p
    using that by (simp add: ev.validate_iff av.validate_iff)
  have sent: "eval_validate e = Inr ()"
    if "c \<in> set (cl_sessions y)" "ss_pc c = Queueing req (Q_Enqueue e) resp" for c req e resp
    using inv that by (fastforce simp: types_inv_def list_all_iff ev.validate_iff)
  have nack: "pc \<noteq> W_Nack e" if "pc_ok pc" for pc e using that by auto
  have workers: "\<forall>w\<in>set (cl_tasks y). (\<forall>e. wt_pc w \<noteq> W_Nack e) \<and>
      (\<forall>e. wt_pc w \<in> {W_Plan e, W_Check e, W_Block e, W_Ack e} \<longrightarrow> eval_validate e = Inr ()) \<and>
      (\<forall>e p. wt_pc w = W_Commit e p \<longrightarrow>
         eval_validate e = Inr () \<and> (\<forall>a\<in>set (pl_allocs p). alloc_validate a = Inr ()))"
    using tasks held plans nack by blast
  have "\<forall>c\<in>set (cl_sessions y). \<forall>req e resp. ss_pc c = Queueing req (Q_Enqueue e) resp \<longrightarrow> eval_validate e = Inr ()"
    using sent by blast
  moreover have "\<forall>e\<in>held (sv_queue (cl_server y)). eval_validate e = Inr ()"
    using inv by (simp add: types_inv_def queue_ok_def ev.validate_iff)
  ultimately show ?thesis
    unfolding Let_def using workers jobs.listed_valid [OF ok] nodes.listed_valid [OF ok] allocs.listed_valid [OF ok]
    by (intro conjI ballI) (assumption | erule bspec | simp add: jv.validate_iff nv.validate_iff av.validate_iff)+
qed

theorem server_well_typed_witness:
  "\<exists>y. reachable cluster_init (cluster_step True benign no_crates letters) y \<and>
     map jb_name (list_jobs (raft_state (sv_raft (cl_server y)))) = [''a'', ''b''] \<and>
     (\<forall>j\<in>set (list_jobs (raft_state (sv_raft (cl_server y)))). job_validate j = Inr ())"
proof -
  obtain ss where ss: "reachable cluster_init (cluster_step True benign no_crates letters)
      (with_parts (ep_raft booked) (ep_queue booked) (started\<lparr>cl_sessions := ss\<rparr>))"
    using booked_reachable by blast
  have "map jb_name (list_jobs (raft_state (ep_raft booked))) = [''a'', ''b'']" by code_simp
  with server_well_typed [OF ss] ss show ?thesis
    by (intro exI [of _ "with_parts (ep_raft booked) (ep_queue booked) (started\<lparr>cl_sessions := ss\<rparr>)"])
      (simp add: Let_def)
qed

end
