(* ===== verification/Startup.thy ===== *)
theory Startup
  imports Server
begin

text \<open>
  How the binary starts: \<open>src/src/logging.rs\<close>, \<open>src/src/otel.rs\<close> and the whole of \<open>main\<close> and \<open>run\<close>
  in \<open>src/src/main.rs\<close>. The process has at most one global subscriber; filters, appenders, the
  exporter and the registration of a subscriber belong to the \<open>tracing\<close> and \<open>opentelemetry\<close> crates
  and are fields of a parameter. The lines that are logged are left out.
\<close>

section \<open>Subscribers\<close>

text \<open>What is registered: a filter with the log on standard output, where \<open>fmt::layer()\<close> writes (the
  comment of \<open>logging::init\<close> says standard error), and an optional file (its directory and name), or the
  layer that exports spans to an endpoint.\<close>

datatype 'f subscriber =
    Fmt 'f "(string \<times> string) option"
  | Otel string

record ('d, 'f) tracing_crate =
  parse_directive :: "string \<Rightarrow> 'd option"
  directive_default :: 'd
  from_env_lossy :: "'d \<Rightarrow> env \<Rightarrow> 'f"
  rolling_daily :: "string \<Rightarrow> string \<Rightarrow> string option"
  try_init :: "'f subscriber \<Rightarrow> 'f subscriber option \<Rightarrow> string + 'f subscriber option"
  exporter_build :: "string \<Rightarrow> string + unit"

text \<open>The documented contract: a global subscriber can be set once, and only once.\<close>

definition set_once :: "('d, 'f) tracing_crate \<Rightarrow> bool" where
  "set_once T \<longleftrightarrow> (\<forall>s. try_init T s None = Inr (Some s)) \<and> (\<forall>s g. \<not> is_ok (try_init T s (Some g)))"

section \<open>Logging\<close>

text \<open>The outcome of code that may panic.\<close>

datatype 'a outcome = Returns 'a | Panics string

definition build_filter :: "('d, 'f) tracing_crate \<Rightarrow> env \<Rightarrow> string \<Rightarrow> 'f" where
  "build_filter T env level =
     from_env_lossy T (case parse_directive T level of None \<Rightarrow> directive_default T | Some d \<Rightarrow> d) env"

text \<open>\<open>init\<close> of a subscriber: \<open>try_init\<close> or panic.\<close>

definition subscriber_init ::
    "('d, 'f) tracing_crate \<Rightarrow> 'f subscriber \<Rightarrow> 'f subscriber option \<Rightarrow> unit outcome \<times> 'f subscriber option" where
  "subscriber_init T s g = (case try_init T s g of Inl e \<Rightarrow> (Panics e, g) | Inr g' \<Rightarrow> (Returns (), g'))"

text \<open>The guard that is returned is the file whose writer it keeps alive.\<close>

definition logging_init ::
    "('d, 'f) tracing_crate \<Rightarrow> env \<Rightarrow> config \<Rightarrow> 'f subscriber option
       \<Rightarrow> (string \<times> string) option outcome \<times> 'f subscriber option" where
  "logging_init T env config g =
     (let filter = build_filter T env (log_level_as_str (cf_log_level config))
      in if cf_log_dir config = []
         then (case subscriber_init T (Fmt filter None) g of
                 (Panics e, g') \<Rightarrow> (Panics e, g')
               | (Returns _, g') \<Rightarrow> (Returns None, g'))
         else (case rolling_daily T (cf_log_dir config) ''nomad-rs.log'' of
                 Some e \<Rightarrow> (Panics e, g)
               | None \<Rightarrow>
                   let file = (cf_log_dir config, ''nomad-rs.log'')
                   in (case subscriber_init T (Fmt filter (Some file)) g of
                         (Panics e, g') \<Rightarrow> (Panics e, g')
                       | (Returns _, g') \<Rightarrow> (Returns (Some file), g'))))"

section \<open>Telemetry\<close>

definition init_otel_tracer ::
    "('d, 'f) tracing_crate \<Rightarrow> env \<Rightarrow> 'f subscriber option \<Rightarrow> unit result \<times> 'f subscriber option" where
  "init_otel_tracer T env g =
     (if env ''OTEL_DISABLED'' \<noteq> None then (Inr (), g)
      else
        let endpoint = (case env ''OTEL_EXPORTER_OTLP_ENDPOINT'' of Some v \<Rightarrow> v | None \<Rightarrow> ''http://localhost:4317'')
        in case exporter_build T endpoint of
             Inl e \<Rightarrow> (Inl (Runtime (''failed to build OTLP exporter: '' @ e)), g)
           | Inr _ \<Rightarrow>
               (case try_init T (Otel endpoint) g of
                  Inl e \<Rightarrow> (Inl (Runtime (''failed to init OTel tracing layer: '' @ e)), g)
                | Inr g' \<Rightarrow> (Inr (), g')))"

definition shutdown_otel_tracer :: "env \<Rightarrow> 'f subscriber option \<Rightarrow> 'f subscriber option" where
  "shutdown_otel_tracer env g = (if env ''OTEL_DISABLED'' \<noteq> None then g else g)"

section \<open>The binary\<close>

text \<open>
  What is left when the process ends: how it ended, the lines that \<open>main\<close> itself wrote to standard
  error (\<open>eprintln!\<close>), its global subscriber and its agent, if it got that far. The message that the
  runtime prints of a panic is in the ending. \<open>signals\<close> and \<open>during\<close> are as in \<open>agent_run\<close>.
\<close>

datatype ending = Exited nat | Panicked string

record 'f process =
  ps_ending :: ending
  ps_stderr :: "string list"
  ps_subscriber :: "'f subscriber option"
  ps_agent :: "agent option"

definition run_agent :: "unit result \<Rightarrow> (server \<Rightarrow> server) \<Rightarrow> config \<Rightarrow> unit result \<times> agent" where
  "run_agent signals during config = agent_run signals during (agent_new config)"

definition main_process ::
    "('d, 'f) tracing_crate \<Rightarrow> (string \<Rightarrow> config result) \<Rightarrow> env \<Rightarrow> cli_flags \<Rightarrow> unit result
       \<Rightarrow> (server \<Rightarrow> server) \<Rightarrow> disk \<Rightarrow> 'f process \<times> disk" where
  "main_process T toml env cli signals during d =
     (case main_load toml env cli d of
        (Inl e, d') \<Rightarrow>
          (\<lparr>ps_ending = Exited 1, ps_stderr = [''error: failed to load config: '' @ error_display e],
            ps_subscriber = None, ps_agent = None\<rparr>, d')
      | (Inr config, d') \<Rightarrow>
          (case config_validate config of
             Inl e \<Rightarrow>
               (\<lparr>ps_ending = Exited 1, ps_stderr = [''error: invalid config: '' @ error_display e],
                 ps_subscriber = None, ps_agent = None\<rparr>, d')
           | Inr _ \<Rightarrow>
               (case logging_init T env config None of
                  (Panics e, g) \<Rightarrow>
                    (\<lparr>ps_ending = Panicked e, ps_stderr = [], ps_subscriber = g, ps_agent = None\<rparr>, d')
                | (Returns _, g) \<Rightarrow>
                    (case run_agent signals during config of
                       (Inl e, a) \<Rightarrow>
                         (\<lparr>ps_ending = Exited 1, ps_stderr = [], ps_subscriber = g, ps_agent = Some a\<rparr>, d')
                     | (Inr _, a) \<Rightarrow>
                         (\<lparr>ps_ending = Exited 0, ps_stderr = [], ps_subscriber = g, ps_agent = Some a\<rparr>, d')))))"

section \<open>Lemmas\<close>

definition log_file :: "config \<Rightarrow> (string \<times> string) option" where
  "log_file config = (if cf_log_dir config = [] then None else Some (cf_log_dir config, ''nomad-rs.log''))"

definition log_file_opens :: "('d, 'f) tracing_crate \<Rightarrow> config \<Rightarrow> bool" where
  "log_file_opens T config \<longleftrightarrow> cf_log_dir config = [] \<or> rolling_daily T (cf_log_dir config) ''nomad-rs.log'' = None"

text \<open>The first registration of a process succeeds, and every later one fails.\<close>

lemma logging_init_first:
  assumes "set_once T"
  shows "logging_init T env config None =
    (if log_file_opens T config
     then (Returns (log_file config),
           Some (Fmt (build_filter T env (log_level_as_str (cf_log_level config))) (log_file config)))
     else (Panics (the (rolling_daily T (cf_log_dir config) ''nomad-rs.log'')), None))"
  using assms by (auto simp: logging_init_def log_file_def log_file_opens_def subscriber_init_def set_once_def Let_def
      split: option.split)

lemma logging_init_again:
  "set_once T \<Longrightarrow> \<exists>e. logging_init T env config (Some s) = (Panics e, Some s)"
proof -
  assume "set_once T"
  then have "\<not> is_ok (try_init T t (Some s))" for t by (simp add: set_once_def)
  then have "\<exists>e. subscriber_init T t (Some s) = (Panics e, Some s)" for t
    by (cases "try_init T t (Some s)") (simp_all add: subscriber_init_def, metis is_ok_simps(2))
  then obtain e where "subscriber_init T t (Some s) = (Panics (e t), Some s)" for t by metis
  then show ?thesis by (simp add: logging_init_def Let_def split: option.split)
qed

section \<open>Properties\<close>

text \<open>C31. How the process ends, on every branch. A configuration that cannot be loaded or does not
  validate ends it with exit code 1 and one line on standard error that carries the error, before
  anything has been set up. A log file that cannot be opened is a panic, before the agent is
  started. Otherwise the subscriber filters at the configured level and writes to the configured
  directory, \<open>main\<close> itself writes nothing to standard error, and the exit code is 0 after a signal,
  with the agent, its client and its server stopped, or 1 when the signal handlers cannot be
  registered.\<close>

theorem main_outcome:
  assumes "set_once T"
  shows "case main_process T toml env cli signals during d of (p, d') \<Rightarrow>
    d' = snd (main_load toml env cli d) \<and>
    (case fst (main_load toml env cli d) of
       Inl e \<Rightarrow> ps_ending p = Exited 1 \<and> ps_stderr p = [''error: failed to load config: '' @ error_display e] \<and>
                ps_subscriber p = None \<and> ps_agent p = None
     | Inr c \<Rightarrow>
         if \<not> config_ok c
         then (\<exists>e. config_validate c = Inl e \<and> ps_ending p = Exited 1 \<and>
                   ps_stderr p = [''error: invalid config: '' @ error_display e]) \<and>
              ps_subscriber p = None \<and> ps_agent p = None
         else if \<not> log_file_opens T c
         then (\<exists>m. ps_ending p = Panicked m) \<and> ps_stderr p = [] \<and> ps_subscriber p = None \<and> ps_agent p = None
         else ps_stderr p = [] \<and>
              ps_subscriber p = Some (Fmt (build_filter T env (log_level_as_str (cf_log_level c))) (log_file c)) \<and>
              (case signals of
                 Inl _ \<Rightarrow> ps_ending p = Exited 1 \<and> map_option ag_status (ps_agent p) = Some Running
               | Inr _ \<Rightarrow> ps_ending p = Exited 0 \<and>
                   (\<exists>a. ps_agent p = Some a \<and> ag_status a = Stopped \<and>
                        map_option ca_status (ag_client a) = Some Stopped \<and>
                        map_option sv_status (ag_server a) = Some Stopped)))"
proof (cases "main_load toml env cli d")
  case (Pair r d')
  show ?thesis
  proof (cases r)
    case (Inl e)
    with Pair show ?thesis by (simp add: main_process_def)
  next
    case (Inr c)
    show ?thesis
    proof (cases "config_ok c")
      case False
      then obtain e where "config_validate c = Inl e" using cfg.validate_cases [of c] by auto
      with Pair Inr False show ?thesis by (simp add: main_process_def)
    next
      case True
      then have "config_validate c = Inr ()" by (simp add: cfg.validate_iff)
      with Pair Inr True show ?thesis
        by (cases signals)
          (simp_all add: main_process_def logging_init_first [OF assms] run_agent_def agent_run_def agent_new_def
            agent_stop_def client_run_def client_new_def client_stop_def server_run_def server_new_def server_stop_def Let_def)
    qed
  qed
qed

text \<open>A tracing library with one global subscriber.\<close>

definition sample_tracing :: "(unit, unit) tracing_crate" where
  "sample_tracing = \<lparr>parse_directive = (\<lambda>_. None), directive_default = (), from_env_lossy = (\<lambda>_ _. ()),
     rolling_daily = (\<lambda>_ _. None), try_init = (\<lambda>s g. case g of None \<Rightarrow> Inr (Some s) | Some _ \<Rightarrow> Inl ''already set''),
     exporter_build = (\<lambda>_. Inr ())\<rparr>"

lemma sample_tracing_once: "set_once sample_tracing"
  by (simp add: set_once_def sample_tracing_def)

definition no_flags :: cli_flags where
  "no_flags = \<lparr>fl_config_file = None, fl_data_dir = None, fl_log_dir = None, fl_log_level = None,
     fl_bind_addr = None, fl_node_name = None, fl_region = None\<rparr>"

definition blank_disk :: disk where
  "blank_disk = \<lparr>files = Map.empty, faults = (\<lambda>_. None), ops = 0\<rparr>"

lemma no_flags_load:
  "fst (main_load (\<lambda>_. Inl (TomlParse [])) Map.empty no_flags blank_disk) = Inr (config_default Map.empty)"
  by (simp add: main_load_def no_flags_def sbind_def slift_def merge_env_def merge_cli_def config_default_def)

theorem main_outcome_witness:
  "ps_ending (fst (main_process sample_tracing (\<lambda>_. Inl (TomlParse [])) Map.empty no_flags (Inr ()) id blank_disk)) =
     Exited 0"
proof -
  have "config_ok (config_default Map.empty)" by (simp flip: cfg.validate_iff) code_simp
  moreover have "log_file_opens sample_tracing (config_default Map.empty)"
    by (simp add: log_file_opens_def sample_tracing_def)
  ultimately show ?thesis
    using main_outcome [OF sample_tracing_once, where toml = "\<lambda>_. Inl (TomlParse [])" and env = Map.empty and cli = no_flags
        and signals = "Inr ()" and during = id and d = blank_disk]
    by (simp add: no_flags_load case_prod_beta)
qed

text \<open>Telemetry cannot be added to a process that logs: once \<open>logging::init\<close> has set its
  subscriber, as the documentation of \<open>init_otel_tracer\<close> asks for, the tracer is refused with a
  \<open>Runtime\<close> error unless it is disabled, whatever the endpoint; it succeeds only where it is the
  first to register, and then logging panics.\<close>

theorem otel_after_logging_fails:
  assumes "set_once T" and "logging_init T env config None = (Returns guard, g)" and "env' ''OTEL_DISABLED'' = None"
  shows "(\<exists>e. init_otel_tracer T env' g = (Inl (Runtime e), g)) \<and>
    (\<forall>s. init_otel_tracer T env' None = (Inr (), s) \<longrightarrow>
       (\<exists>e. logging_init T env config s = (Panics e, s)))"
proof
  obtain s where s: "g = Some s"
    using logging_init_first [OF assms(1), of env config] assms(2) by (auto split: if_splits)
  define ep where "ep = (case env' ''OTEL_EXPORTER_OTLP_ENDPOINT'' of Some v \<Rightarrow> v | None \<Rightarrow> ''http://localhost:4317'')"
  have "\<not> is_ok (try_init T (Otel ep) (Some s))" using assms(1) by (simp add: set_once_def)
  then show "\<exists>e. init_otel_tracer T env' g = (Inl (Runtime e), g)"
    using assms(3) s
    by (cases "exporter_build T ep"; cases "try_init T (Otel ep) (Some s)") (auto simp: init_otel_tracer_def ep_def Let_def)
  have "try_init T (Otel ep) None = Inr (Some (Otel ep))" using assms(1) by (simp add: set_once_def)
  then show "\<forall>s. init_otel_tracer T env' None = (Inr (), s) \<longrightarrow> (\<exists>e. logging_init T env config s = (Panics e, s))"
    using logging_init_again [OF assms(1), of env config "Otel ep"] assms(3)
    by (auto simp: init_otel_tracer_def ep_def [symmetric] Let_def split: sum.splits)
qed

theorem otel_after_logging_fails_witness:
  "\<exists>g e. logging_init sample_tracing Map.empty (config_default Map.empty) None = (Returns (Some (''/opt/nomad/log'', ''nomad-rs.log'')), g) \<and>
     init_otel_tracer sample_tracing Map.empty g = (Inl (Runtime e), g)"
proof -
  obtain g where g: "logging_init sample_tracing Map.empty (config_default Map.empty) None =
      (Returns (Some (''/opt/nomad/log'', ''nomad-rs.log'')), g)"
    by (simp add: logging_init_first [OF sample_tracing_once] log_file_opens_def log_file_def)
      (simp add: sample_tracing_def config_default_def log_file_def)
  with otel_after_logging_fails [OF sample_tracing_once g, of Map.empty] show ?thesis by auto
qed

end
