(* ===== verification/Tls.thy ===== *)
theory Tls
  imports Disk
begin

text \<open>
  \<open>src/src/tls.rs\<close>: checking and loading certificates, keys and roots, and the two configurations
  made of them. The PEM reader (\<open>rustls_pemfile\<close>) and the configuration builders (\<open>rustls\<close>) are
  fields of a parameter, and so is how the operating system resolves the text of a path to a file.
\<close>

record ('cert, 'key, 'roots, 'verifier, 'conf) tls_crate =
  os_path :: "string \<Rightarrow> path"
  pem_certs :: "string \<Rightarrow> (string + 'cert) list"
  pem_private_key :: "string \<Rightarrow> string + 'key option"
  add_parsable_certificates :: "'cert list \<Rightarrow> 'roots"
  verifier_build :: "'roots \<Rightarrow> string + 'verifier"
  with_single_cert :: "'verifier \<Rightarrow> 'cert list \<Rightarrow> 'key \<Rightarrow> string + 'conf"
  with_client_auth_cert :: "'roots \<Rightarrow> 'cert list \<Rightarrow> 'key \<Rightarrow> string + 'conf"

record tls_config =
  tls_cert_path :: string
  tls_key_path :: string
  tls_ca_path :: string

definition tls_new :: "string \<Rightarrow> string \<Rightarrow> string \<Rightarrow> tls_config" where
  "tls_new cert key ca = \<lparr>tls_cert_path = cert, tls_key_path = key, tls_ca_path = ca\<rparr>"

text \<open>\<open>Path::try_exists\<close>, and \<open>collect\<close> into a \<open>Result\<close>: the first error, or all values.\<close>

definition fs_try_exists :: "path \<Rightarrow> disk \<Rightarrow> bool result \<times> disk" where
  "fs_try_exists p = fs_op (\<lambda>d. (Inr (files d p \<noteq> None), d)) (\<lambda>_ d. d)"

fun collect_results :: "('e + 'a) list \<Rightarrow> 'e + 'a list" where
  "collect_results [] = Inr []"
| "collect_results (Inl e # rs) = Inl e"
| "collect_results (Inr x # rs) = (case collect_results rs of Inl e \<Rightarrow> Inl e | Inr xs \<Rightarrow> Inr (x # xs))"

definition map_err :: "('e \<Rightarrow> error) \<Rightarrow> 'e + 'a \<Rightarrow> 'a result" where
  "map_err f r = (case r of Inl e \<Rightarrow> Inl (f e) | Inr x \<Rightarrow> Inr x)"

section \<open>Operations\<close>

definition validate_path ::
    "('c, 'k, 'r, 'v, 'f) tls_crate \<Rightarrow> string \<Rightarrow> string \<Rightarrow> disk \<Rightarrow> unit result \<times> disk" where
  "validate_path T path label =
     (if trim path = [] then slift (Inl (Validation (label @ '' must not be empty'')))
      else sbind (fs_try_exists (os_path T path)) (\<lambda>found.
             if \<not> found then slift (Inl (Validation (label @ '' file not found: '' @ path)))
             else slift (Inr ())))"

definition tls_validate :: "('c, 'k, 'r, 'v, 'f) tls_crate \<Rightarrow> tls_config \<Rightarrow> disk \<Rightarrow> unit result \<times> disk" where
  "tls_validate T c =
     sbind (validate_path T (tls_cert_path c) ''cert_path'') (\<lambda>_.
     sbind (validate_path T (tls_key_path c) ''key_path'') (\<lambda>_.
     sbind (validate_path T (tls_ca_path c) ''ca_path'') (\<lambda>_.
     slift (Inr ()))))"

definition load_certs :: "('c, 'k, 'r, 'v, 'f) tls_crate \<Rightarrow> string \<Rightarrow> disk \<Rightarrow> 'c list result \<times> disk" where
  "load_certs T path =
     sbind (fs_read (os_path T path)) (\<lambda>bytes.
     sbind (slift (map_err (\<lambda>e. Runtime (''failed to parse certificates: '' @ e))
                     (collect_results (pem_certs T bytes)))) (\<lambda>certs.
     if certs = [] then slift (Inl (Validation (''no certificates found in '' @ path)))
     else slift (Inr certs)))"

definition load_private_key :: "('c, 'k, 'r, 'v, 'f) tls_crate \<Rightarrow> string \<Rightarrow> disk \<Rightarrow> 'k result \<times> disk" where
  "load_private_key T path =
     sbind (fs_read (os_path T path)) (\<lambda>bytes.
     slift (case pem_private_key T bytes of
              Inr (Some key) \<Rightarrow> Inr key
            | Inr None \<Rightarrow> Inl (Validation (''no private key found in '' @ path))
            | Inl e \<Rightarrow> Inl (Runtime (''failed to parse private key: '' @ e))))"

definition load_ca :: "('c, 'k, 'r, 'v, 'f) tls_crate \<Rightarrow> string \<Rightarrow> disk \<Rightarrow> 'r result \<times> disk" where
  "load_ca T path =
     sbind (fs_read (os_path T path)) (\<lambda>bytes.
     sbind (slift (map_err (\<lambda>e. Runtime (''failed to parse CA certificates: '' @ e))
                     (collect_results (pem_certs T bytes)))) (\<lambda>certs.
     if certs = [] then slift (Inl (Validation (''no CA certificates found in '' @ path)))
     else slift (Inr (add_parsable_certificates T certs))))"

text \<open>A server configuration with the protocols it offers.\<close>

definition tls_server_config ::
    "('c, 'k, 'r, 'v, 'f) tls_crate \<Rightarrow> tls_config \<Rightarrow> disk \<Rightarrow> ('f \<times> string list) result \<times> disk" where
  "tls_server_config T c =
     sbind (tls_validate T c) (\<lambda>_.
     sbind (load_certs T (tls_cert_path c)) (\<lambda>certs.
     sbind (load_private_key T (tls_key_path c)) (\<lambda>key.
     sbind (load_ca T (tls_ca_path c)) (\<lambda>root_store.
     sbind (slift (map_err (\<lambda>e. Runtime (''failed to build client verifier: '' @ e)) (verifier_build T root_store))) (\<lambda>verifier.
     sbind (slift (map_err (\<lambda>e. Runtime (''failed to set server certificate: '' @ e))
                     (with_single_cert T verifier certs key))) (\<lambda>config.
     slift (Inr (config, [''h2'', ''http/1.1'']))))))))"

definition tls_client_config ::
    "('c, 'k, 'r, 'v, 'f) tls_crate \<Rightarrow> tls_config \<Rightarrow> disk \<Rightarrow> 'f result \<times> disk" where
  "tls_client_config T c =
     sbind (tls_validate T c) (\<lambda>_.
     sbind (load_certs T (tls_cert_path c)) (\<lambda>certs.
     sbind (load_private_key T (tls_key_path c)) (\<lambda>key.
     sbind (load_ca T (tls_ca_path c)) (\<lambda>root_store.
     slift (map_err (\<lambda>e. Runtime (''failed to set client auth: '' @ e))
              (with_client_auth_cert T root_store certs key))))))"

section \<open>Operations that only read\<close>

text \<open>
  \<open>reading d0 m E Q\<close>: from any point at which the files and the faults to come are those of \<open>d0\<close>,
  \<open>m\<close> leaves them so, an error it returns satisfies \<open>E\<close> and a value it returns satisfies \<open>Q\<close>.
\<close>

definition same_disk :: "disk \<Rightarrow> disk \<Rightarrow> bool" where
  "same_disk d0 d \<longleftrightarrow> files d = files d0 \<and> faults d = faults d0"

definition reading :: "disk \<Rightarrow> (disk \<Rightarrow> 'a result \<times> disk) \<Rightarrow> (error \<Rightarrow> bool) \<Rightarrow> ('a \<Rightarrow> bool) \<Rightarrow> bool" where
  "reading d0 m E Q \<longleftrightarrow>
     (\<forall>d. same_disk d0 d \<longrightarrow>
        (case m d of (r, d') \<Rightarrow> same_disk d0 d' \<and> (case r of Inl e \<Rightarrow> E e | Inr x \<Rightarrow> Q x)))"

named_theorems reading_rules \<open>what an operation that only reads returns\<close>

lemma reading_bind:
  assumes "reading d0 m E Q" and "\<And>x. Q x \<Longrightarrow> reading d0 (f x) E R"
  shows "reading d0 (sbind m f) E R"
  unfolding reading_def
proof (intro allI impI)
  fix d assume d: "same_disk d0 d"
  obtain r d1 where m: "m d = (r, d1)" by fastforce
  with assms(1) d have "same_disk d0 d1" "case r of Inl e \<Rightarrow> E e | Inr x \<Rightarrow> Q x"
    by (auto simp: reading_def)
  with assms(2) m show "case sbind m f d of (r, d') \<Rightarrow> same_disk d0 d' \<and> (case r of Inl e \<Rightarrow> E e | Inr x \<Rightarrow> R x)"
    by (cases r) (auto simp: sbind_def reading_def)
qed

lemma reading_lift [reading_rules]:
  "(case r of Inl e \<Rightarrow> E e | Inr x \<Rightarrow> Q x) \<Longrightarrow> reading d0 (slift r) E Q"
  by (simp add: reading_def slift_def)

lemma reading_run:
  "\<lbrakk>reading d m E Q; m d = (r, d')\<rbrakk> \<Longrightarrow> files d' = files d \<and> (case r of Inl e \<Rightarrow> E e | Inr x \<Rightarrow> Q x)"
  by (force simp: reading_def same_disk_def)

lemma reading_if [reading_rules]:
  "\<lbrakk>b \<Longrightarrow> reading d0 m E Q; \<not> b \<Longrightarrow> reading d0 m' E Q\<rbrakk> \<Longrightarrow> reading d0 (if b then m else m') E Q"
  by simp

text \<open>The three operations below fail only when the disk does, unless the file is not there.\<close>

lemma reading_try_exists:
  assumes "\<And>msg k n. faults d0 n = Some (msg, k) \<Longrightarrow> E (Io msg)"
  shows "reading d0 (fs_try_exists p) E (\<lambda>found. found \<longleftrightarrow> files d0 p \<noteq> None)"
  using assms by (auto simp: reading_def same_disk_def fs_try_exists_def fs_op_def split: option.splits)

lemma reading_file:
  assumes "\<And>msg k n. faults d0 n = Some (msg, k) \<Longrightarrow> E (Io msg)" and "files d0 p \<noteq> None"
  shows "reading d0 (fs_read p) E (\<lambda>bytes. files d0 p = Some bytes)"
  using assms by (auto simp: reading_def same_disk_def fs_read_def fs_op_def split: option.splits)

section \<open>Why a configuration is refused\<close>

definition tls_paths :: "tls_config \<Rightarrow> string set" where
  "tls_paths c = {tls_cert_path c, tls_key_path c, tls_ca_path c}"

definition usable :: "('c, 'k, 'r, 'v, 'f) tls_crate \<Rightarrow> disk \<Rightarrow> string \<Rightarrow> bool" where
  "usable T d path \<longleftrightarrow> trim path \<noteq> [] \<and> files d (os_path T path) \<noteq> None"

text \<open>
  The causes of an error, by its variant: a path that is blank or names no file, or a file without
  what it should hold; the disk; or a library that refuses what it is given.
\<close>

definition pem_of :: "('c, 'k, 'r, 'v, 'f) tls_crate \<Rightarrow> disk \<Rightarrow> string \<Rightarrow> string + 'c list" where
  "pem_of T d path = collect_results (pem_certs T (content (os_path T path) d))"

definition key_of :: "('c, 'k, 'r, 'v, 'f) tls_crate \<Rightarrow> disk \<Rightarrow> string \<Rightarrow> string + 'k option" where
  "key_of T d path = pem_private_key T (content (os_path T path) d)"

definition incomplete :: "('c, 'k, 'r, 'v, 'f) tls_crate \<Rightarrow> disk \<Rightarrow> tls_config \<Rightarrow> bool" where
  "incomplete T d c \<longleftrightarrow> (\<exists>p\<in>tls_paths c. \<not> usable T d p) \<or> pem_of T d (tls_cert_path c) = Inr [] \<or>
     pem_of T d (tls_ca_path c) = Inr [] \<or> key_of T d (tls_key_path c) = Inr None"

definition unparsable :: "('c, 'k, 'r, 'v, 'f) tls_crate \<Rightarrow> disk \<Rightarrow> tls_config \<Rightarrow> bool" where
  "unparsable T d c \<longleftrightarrow> \<not> is_ok (pem_of T d (tls_cert_path c)) \<or> \<not> is_ok (pem_of T d (tls_ca_path c)) \<or>
     \<not> is_ok (key_of T d (tls_key_path c))"

definition tls_cause ::
    "('c, 'k, 'r, 'v, 'f) tls_crate \<Rightarrow> disk \<Rightarrow> tls_config \<Rightarrow> bool \<Rightarrow> error \<Rightarrow> bool" where
  "tls_cause T d c refused e =
     (case e of
        Validation _ \<Rightarrow> incomplete T d c
      | Io msg \<Rightarrow> (\<exists>n k. faults d n = Some (msg, k))
      | Runtime _ \<Rightarrow> unparsable T d c \<or> refused
      | _ \<Rightarrow> False)"

lemma reading_validate_path:
  assumes "p \<in> tls_paths c"
  shows "reading d (validate_path T p label) (tls_cause T d c b) (\<lambda>_. usable T d p)"
  unfolding validate_path_def
  by (intro reading_rules reading_bind [OF reading_try_exists])
    (use assms in \<open>auto simp: tls_cause_def incomplete_def usable_def\<close>)

lemma reading_validate:
  "reading d (tls_validate T c) (tls_cause T d c b) (\<lambda>_. \<forall>p\<in>tls_paths c. usable T d p)"
  unfolding tls_validate_def
  by (intro reading_rules reading_bind [OF reading_validate_path]) (auto simp: tls_paths_def)

text \<open>Reading a file of certificates, with what is made of them.\<close>

lemma reading_pem:
  assumes "usable T d p" and "p = tls_cert_path c \<or> p = tls_ca_path c"
  shows "reading d (sbind (fs_read (os_path T p)) (\<lambda>bytes.
      sbind (slift (map_err (\<lambda>e. Runtime (what e)) (collect_results (pem_certs T bytes)))) (\<lambda>certs.
      if certs = [] then slift (Inl (Validation none)) else slift (Inr (g certs)))))
    (tls_cause T d c b) (\<lambda>x. \<exists>certs. pem_of T d p = Inr certs \<and> certs \<noteq> [] \<and> x = g certs)"
proof (rule reading_bind [OF reading_file])
  fix bytes assume "files d (os_path T p) = Some bytes"
  then have p: "collect_results (pem_certs T bytes) = pem_of T d p"
    by (simp add: pem_of_def content_def)
  show "reading d (sbind (slift (map_err (\<lambda>e. Runtime (what e)) (collect_results (pem_certs T bytes)))) (\<lambda>certs.
      if certs = [] then slift (Inl (Validation none)) else slift (Inr (g certs))))
    (tls_cause T d c b) (\<lambda>x. \<exists>certs. pem_of T d p = Inr certs \<and> certs \<noteq> [] \<and> x = g certs)"
    unfolding p using assms(2)
    by (intro reading_bind [OF reading_lift [where Q = "\<lambda>certs. pem_of T d p = Inr certs"]] reading_rules)
      (auto simp: map_err_def tls_cause_def unparsable_def incomplete_def split: sum.split)
qed (use assms in \<open>auto simp: tls_cause_def usable_def\<close>)

lemma reading_certs:
  assumes "usable T d (tls_cert_path c)"
  shows "reading d (load_certs T (tls_cert_path c)) (tls_cause T d c b)
    (\<lambda>certs. pem_of T d (tls_cert_path c) = Inr certs \<and> certs \<noteq> [])"
  unfolding load_certs_def using reading_pem [OF assms, of c _ _ "\<lambda>certs. certs" b] by simp

lemma reading_ca:
  assumes "usable T d (tls_ca_path c)"
  shows "reading d (load_ca T (tls_ca_path c)) (tls_cause T d c b)
    (\<lambda>roots. \<exists>cas. pem_of T d (tls_ca_path c) = Inr cas \<and> cas \<noteq> [] \<and> roots = add_parsable_certificates T cas)"
  unfolding load_ca_def using reading_pem [OF assms, of c _ _ "add_parsable_certificates T" b] by simp

lemma reading_key:
  assumes "usable T d (tls_key_path c)"
  shows "reading d (load_private_key T (tls_key_path c)) (tls_cause T d c b)
    (\<lambda>key. key_of T d (tls_key_path c) = Inr (Some key))"
  unfolding load_private_key_def
proof (rule reading_bind [OF reading_file])
  fix bytes assume "files d (os_path T (tls_key_path c)) = Some bytes"
  then have "pem_private_key T bytes = key_of T d (tls_key_path c)"
    by (simp add: key_of_def content_def)
  then show "reading d (slift (case pem_private_key T bytes of
        Inr (Some key) \<Rightarrow> Inr key
      | Inr None \<Rightarrow> Inl (Validation (''no private key found in '' @ tls_key_path c))
      | Inl e \<Rightarrow> Inl (Runtime (''failed to parse private key: '' @ e))))
    (tls_cause T d c b) (\<lambda>key. key_of T d (tls_key_path c) = Inr (Some key))"
    by (intro reading_lift) (auto simp: tls_cause_def unparsable_def incomplete_def split: sum.splits option.splits)
qed (use assms in \<open>auto simp: tls_cause_def usable_def\<close>)

definition server_refuses :: "('c, 'k, 'r, 'v, 'f) tls_crate \<Rightarrow> disk \<Rightarrow> tls_config \<Rightarrow> bool" where
  "server_refuses T d c \<longleftrightarrow>
     (\<exists>certs key cas. pem_of T d (tls_cert_path c) = Inr certs \<and> key_of T d (tls_key_path c) = Inr (Some key) \<and>
        pem_of T d (tls_ca_path c) = Inr cas \<and>
        \<not> is_ok (and_then (verifier_build T (add_parsable_certificates T cas)) (\<lambda>v. with_single_cert T v certs key)))"

definition client_refuses :: "('c, 'k, 'r, 'v, 'f) tls_crate \<Rightarrow> disk \<Rightarrow> tls_config \<Rightarrow> bool" where
  "client_refuses T d c \<longleftrightarrow>
     (\<exists>certs key cas. pem_of T d (tls_cert_path c) = Inr certs \<and> key_of T d (tls_key_path c) = Inr (Some key) \<and>
        pem_of T d (tls_ca_path c) = Inr cas \<and>
        \<not> is_ok (with_client_auth_cert T (add_parsable_certificates T cas) certs key))"

definition loadable :: "('c, 'k, 'r, 'v, 'f) tls_crate \<Rightarrow> disk \<Rightarrow> tls_config \<Rightarrow> bool" where
  "loadable T d c \<longleftrightarrow> \<not> incomplete T d c \<and> \<not> unparsable T d c"

lemma loadable_iff:
  "loadable T d c \<longleftrightarrow> (\<forall>p\<in>tls_paths c. usable T d p) \<and>
     (\<exists>certs key cas. pem_of T d (tls_cert_path c) = Inr certs \<and> certs \<noteq> [] \<and>
        key_of T d (tls_key_path c) = Inr (Some key) \<and> pem_of T d (tls_ca_path c) = Inr cas \<and> cas \<noteq> [])"
  by (cases "pem_of T d (tls_cert_path c)"; cases "pem_of T d (tls_ca_path c)"; cases "key_of T d (tls_key_path c)")
    (auto simp: loadable_def incomplete_def unparsable_def)

text \<open>What both configurations begin with.\<close>

lemma reading_material:
  assumes "\<And>certs key cas. \<lbrakk>loadable T d c; pem_of T d (tls_cert_path c) = Inr certs;
      key_of T d (tls_key_path c) = Inr (Some key); pem_of T d (tls_ca_path c) = Inr cas\<rbrakk> \<Longrightarrow>
      reading d (f certs key (add_parsable_certificates T cas)) (tls_cause T d c b) Q"
  shows "reading d (sbind (tls_validate T c) (\<lambda>_. sbind (load_certs T (tls_cert_path c)) (\<lambda>certs.
      sbind (load_private_key T (tls_key_path c)) (\<lambda>key. sbind (load_ca T (tls_ca_path c)) (f certs key)))))
    (tls_cause T d c b) Q"
proof (rule reading_bind [OF reading_validate])
  fix u assume all: "\<forall>p\<in>tls_paths c. usable T d p"
  then have ok: "usable T d (tls_cert_path c)" "usable T d (tls_key_path c)" "usable T d (tls_ca_path c)"
    by (simp_all add: tls_paths_def)
  show "reading d (sbind (load_certs T (tls_cert_path c)) (\<lambda>certs.
      sbind (load_private_key T (tls_key_path c)) (\<lambda>key. sbind (load_ca T (tls_ca_path c)) (f certs key))))
    (tls_cause T d c b) Q"
  proof (rule reading_bind [OF reading_certs [OF ok(1)]], rule reading_bind [OF reading_key [OF ok(2)]],
      rule reading_bind [OF reading_ca [OF ok(3)]])
    fix certs key roots
    assume m: "pem_of T d (tls_cert_path c) = Inr certs \<and> certs \<noteq> []" "key_of T d (tls_key_path c) = Inr (Some key)"
      and "\<exists>cas. pem_of T d (tls_ca_path c) = Inr cas \<and> cas \<noteq> [] \<and> roots = add_parsable_certificates T cas"
    then obtain cas where cas: "pem_of T d (tls_ca_path c) = Inr cas" "cas \<noteq> []" "roots = add_parsable_certificates T cas"
      by blast
    then have "loadable T d c" using all m unfolding loadable_iff by blast
    with assms m cas show "reading d (f certs key roots) (tls_cause T d c b) Q" by blast
  qed
qed

lemma reading_server:
  "reading d (tls_server_config T c) (tls_cause T d c (server_refuses T d c))
     (\<lambda>(conf, alpn). loadable T d c \<and> \<not> server_refuses T d c \<and> alpn = [''h2'', ''http/1.1''] \<and>
        (\<exists>certs key cas v. pem_of T d (tls_cert_path c) = Inr certs \<and> key_of T d (tls_key_path c) = Inr (Some key) \<and>
           pem_of T d (tls_ca_path c) = Inr cas \<and> verifier_build T (add_parsable_certificates T cas) = Inr v \<and>
           with_single_cert T v certs key = Inr conf))"
  unfolding tls_server_config_def
proof (rule reading_material)
  fix certs key cas
  let ?v = "verifier_build T (add_parsable_certificates T cas)"
  assume m: "loadable T d c" "pem_of T d (tls_cert_path c) = Inr certs"
    "key_of T d (tls_key_path c) = Inr (Some key)" "pem_of T d (tls_ca_path c) = Inr cas"
  then have ref: "server_refuses T d c \<longleftrightarrow> \<not> is_ok (and_then ?v (\<lambda>v. with_single_cert T v certs key))"
    by (simp add: server_refuses_def)
  show "reading d (sbind (slift (map_err (\<lambda>e. Runtime (''failed to build client verifier: '' @ e)) ?v)) (\<lambda>verifier.
        sbind (slift (map_err (\<lambda>e. Runtime (''failed to set server certificate: '' @ e)) (with_single_cert T verifier certs key))) (\<lambda>config.
        slift (Inr (config, [''h2'', ''http/1.1''])))))
      (tls_cause T d c (server_refuses T d c))
      (\<lambda>(conf, alpn). loadable T d c \<and> \<not> server_refuses T d c \<and> alpn = [''h2'', ''http/1.1''] \<and>
        (\<exists>certs key cas v. pem_of T d (tls_cert_path c) = Inr certs \<and> key_of T d (tls_key_path c) = Inr (Some key) \<and>
           pem_of T d (tls_ca_path c) = Inr cas \<and> verifier_build T (add_parsable_certificates T cas) = Inr v \<and>
           with_single_cert T v certs key = Inr conf))"
    using m ref by (cases ?v; cases "with_single_cert T (projr ?v) certs key")
      (simp_all add: reading_def sbind_def slift_def map_err_def tls_cause_def)
qed

lemma reading_client:
  "reading d (tls_client_config T c) (tls_cause T d c (client_refuses T d c))
     (\<lambda>conf. loadable T d c \<and> \<not> client_refuses T d c \<and>
        (\<exists>certs key cas. pem_of T d (tls_cert_path c) = Inr certs \<and> key_of T d (tls_key_path c) = Inr (Some key) \<and>
           pem_of T d (tls_ca_path c) = Inr cas \<and>
           with_client_auth_cert T (add_parsable_certificates T cas) certs key = Inr conf))"
  unfolding tls_client_config_def
  by (intro reading_material reading_lift)
    (auto simp: map_err_def tls_cause_def client_refuses_def split: sum.splits)

section \<open>Properties\<close>

text \<open>C32. Loading a server's TLS configuration, on every branch. The files are left as they are. An
  error names its cause: \<open>Validation\<close> when a path is blank or names no file, or a file holds no
  certificate or no key; \<open>Io\<close> only when the disk failed, with its message; \<open>Runtime\<close> when a
  library could not parse or would not accept what the files hold; no other variant occurs. A
  configuration that is returned was made from the certificates and the key of the configured
  files, verifies clients against the configured roots and offers HTTP/2 before HTTP/1.1. And on
  a disk that does not fail, loading succeeds exactly when nothing is missing, unparsable or
  refused.\<close>

theorem tls_server_config_exact:
  "case tls_server_config T c d of (r, d') \<Rightarrow>
     files d' = files d \<and>
     (case r of
        Inl e \<Rightarrow> tls_cause T d c (server_refuses T d c) e
      | Inr (conf, alpn) \<Rightarrow> alpn = [''h2'', ''http/1.1''] \<and>
          (\<exists>certs key cas v. pem_of T d (tls_cert_path c) = Inr certs \<and> certs \<noteq> [] \<and>
             key_of T d (tls_key_path c) = Inr (Some key) \<and> pem_of T d (tls_ca_path c) = Inr cas \<and> cas \<noteq> [] \<and>
             verifier_build T (add_parsable_certificates T cas) = Inr v \<and> with_single_cert T v certs key = Inr conf)) \<and>
     (reliable d \<longrightarrow> (is_ok r \<longleftrightarrow> \<not> incomplete T d c \<and> \<not> unparsable T d c \<and> \<not> server_refuses T d c))"
proof -
  obtain r d' where run: "tls_server_config T c d = (r, d')" by fastforce
  from reading_run [OF reading_server run] run show ?thesis
    by (cases r) (auto simp: loadable_def incomplete_def tls_cause_def reliable_def split: error.splits)
qed

text \<open>The same for a client's configuration.\<close>

theorem tls_client_config_exact:
  "case tls_client_config T c d of (r, d') \<Rightarrow>
     files d' = files d \<and>
     (case r of
        Inl e \<Rightarrow> tls_cause T d c (client_refuses T d c) e
      | Inr conf \<Rightarrow>
          (\<exists>certs key cas. pem_of T d (tls_cert_path c) = Inr certs \<and> certs \<noteq> [] \<and>
             key_of T d (tls_key_path c) = Inr (Some key) \<and> pem_of T d (tls_ca_path c) = Inr cas \<and> cas \<noteq> [] \<and>
             with_client_auth_cert T (add_parsable_certificates T cas) certs key = Inr conf)) \<and>
     (reliable d \<longrightarrow> (is_ok r \<longleftrightarrow> \<not> incomplete T d c \<and> \<not> unparsable T d c \<and> \<not> client_refuses T d c))"
proof -
  obtain r d' where run: "tls_client_config T c d = (r, d')" by fastforce
  from reading_run [OF reading_client run] run show ?thesis
    by (cases r) (auto simp: loadable_def incomplete_def tls_cause_def reliable_def split: error.splits)
qed

text \<open>A disk with a certificate, a key and a root, and libraries that take them.\<close>

definition sample_tls :: "(string, string, string, string, string) tls_crate" where
  "sample_tls = \<lparr>os_path = (\<lambda>p. [p]), pem_certs = (\<lambda>b. [Inr b]), pem_private_key = (\<lambda>b. Inr (Some b)),
     add_parsable_certificates = concat, verifier_build = Inr, with_single_cert = (\<lambda>v cs k. Inr (v @ concat cs @ k)),
     with_client_auth_cert = (\<lambda>r cs k. Inr (r @ concat cs @ k))\<rparr>"

definition tls_disk :: "(nat \<Rightarrow> (string \<times> nat) option) \<Rightarrow> disk" where
  "tls_disk fs = \<lparr>files = [[''cert''] \<mapsto> ''C'', [''key''] \<mapsto> ''K'', [''ca''] \<mapsto> ''R''], faults = fs, ops = 0\<rparr>"

definition sample_tls_config :: tls_config where
  "sample_tls_config = tls_new ''cert'' ''key'' ''ca''"

lemma trim_names: "trim ''cert'' = ''cert''" "trim ''key'' = ''key''" "trim ''ca'' = ''ca''" "trim ''gone'' = ''gone''"
  by code_simp+

theorem tls_server_config_exact_witness:
  "is_ok (fst (tls_server_config sample_tls sample_tls_config (tls_disk (\<lambda>_. None))))"
proof -
  let ?d = "tls_disk (\<lambda>_. None)"
  have "reliable ?d" by (simp add: reliable_def tls_disk_def)
  moreover have "\<not> incomplete sample_tls ?d sample_tls_config" "\<not> unparsable sample_tls ?d sample_tls_config"
    "\<not> server_refuses sample_tls ?d sample_tls_config"
    by (auto simp: incomplete_def unparsable_def server_refuses_def tls_paths_def usable_def pem_of_def key_of_def
        sample_tls_def sample_tls_config_def tls_new_def tls_disk_def content_def trim_names)
  ultimately show ?thesis
    using tls_server_config_exact [where T = sample_tls and c = sample_tls_config and d = ?d] by (simp add: case_prod_beta)
qed

text \<open>Two things the documentation of \<open>validate\<close> leaves unsaid: a file that is not there is a
  \<open>Validation\<close> error and not an \<open>Io\<close> error, and a file that is there is not opened, so that one
  that cannot be read passes and only fails when it is loaded.\<close>

theorem tls_validate_does_not_open:
  "fst (tls_validate sample_tls (sample_tls_config\<lparr>tls_cert_path := ''gone''\<rparr>) (tls_disk (\<lambda>_. None))) =
     Inl (Validation ''cert_path file not found: gone'') \<and>
   (let d = tls_disk (\<lambda>n. if n = 3 then Some (''permission denied'', 0) else None) in
      fst (tls_validate sample_tls sample_tls_config d) = Inr () \<and>
      fst (tls_server_config sample_tls sample_tls_config d) = Inl (Io ''permission denied''))"
  by (simp add: tls_validate_def tls_server_config_def validate_path_def load_certs_def fs_try_exists_def fs_read_def
      fs_op_def sbind_def slift_def sample_tls_def sample_tls_config_def tls_new_def tls_disk_def trim_names Let_def)

end
