(* ===== verification/Conformance_Config.thy ===== *)
theory Conformance_Config
  imports Agent_Config
begin

text \<open>
  The unit tests of \<open>src/src/config.rs\<close> and \<open>cli.rs\<close>, run on the model. The tests of the
  configuration take the environment they run in; the file test takes what the TOML parser makes
  of the text it writes.
\<close>

section \<open>Log levels\<close>

definition test_log_level_as_str :: bool where
  "test_log_level_as_str \<longleftrightarrow>
     map log_level_as_str [LError, LWarn, LInfo, LDebug, LTrace] = [''error'', ''warn'', ''info'', ''debug'', ''trace'']"

definition test_log_level_from_str_exact :: bool where
  "test_log_level_from_str_exact \<longleftrightarrow>
     map log_level_parse [''error'', ''warn'', ''info'', ''debug'', ''trace''] =
       map Some [LError, LWarn, LInfo, LDebug, LTrace]"

definition test_log_level_from_str_case_insensitive :: bool where
  "test_log_level_from_str_case_insensitive \<longleftrightarrow>
     log_level_parse ''ERROR'' = Some LError \<and> log_level_parse ''Info'' = Some LInfo"

definition test_log_level_from_str_variant :: bool where
  "test_log_level_from_str_variant \<longleftrightarrow> log_level_parse ''warning'' = Some LWarn"

definition test_log_level_from_str_invalid :: bool where
  "test_log_level_from_str_invalid \<longleftrightarrow> log_level_parse ''invalid'' = None \<and> log_level_parse [] = None"

definition test_log_level_from_str_unknown :: bool where
  "test_log_level_from_str_unknown \<longleftrightarrow> log_level_parse ''verbose'' = None \<and> log_level_parse ''silent'' = None"

lemma log_level_tests:
  "list_all id
     [test_log_level_as_str, test_log_level_from_str_exact, test_log_level_from_str_case_insensitive,
      test_log_level_from_str_variant, test_log_level_from_str_invalid, test_log_level_from_str_unknown]"
  by code_simp

section \<open>Configuration\<close>

definition test_config_default :: "env \<Rightarrow> bool" where
  "test_config_default env \<longleftrightarrow>
     (let c = config_default env in
        cf_data_dir c = ''/opt/nomad/data'' \<and> cf_log_dir c = ''/opt/nomad/log'' \<and> cf_log_level c = LInfo \<and>
        cf_bind_addr c = ''0.0.0.0:4646'' \<and> cf_datacenter c = ''dc1'' \<and> cf_region c = ''global'' \<and>
        cf_node_name c \<noteq> [] \<and> cf_config_file c = None)"

definition test_config_equality :: "env \<Rightarrow> bool" where
  "test_config_equality env \<longleftrightarrow>
     (let a = (config_default env)\<lparr>cf_node_name := ''test-node''\<rparr>;
          b = (config_default env)\<lparr>cf_node_name := ''test-node''\<rparr>;
          c = (config_default env)\<lparr>cf_node_name := ''other-node''\<rparr>
      in a = b \<and> a \<noteq> c)"

definition file_config :: config where
  "file_config =
     \<lparr>cf_data_dir = ''/tmp/nomad-data'', cf_log_dir = ''/tmp/nomad-logs'', cf_log_level = LDebug,
      cf_bind_addr = ''127.0.0.1:4646'', cf_datacenter = ''us-east-1'', cf_node_name = ''test-node'', cf_region = ''us'',
      cf_config_file = None\<rparr>"

definition test_config_from_file :: "(string \<Rightarrow> config result) \<Rightarrow> string \<Rightarrow> disk \<Rightarrow> bool" where
  "test_config_from_file toml txt d \<longleftrightarrow>
     (let p = [''tmp'', ''nomad-rs-test-config'', ''config.toml'']
      in case sbind (fs_write p txt) (\<lambda>_. from_file toml p) d of
           (Inl _, _) \<Rightarrow> False
         | (Inr c, _) \<Rightarrow> c = file_config\<lparr>cf_config_file := Some p\<rparr>)"

definition test_config_validate_ok :: "env \<Rightarrow> bool" where
  "test_config_validate_ok env \<longleftrightarrow> is_ok (config_validate (config_default env))"

definition test_config_validate_empty_bind_addr :: "env \<Rightarrow> bool" where
  "test_config_validate_empty_bind_addr env \<longleftrightarrow> \<not> is_ok (config_validate ((config_default env)\<lparr>cf_bind_addr := []\<rparr>))"

definition test_config_validate_empty_data_dir :: "env \<Rightarrow> bool" where
  "test_config_validate_empty_data_dir env \<longleftrightarrow> \<not> is_ok (config_validate ((config_default env)\<lparr>cf_data_dir := []\<rparr>))"

definition test_config_merge_cli :: "env \<Rightarrow> bool" where
  "test_config_merge_cli env \<longleftrightarrow>
     (let merged = merge_cli (Some ''/cli/data'') None (Some LTrace) None (Some ''cli-node'') (Some ''cli-region'')
                     (config_default env) in
        cf_data_dir merged = ''/cli/data'' \<and> cf_log_level merged = LTrace \<and> cf_node_name merged = ''cli-node'' \<and>
        cf_region merged = ''cli-region'' \<and> cf_bind_addr merged = ''0.0.0.0:4646'')"

lemma trimmed: "trim ''0.0.0.0:4646'' = ''0.0.0.0:4646''" "trim [] = []"
  by code_simp+

text \<open>In every environment; the default test needs a host that does not name itself by the empty string.\<close>

lemma config_tests:
  "test_config_equality env \<and> test_config_validate_ok env \<and> test_config_validate_empty_bind_addr env \<and>
   test_config_validate_empty_data_dir env \<and> test_config_merge_cli env"
  by (simp add: test_config_equality_def test_config_validate_ok_def test_config_validate_empty_bind_addr_def
      test_config_validate_empty_data_dir_def test_config_merge_cli_def config_default_def config_validate_def
      merge_cli_def is_ok_def guard_err_def trimmed)

lemma config_default_test:
  "test_config_default env \<longleftrightarrow>
     env ''HOSTNAME'' \<noteq> Some [] \<and> (env ''HOSTNAME'' = None \<longrightarrow> env ''HOST'' \<noteq> Some [])"
  by (auto simp: test_config_default_def config_default_def split: option.splits)
    (auto simp: unwrap_or_def split: option.splits)

lemma config_file_test:
  "\<lbrakk>toml txt = Inr file_config; valid_utf8 txt; reliable d\<rbrakk> \<Longrightarrow> test_config_from_file toml txt d"
  by (simp add: test_config_from_file_def from_file_def sbind_def slift_def fs_write_def fs_read_to_string_def
      fs_read_def fs_op_def reliable_def)

section \<open>Command lines\<close>

definition parses_to :: "string list \<Rightarrow> string \<Rightarrow> string list \<Rightarrow> bool" where
  "parses_to argv name args \<longleftrightarrow> cli_parse argv = Inr \<lparr>pc_name = name, pc_args = args\<rparr>"

definition accepts :: "string \<Rightarrow> string list \<Rightarrow> bool" where
  "accepts command subs \<longleftrightarrow>
     list_all (\<lambda>s. is_ok (validate_subcommand command s)) subs \<and> \<not> is_ok (validate_subcommand command ''unknown'')"

definition parses_job_command :: bool where
  "parses_job_command = parses_to [''job'', ''status'', ''redis''] ''job'' [''status'', ''redis'']"

definition parses_node_command :: bool where
  "parses_node_command = parses_to [''node'', ''status''] ''node'' [''status'']"

definition parses_server_command :: bool where
  "parses_server_command = parses_to [''server'', ''members''] ''server'' [''members'']"

definition parses_alloc_command :: bool where
  "parses_alloc_command = parses_to [''alloc'', ''status'', ''abc123''] ''alloc'' [''status'', ''abc123'']"

definition parses_monitor_command :: bool where
  "parses_monitor_command = parses_to [''monitor''] ''monitor'' []"

definition empty_argv_errors :: bool where
  "empty_argv_errors \<longleftrightarrow> \<not> is_ok (cli_parse [])"

definition unknown_command_errors :: bool where
  "unknown_command_errors \<longleftrightarrow> \<not> is_ok (cli_parse [''unknown''])"

definition validate_job_subcommands :: bool where
  "validate_job_subcommands = accepts ''job'' [''run'', ''stop'', ''status'', ''inspect'']"

definition validate_node_subcommands :: bool where
  "validate_node_subcommands = accepts ''node'' [''status'', ''drain'', ''eligibility'']"

definition validate_server_subcommands :: bool where
  "validate_server_subcommands = accepts ''server'' [''members'', ''force-leave'', ''join'']"

definition validate_alloc_subcommands :: bool where
  "validate_alloc_subcommands = accepts ''alloc'' [''status'', ''logs'', ''exec'']"

definition validate_monitor_always_ok :: bool where
  "validate_monitor_always_ok = is_ok (validate_subcommand ''monitor'' [])"

definition agent_and_status_commands_are_known :: bool where
  "agent_and_status_commands_are_known \<longleftrightarrow> parses_to [''agent''] ''agent'' [] \<and> parses_to [''status''] ''status'' []"

lemma cli_tests:
  "list_all id
     [parses_job_command, parses_node_command, parses_server_command, parses_alloc_command, parses_monitor_command,
      empty_argv_errors, unknown_command_errors, validate_job_subcommands, validate_node_subcommands,
      validate_server_subcommands, validate_alloc_subcommands, validate_monitor_always_ok,
      agent_and_status_commands_are_known]"
  by code_simp

end
