(* ===== verification/Conformance.thy ===== *)
theory Conformance
  imports Queue_Accounts
begin

text \<open>
  The unit tests of the repository, run on the model. A test is a list of steps over the state it
  builds up; a failed assertion or an unwrapped error ends it. This theory has the harness and the
  tests of \<open>src/src/eval_queue.rs\<close>.
\<close>

section \<open>Steps of a test\<close>

type_synonym 's step = "'s \<Rightarrow> 's option"

definition assert_that :: "('s \<Rightarrow> bool) \<Rightarrow> 's step" where
  "assert_that P s = (if P s then Some s else None)"

text \<open>\<open>unwrap\<close> on a result, on a result that holds an option, and on the error of a result; the
  value is then checked.\<close>

definition unwrapped :: "('s \<Rightarrow> 'a result \<times> 's) \<Rightarrow> ('a \<Rightarrow> bool) \<Rightarrow> 's step" where
  "unwrapped m P s = (case m s of (Inl _, _) \<Rightarrow> None | (Inr x, s') \<Rightarrow> if P x then Some s' else None)"

definition unwrapped_some :: "('s \<Rightarrow> 'a option result \<times> 's) \<Rightarrow> ('a \<Rightarrow> bool) \<Rightarrow> 's step" where
  "unwrapped_some m P = unwrapped m (\<lambda>r. case r of None \<Rightarrow> False | Some x \<Rightarrow> P x)"

definition unwrapped_err :: "('s \<Rightarrow> 'a result \<times> 's) \<Rightarrow> 's step" where
  "unwrapped_err m s = (case m s of (Inl _, s') \<Rightarrow> Some s' | (Inr _, _) \<Rightarrow> None)"

abbreviation any :: "'a \<Rightarrow> bool" where
  "any \<equiv> \<lambda>_. True"

fun run_steps :: "'s step list \<Rightarrow> 's step" where
  "run_steps [] s = Some s"
| "run_steps (t # ts) s = (case t s of None \<Rightarrow> None | Some s' \<Rightarrow> run_steps ts s')"

definition passes :: "'s \<Rightarrow> 's step list \<Rightarrow> bool" where
  "passes s ts \<longleftrightarrow> run_steps ts s \<noteq> None"

lemma run_steps_append: "run_steps (ts @ us) s = Option.bind (run_steps ts s) (run_steps us)"
  by (induction ts arbitrary: s) (auto split: option.split)

lemma passes_append: "passes s (ts @ us) \<longleftrightarrow> (\<exists>s'. run_steps ts s = Some s' \<and> passes s' us)"
  by (auto simp: passes_def run_steps_append split: option.splits bind_splits)

section \<open>The evaluation queue\<close>

definition pending_eval_of :: "string \<Rightarrow> i32 \<Rightarrow> evaluation" where
  "pending_eval_of i priority =
     \<lparr>ev_id = i, ev_job_id = ''redis'', ev_priority = priority, ev_trigger = JobRegister, ev_status = EPending\<rparr>"

abbreviation enq :: "string \<Rightarrow> i32 \<Rightarrow> eval_queue step" where
  "enq i p \<equiv> unwrapped (enqueue (pending_eval_of i p)) any"

abbreviation deq :: "string \<Rightarrow> eval_queue step" where
  "deq i \<equiv> unwrapped_some (dequeue 0) (\<lambda>e. ev_id e = i)"

abbreviation deq_none :: "eval_queue step" where
  "deq_none \<equiv> unwrapped (dequeue 0) (\<lambda>r. r = None)"

text \<open>A timeout of zero, and of an hour, in nanoseconds; no time passes.\<close>

abbreviation reaping :: "nat \<Rightarrow> nat \<Rightarrow> eval_queue step" where
  "reaping timeout n \<equiv> unwrapped (reap_expired (\<lambda>_. 0) timeout) (\<lambda>k. k = n)"

definition new_queue_is_empty :: "eval_queue step list" where
  "new_queue_is_empty = [assert_that queue_is_empty, assert_that (\<lambda>q. queue_len q = 0)]"

definition enqueue_increases_len :: "eval_queue step list" where
  "enqueue_increases_len =
     [enq ''e1'' 50, assert_that (\<lambda>q. queue_len q = 1), assert_that (\<lambda>q. \<not> queue_is_empty q)]"

definition dequeue_returns_items_in_priority_order :: "eval_queue step list" where
  "dequeue_returns_items_in_priority_order =
     [enq ''low'' 10, enq ''high'' 80, enq ''mid'' 50, deq ''high'', deq ''mid'', deq ''low'', deq_none]"

definition equal_priority_is_fifo :: "eval_queue step list" where
  "equal_priority_is_fifo =
     [enq ''first'' 50, enq ''second'' 50, enq ''third'' 50, deq ''first'', deq ''second'', deq ''third'']"

definition dequeue_empty_returns_none :: "eval_queue step list" where
  "dequeue_empty_returns_none = [deq_none]"

definition clone_shares_same_queue :: "eval_queue step list" where
  "clone_shares_same_queue = [enq ''e1'' 50, deq ''e1'', assert_that queue_is_empty]"

definition dequeue_moves_eval_in_flight :: "eval_queue step list" where
  "dequeue_moves_eval_in_flight =
     [enq ''e1'' 50, deq ''e1'', assert_that (\<lambda>q. queue_len q = 0), assert_that (\<lambda>q. in_flight_len q = 1)]"

definition ack_clears_in_flight :: "eval_queue step list" where
  "ack_clears_in_flight =
     [enq ''e1'' 50, unwrapped_some (dequeue 0) any, unwrapped (ack ''e1'') any, assert_that (\<lambda>q. in_flight_len q = 0)]"

definition ack_unknown_id_is_noop :: "eval_queue step list" where
  "ack_unknown_id_is_noop = [unwrapped (ack ''nope'') any, assert_that (\<lambda>q. in_flight_len q = 0)]"

definition nack_re_enqueues_for_redelivery :: "eval_queue step list" where
  "nack_re_enqueues_for_redelivery =
     [enq ''e1'' 50, unwrapped_some (dequeue 0) any, unwrapped (nack ''e1'') any,
      assert_that (\<lambda>q. in_flight_len q = 0), assert_that (\<lambda>q. queue_len q = 1), deq ''e1'']"

definition nack_drops_eval_after_max_deliveries :: "eval_queue step list" where
  "nack_drops_eval_after_max_deliveries =
     enq ''e1'' 50 # concat (replicate (unat MAX_DEQUEUE) [deq ''e1'', unwrapped (nack ''e1'') any]) @
     [assert_that (\<lambda>q. queue_len q = 0), assert_that (\<lambda>q. in_flight_len q = 0), deq_none]"

definition block_holds_out_of_pending_until_unblock :: "eval_queue step list" where
  "block_holds_out_of_pending_until_unblock =
     [unwrapped (block (pending_eval_of ''b1'' 50)) any, assert_that (\<lambda>q. blocked_len q = 1),
      assert_that (\<lambda>q. queue_len q = 0), unwrapped unblock_all (\<lambda>moved. moved = 1),
      assert_that (\<lambda>q. blocked_len q = 0), assert_that (\<lambda>q. queue_len q = 1), deq ''b1'']"

definition reap_expired_re_enqueues_stale_in_flight :: "eval_queue step list" where
  "reap_expired_re_enqueues_stale_in_flight =
     [enq ''e1'' 50, unwrapped_some (dequeue 0) any, assert_that (\<lambda>q. in_flight_len q = 1), reaping 0 1,
      assert_that (\<lambda>q. in_flight_len q = 0), assert_that (\<lambda>q. queue_len q = 1), deq ''e1'']"

definition reap_expired_keeps_fresh_in_flight :: "eval_queue step list" where
  "reap_expired_keeps_fresh_in_flight =
     [enq ''e1'' 50, unwrapped_some (dequeue 0) any, reaping (3600 * 1000000000) 0,
      assert_that (\<lambda>q. in_flight_len q = 1), assert_that (\<lambda>q. queue_len q = 0)]"

definition reap_expired_drops_eval_past_delivery_cap :: "eval_queue step list" where
  "reap_expired_drops_eval_past_delivery_cap =
     enq ''e1'' 50 #
     concat (replicate (unat MAX_DEQUEUE) [unwrapped_some (dequeue 0) any, unwrapped (reap_expired (\<lambda>_. 0) 0) any]) @
     [assert_that (\<lambda>q. queue_len q = 0), assert_that (\<lambda>q. in_flight_len q = 0), deq_none]"

text \<open>The loop of the test is over when the queue is empty: five times at most here.\<close>

definition drain_all_respects_priority :: "eval_queue step list" where
  "drain_all_respects_priority =
     [enq ''a'' 30, enq ''b'' 99, enq ''c'' 1, enq ''d'' 50, deq ''b'', deq ''d'', deq ''a'', deq ''c'', deq_none]"

definition depth_reports_zeros_for_empty_queue :: "eval_queue step list" where
  "depth_reports_zeros_for_empty_queue =
     [assert_that (\<lambda>q. depth q = \<lparr>qd_pending = 0, qd_in_flight = 0, qd_blocked = 0\<rparr>)]"

definition depth_shows_enqueued_evals_as_pending :: "eval_queue step list" where
  "depth_shows_enqueued_evals_as_pending =
     [enq ''e1'' 50, enq ''e2'' 60, assert_that (\<lambda>q. qd_pending (depth q) = 2),
      assert_that (\<lambda>q. qd_in_flight (depth q) = 0), assert_that (\<lambda>q. qd_blocked (depth q) = 0)]"

definition depth_shows_dequeued_eval_as_in_flight_not_pending :: "eval_queue step list" where
  "depth_shows_dequeued_eval_as_in_flight_not_pending =
     [enq ''e1'' 50, unwrapped_some (dequeue 0) any, assert_that (\<lambda>q. qd_pending (depth q) = 0),
      assert_that (\<lambda>q. qd_in_flight (depth q) = 1)]"

definition depth_shows_blocked_eval_as_blocked :: "eval_queue step list" where
  "depth_shows_blocked_eval_as_blocked =
     [unwrapped (block (pending_eval_of ''b1'' 50)) any, assert_that (\<lambda>q. qd_pending (depth q) = 0),
      assert_that (\<lambda>q. qd_in_flight (depth q) = 0), assert_that (\<lambda>q. qd_blocked (depth q) = 1)]"

lemmas test_defs = assert_that_def unwrapped_def unwrapped_some_def unwrapped_err_def passes_def

lemma queue_order_tests:
  "list_all (passes queue_new)
     [new_queue_is_empty, enqueue_increases_len, dequeue_returns_items_in_priority_order, equal_priority_is_fifo,
      dequeue_empty_returns_none, clone_shares_same_queue, drain_all_respects_priority]"
  by code_simp

lemma queue_delivery_tests:
  "list_all (passes queue_new)
     [dequeue_moves_eval_in_flight, ack_clears_in_flight, ack_unknown_id_is_noop, nack_re_enqueues_for_redelivery,
      nack_drops_eval_after_max_deliveries, reap_expired_re_enqueues_stale_in_flight,
      reap_expired_drops_eval_past_delivery_cap, block_holds_out_of_pending_until_unblock]"
  by code_simp

lemma queue_depth_tests:
  "list_all (passes queue_new)
     [depth_reports_zeros_for_empty_queue, depth_shows_enqueued_evals_as_pending,
      depth_shows_dequeued_eval_as_in_flight_not_pending, depth_shows_blocked_eval_as_blocked]"
  by code_simp

text \<open>An hour is not over when no time has passed: the deadline is compared, not counted.\<close>

lemma queue_fresh_test: "passes queue_new reap_expired_keeps_fresh_in_flight"
  by (simp add: reap_expired_keeps_fresh_in_flight_def test_defs queue_new_def enqueue_def dequeue_def reap_expired_def
      is_expired_def push_seq_def pending_eval_of_def in_flight_len_def queue_len_def heap_push_def Let_def)

end
