(* ===== verification/Conformance_Scheduler.thy ===== *)
theory Conformance_Scheduler
  imports Conformance Server
begin

text \<open>The unit tests of \<open>src/src/scheduler.rs\<close>, run on the model.\<close>

section \<open>Inputs\<close>

definition node_with :: "string \<Rightarrow> i32 \<Rightarrow> i32 \<Rightarrow> node" where
  "node_with i cpu mem =
     \<lparr>nd_id = i, nd_name = ''n'', nd_datacenter = ''dc1'', nd_class = [],
      nd_resources = \<lparr>cpu_mhz = cpu, memory_mb = mem, network_mbps = 0\<rparr>,
      nd_status = NReady, nd_eligibility = Eligible, nd_draining = False, nd_attributes = [], nd_drivers = []\<rparr>"

definition task_with :: "i32 \<Rightarrow> i32 \<Rightarrow> i32 \<Rightarrow> task" where
  "task_with cpu mem net =
     \<lparr>tk_name = ''t'', tk_driver = ''exec'', tk_config = [],
      tk_resources = \<lparr>cpu_mhz = cpu, memory_mb = mem, network_mbps = net\<rparr>\<rparr>"

definition group_with :: "string \<Rightarrow> i32 \<Rightarrow> task \<Rightarrow> constraint list \<Rightarrow> task_group" where
  "group_with name n t cs =
     \<lparr>tg_name = name, tg_count = n, tg_tasks = [t], tg_constraints = cs, tg_affinities = [], tg_spreads = []\<rparr>"

definition job_of :: "string \<Rightarrow> task_group \<Rightarrow> job" where
  "job_of name g = job_default\<lparr>jb_name := name, jb_task_groups := [g]\<rparr>"

definition job_with :: "string \<Rightarrow> string \<Rightarrow> i32 \<Rightarrow> i32 \<Rightarrow> job" where
  "job_with name g cpu mem = job_of name (group_with g 1 (task_with cpu mem 0) [])"

definition eval_for_id :: "string \<Rightarrow> string \<Rightarrow> evaluation" where
  "eval_for_id i job =
     \<lparr>ev_id = i, ev_job_id = job, ev_priority = 50, ev_trigger = JobRegister, ev_status = EPending\<rparr>"

definition eval_for :: "string \<Rightarrow> evaluation" where
  "eval_for job = eval_for_id ''e1'' job"

definition alloc_with :: "string \<Rightarrow> desired_status \<Rightarrow> client_status \<Rightarrow> allocation" where
  "alloc_with i desired client =
     \<lparr>al_id = i, al_eval_id = ''e0'', al_node_id = ''node1'', al_job_id = ''other'', al_task_group = ''g'',
      al_desired_status = desired, al_client_status = client,
      al_resources = \<lparr>cpu_mhz = 800, memory_mb = 800, network_mbps = 0\<rparr>\<rparr>"

abbreviation st_node :: "node \<Rightarrow> state_store step" where
  "st_node n \<equiv> unwrapped (upsert_node n) any"

abbreviation st_job :: "job \<Rightarrow> state_store step" where
  "st_job j \<equiv> unwrapped (upsert_job j) any"

abbreviation st_alloc :: "allocation \<Rightarrow> state_store step" where
  "st_alloc a \<equiv> unwrapped (upsert_alloc a) any"

abbreviation planned :: "string \<Rightarrow> (allocation list \<Rightarrow> bool) \<Rightarrow> state_store step" where
  "planned job P \<equiv> assert_that (\<lambda>s. P (pl_allocs (process_eval no_crates (eval_for job) s)))"

section \<open>The lifecycle\<close>

definition test_scheduler_new :: "scheduler step list" where
  "test_scheduler_new =
     [assert_that (\<lambda>s. sc_status s = Initialized), assert_that (\<lambda>s. \<not> scheduler_is_running s)]"

definition test_scheduler_run :: "scheduler step list" where
  "test_scheduler_run =
     [assert_that (\<lambda>s. sc_status s = Initialized), unwrapped scheduler_run any, assert_that scheduler_is_running,
      assert_that (\<lambda>s. sc_status s = Running)]"

definition test_scheduler_run_idempotent :: "scheduler step list" where
  "test_scheduler_run_idempotent =
     [unwrapped scheduler_run any, assert_that scheduler_is_running, unwrapped scheduler_run any,
      assert_that scheduler_is_running]"

definition test_scheduler_stop :: "scheduler step list" where
  "test_scheduler_stop =
     [unwrapped scheduler_run any, assert_that scheduler_is_running, \<lambda>s. Some (scheduler_stop s),
      assert_that (\<lambda>s. sc_status s = Stopped), assert_that (\<lambda>s. \<not> scheduler_is_running s)]"

definition test_scheduler_stop_before_run :: "scheduler step list" where
  "test_scheduler_stop_before_run =
     [assert_that (\<lambda>s. sc_status s = Initialized), \<lambda>s. Some (scheduler_stop s),
      assert_that (\<lambda>s. sc_status s = Stopped)]"

section \<open>Planning\<close>

definition process_eval_places_alloc_on_feasible_node :: "state_store step list" where
  "process_eval_places_alloc_on_feasible_node =
     [st_node (node_with ''node1'' 1000 1024), st_job (job_with ''web'' ''g1'' 500 512),
      planned ''web'' (\<lambda>as. length as = 1 \<and>
        (let alloc = hd as in al_node_id alloc = ''node1'' \<and> al_job_id alloc = ''web'' \<and> al_task_group alloc = ''g1'' \<and>
           al_eval_id alloc = ''e1'' \<and> al_desired_status alloc = DRun))]"

definition process_eval_empty_when_no_node_fits :: "state_store step list" where
  "process_eval_empty_when_no_node_fits =
     [st_node (node_with ''node1'' 100 128), st_job (job_with ''web'' ''g1'' 500 512), planned ''web'' (\<lambda>as. as = [])]"

definition process_eval_empty_when_job_missing :: "state_store step list" where
  "process_eval_empty_when_job_missing = [planned ''ghost'' (\<lambda>as. as = [])]"

definition process_eval_subtracts_existing_allocs_from_capacity :: "state_store step list" where
  "process_eval_subtracts_existing_allocs_from_capacity =
     [st_node (node_with ''node1'' 1000 1024), st_alloc (alloc_with ''old'' DRun CRunning),
      st_job (job_with ''web'' ''g1'' 500 512), planned ''web'' (\<lambda>as. as = [])]"

definition process_eval_ignores_terminal_allocs_for_capacity :: "state_store step list" where
  "process_eval_ignores_terminal_allocs_for_capacity =
     [st_node (node_with ''node1'' 1000 1024), st_alloc (alloc_with ''done'' DStop CComplete),
      st_job (job_with ''web'' ''g1'' 500 512), planned ''web'' (\<lambda>as. length as = 1)]"

definition process_eval_emits_one_alloc_per_count :: "state_store step list" where
  "process_eval_emits_one_alloc_per_count =
     [st_node (node_with ''node1'' 1000 1024), st_job (job_of ''web'' (group_with ''g1'' 3 (task_with 100 128 0) [])),
      planned ''web'' (\<lambda>as. length as = 3 \<and> list_all (\<lambda>a. al_node_id a = ''node1'') as)]"

definition process_eval_does_not_oversubscribe_node_for_count :: "state_store step list" where
  "process_eval_does_not_oversubscribe_node_for_count =
     [st_node (node_with ''node1'' 600 600), st_job (job_of ''web'' (group_with ''g1'' 3 (task_with 250 250 0) [])),
      planned ''web'' (\<lambda>as. length as = 2)]"

definition process_eval_enforces_network_demand :: "state_store step list" where
  "process_eval_enforces_network_demand =
     [st_node (node_with ''node1'' 1000 1024), st_job (job_of ''web'' (group_with ''g1'' 1 (task_with 100 128 10) [])),
      planned ''web'' (\<lambda>as. as = [])]"

definition on_linux :: job where
  "on_linux = job_of ''web'' (group_with ''g1'' 1 (task_with 100 128 0)
     [\<lparr>c_left = ''os'', c_right = ''linux'', c_operand = ''=''\<rparr>])"

definition process_eval_skips_node_failing_constraint :: "state_store step list" where
  "process_eval_skips_node_failing_constraint =
     [st_node ((node_with ''win1'' 1000 1024)\<lparr>nd_attributes := [(''os'', ''windows'')]\<rparr>), st_job on_linux,
      planned ''web'' (\<lambda>as. as = [])]"

definition process_eval_steers_to_constraint_satisfying_node :: "state_store step list" where
  "process_eval_steers_to_constraint_satisfying_node =
     [st_node ((node_with ''win1'' 1000 1024)\<lparr>nd_attributes := [(''os'', ''windows'')]\<rparr>),
      st_node ((node_with ''lin1'' 1000 1024)\<lparr>nd_attributes := [(''os'', ''linux'')]\<rparr>), st_job on_linux,
      planned ''web'' (\<lambda>as. map al_node_id as = [''lin1''])]"

definition process_eval_skips_ineligible_and_down_nodes :: "state_store step list" where
  "process_eval_skips_ineligible_and_down_nodes =
     [st_node ((node_with ''down1'' 1000 1024)\<lparr>nd_status := NDown\<rparr>),
      st_node ((node_with ''inelig1'' 1000 1024)\<lparr>nd_eligibility := Ineligible\<rparr>),
      st_node ((node_with ''drain1'' 1000 1024)\<lparr>nd_draining := True\<rparr>),
      st_job (job_with ''web'' ''g1'' 100 128), planned ''web'' (\<lambda>as. as = [])]"

section \<open>Applying plans and draining the queue\<close>

type_synonym bench = "eval_queue \<times> fsm"

definition on_fsm :: "(fsm \<Rightarrow> 'a result \<times> fsm) \<Rightarrow> bench \<Rightarrow> 'a result \<times> bench" where
  "on_fsm m = (\<lambda>(q, f). case m f of (r, f') \<Rightarrow> (r, q, f'))"

definition on_q :: "(eval_queue \<Rightarrow> 'a result \<times> eval_queue) \<Rightarrow> bench \<Rightarrow> 'a result \<times> bench" where
  "on_q m = (\<lambda>(q, f). case m q of (r, q') \<Rightarrow> (r, q', f))"

abbreviation applied :: "command \<Rightarrow> bench step" where
  "applied c \<equiv> unwrapped (on_fsm (fsm_apply c)) any"

abbreviation queued :: "string \<Rightarrow> string \<Rightarrow> bench step" where
  "queued i job \<equiv> unwrapped (on_q (enqueue (eval_for_id i job))) any"

abbreviation drained_to :: "(nat \<Rightarrow> bool) \<Rightarrow> bench step" where
  "drained_to P \<equiv> unwrapped (\<lambda>(q, f). drain_queue no_crates (\<lambda>_. 0) q f) P"

abbreviation placed :: "string \<Rightarrow> (plan \<Rightarrow> bool) \<Rightarrow> bench step" where
  "placed job P \<equiv> unwrapped (on_fsm (process_and_apply no_crates (eval_for job))) P"

definition process_and_apply_writes_allocs_to_state :: "bench step list" where
  "process_and_apply_writes_allocs_to_state =
     [applied (UpsertNode (node_with ''node1'' 1000 1024)), applied (UpsertJob (job_with ''web'' ''g1'' 500 512)),
      placed ''web'' (\<lambda>p. length (pl_allocs p) = 1),
      assert_that (\<lambda>(q, f). length (allocs_by_node (fsm_state f) ''node1'') = 1),
      assert_that (\<lambda>(q, f). length (allocs_by_job (fsm_state f) ''web'') = 1)]"

definition drain_queue_processes_all_pending_evals :: "bench step list" where
  "drain_queue_processes_all_pending_evals =
     [applied (UpsertNode (node_with ''node1'' 1000 1024)), applied (UpsertJob (job_with ''a'' ''g'' 100 100)),
      applied (UpsertJob (job_with ''b'' ''g'' 100 100)), queued ''ea'' ''a'', queued ''eb'' ''b'',
      drained_to (\<lambda>n. n = 2), unwrapped (on_q (dequeue 0)) (\<lambda>r. r = None),
      assert_that (\<lambda>(q, f). length (list_allocs (fsm_state f)) = 2)]"

definition drain_queue_blocks_unplaceable_eval :: "bench step list" where
  "drain_queue_blocks_unplaceable_eval =
     [applied (UpsertNode (node_with ''node1'' 100 128)), applied (UpsertJob (job_with ''big'' ''g'' 500 512)),
      queued ''e'' ''big'', drained_to (\<lambda>n. n = 0), assert_that (\<lambda>(q, f). blocked_len q = 1),
      assert_that (\<lambda>(q, f). in_flight_len q = 0)]"

definition drain_queue_does_not_block_when_job_absent :: "bench step list" where
  "drain_queue_does_not_block_when_job_absent =
     [queued ''e'' ''ghost'', drained_to any, assert_that (\<lambda>(q, f). blocked_len q = 0)]"

definition process_and_apply_second_eval_respects_first_placement :: "bench step list" where
  "process_and_apply_second_eval_respects_first_placement =
     [applied (UpsertNode (node_with ''node1'' 600 600)), applied (UpsertJob (job_with ''a'' ''g'' 500 500)),
      applied (UpsertJob (job_with ''b'' ''g'' 500 500)), placed ''a'' (\<lambda>p. length (pl_allocs p) = 1),
      placed ''b'' (\<lambda>p. pl_allocs p = []),
      assert_that (\<lambda>(q, f). length (allocs_by_node (fsm_state f) ''node1'') = 1)]"

section \<open>The tests pass\<close>

lemma scheduler_lifecycle_tests:
  "list_all (passes scheduler_new)
     [test_scheduler_new, test_scheduler_run, test_scheduler_run_idempotent, test_scheduler_stop,
      test_scheduler_stop_before_run]"
  by code_simp

lemma process_eval_capacity_tests:
  "list_all (passes state_new)
     [process_eval_places_alloc_on_feasible_node, process_eval_empty_when_no_node_fits,
      process_eval_empty_when_job_missing, process_eval_subtracts_existing_allocs_from_capacity,
      process_eval_ignores_terminal_allocs_for_capacity, process_eval_emits_one_alloc_per_count,
      process_eval_does_not_oversubscribe_node_for_count, process_eval_enforces_network_demand]"
  by code_simp

lemma process_eval_eligibility_tests:
  "list_all (passes state_new)
     [process_eval_skips_node_failing_constraint, process_eval_steers_to_constraint_satisfying_node,
      process_eval_skips_ineligible_and_down_nodes]"
  by code_simp

lemma drain_tests:
  "list_all (passes (queue_new, fsm_new))
     [process_and_apply_writes_allocs_to_state, drain_queue_processes_all_pending_evals,
      drain_queue_blocks_unplaceable_eval, drain_queue_does_not_block_when_job_absent,
      process_and_apply_second_eval_respects_first_placement]"
  by code_simp

end
