(* ===== verification/Integration.thy ===== *)
theory Integration
  imports Server
begin

text \<open>
  \<open>src/src/integration.rs\<close>: the in-process cluster and its builder. The handle's \<open>eval_queue\<close> is
  a clone of the queue inside its endpoint, so both are one queue here, the endpoint's; the server
  has a consensus node and a queue of its own.
\<close>

record cluster_handle =
  ch_server :: server
  ch_client :: client
  ch_endpoint :: endpoint

abbreviation ch_queue :: "cluster_handle \<Rightarrow> eval_queue" where
  "ch_queue h \<equiv> ep_queue (ch_endpoint h)"

definition cluster_register_job ::
    "nat \<Rightarrow> nat \<Rightarrow> string \<Rightarrow> i32 \<Rightarrow> cluster_handle \<Rightarrow> eval_id result \<times> cluster_handle" where
  "cluster_register_job inst nanos name priority h =
     (let job = job_default\<lparr>jb_name := name, jb_priority := priority\<rparr>
      in case handle inst nanos (Req_JobRegister job) (ch_endpoint h) of
           (Inl e, ep) \<Rightarrow> (Inl e, h\<lparr>ch_endpoint := ep\<rparr>)
         | (Inr (JobRegistered eval_id), ep) \<Rightarrow> (Inr eval_id, h\<lparr>ch_endpoint := ep\<rparr>)
         | (Inr _, ep) \<Rightarrow> (Inl (Runtime ''unexpected response to JobRegister''), h\<lparr>ch_endpoint := ep\<rparr>))"

definition cluster_dequeue_eval :: "nat \<Rightarrow> cluster_handle \<Rightarrow> evaluation option \<times> cluster_handle" where
  "cluster_dequeue_eval now h =
     (case dequeue now (ch_queue h) of
        (Inl _, q) \<Rightarrow> (None, h\<lparr>ch_endpoint := (ch_endpoint h)\<lparr>ep_queue := q\<rparr>\<rparr>)
      | (Inr eo, q) \<Rightarrow> (eo, h\<lparr>ch_endpoint := (ch_endpoint h)\<lparr>ep_queue := q\<rparr>\<rparr>))"

definition cluster_shutdown :: "cluster_handle \<Rightarrow> cluster_handle" where
  "cluster_shutdown h = h\<lparr>ch_server := server_stop (ch_server h)\<rparr>"

record cluster_builder =
  cb_server_config :: config
  cb_client_config :: config
  cb_eval_queue :: "eval_queue option"

definition builder_default :: "env \<Rightarrow> cluster_builder" where
  "builder_default env =
     \<lparr>cb_server_config = config_default env, cb_client_config = config_default env, cb_eval_queue = None\<rparr>"

definition builder_new :: "env \<Rightarrow> cluster_builder" where
  "builder_new env = builder_default env"

definition builder_server_config :: "config \<Rightarrow> cluster_builder \<Rightarrow> cluster_builder" where
  "builder_server_config c b = b\<lparr>cb_server_config := c\<rparr>"

definition builder_client_config :: "config \<Rightarrow> cluster_builder \<Rightarrow> cluster_builder" where
  "builder_client_config c b = b\<lparr>cb_client_config := c\<rparr>"

definition builder_eval_queue :: "eval_queue \<Rightarrow> cluster_builder \<Rightarrow> cluster_builder" where
  "builder_eval_queue q b = b\<lparr>cb_eval_queue := Some q\<rparr>"

definition cluster_build :: "cluster_builder \<Rightarrow> cluster_handle result" where
  "cluster_build b =
     and_then (config_validate (cb_server_config b)) (\<lambda>_.
     and_then (config_validate (cb_client_config b)) (\<lambda>_.
     case server_run (server_new (cb_server_config b)) of
       (Inl e, _) \<Rightarrow> Inl e
     | (Inr _, server) \<Rightarrow>
         Inr \<lparr>ch_server = server, ch_client = client_new (cb_client_config b),
              ch_endpoint = endpoint_new (unwrap_or (cb_eval_queue b) queue_new)\<rparr>))"

section \<open>Runs of a handle\<close>

text \<open>Jobs registered one after the other, and evaluations taken one after the other.\<close>

type_synonym posting = "nat \<times> string \<times> i32"

fun register_all :: "posting list \<Rightarrow> cluster_handle \<Rightarrow> eval_id result list \<times> cluster_handle" where
  "register_all [] h = ([], h)"
| "register_all ((nanos, name, priority) # js) h =
     (case cluster_register_job nanos nanos name priority h of
        (r, h1) \<Rightarrow> (case register_all js h1 of (rs, h2) \<Rightarrow> (r # rs, h2)))"

fun dequeue_all :: "nat \<Rightarrow> nat \<Rightarrow> cluster_handle \<Rightarrow> evaluation option list \<times> cluster_handle" where
  "dequeue_all now 0 h = ([], h)"
| "dequeue_all now (Suc n) h =
     (case cluster_dequeue_eval now h of
        (e, h1) \<Rightarrow> (case dequeue_all now n h1 of (es, h2) \<Rightarrow> (e # es, h2)))"

definition posting_eval :: "posting \<Rightarrow> evaluation" where
  "posting_eval = (\<lambda>(nanos, name, priority).
     register_eval nanos (job_default\<lparr>jb_name := name, jb_priority := priority\<rparr>))"

definition posting_ok :: "posting \<Rightarrow> bool" where
  "posting_ok = (\<lambda>(_, name, priority). name \<noteq> [] \<and> 1 \<le> sint priority \<and> sint priority \<le> 100)"

definition handle_live :: "cluster_handle \<Rightarrow> bool" where
  "handle_live h \<longleftrightarrow> is_leader (ep_raft (ch_endpoint h)) \<and> \<not> q_poisoned (ch_queue h) \<and> seq_ok (ch_queue h)"

lemma posting_ok_iff:
  "posting_ok (nanos, name, priority) \<longleftrightarrow> job_ok (job_default\<lparr>jb_name := name, jb_priority := priority\<rparr>)"
  by (auto simp: posting_ok_def job_ok_def job_default_def)

lemma cluster_register_ok:
  assumes "posting_ok (nanos, name, priority)" and "handle_live h" and "seq_room 1 (ch_queue h)"
  shows "\<exists>h'. cluster_register_job inst nanos name priority h = (Inr (eval_id_for nanos name), h') \<and> handle_live h' \<and>
    ch_queue h' = push_seq (posting_eval (nanos, name, priority)) 0 (ch_queue h) \<and>
    ch_server h' = ch_server h \<and> ch_client h' = ch_client h"
proof -
  let ?j = "job_default\<lparr>jb_name := name, jb_priority := priority\<rparr>"
  obtain ep where ep: "handle inst nanos (Req_JobRegister ?j) (ch_endpoint h) =
        (Inr (JobRegistered (eval_id_for nanos name)), ep)"
    "is_leader (ep_raft ep)" "\<not> q_poisoned (ep_queue ep)"
    "ep_queue ep = push_seq (register_eval nanos ?j) 0 (ch_queue h)"
    using register_on_leader [of ?j "ch_endpoint h" inst nanos] assms(1,2)
    by (auto simp: posting_ok_iff handle_live_def)
  then show ?thesis
    using assms(2) push_seq_ok [OF _ assms(3)]
    by (simp add: cluster_register_job_def handle_live_def posting_eval_def)
qed

lemma register_all_ok:
  assumes "\<forall>j\<in>set js. posting_ok j" and "handle_live h" and "seq_room (length js) (ch_queue h)"
  shows "\<exists>h'. register_all js h = (map (\<lambda>j. Inr (ev_id (posting_eval j))) js, h') \<and> handle_live h' \<and>
    pending_evals (ch_queue h') = fold (\<lambda>j. spec_insert (posting_eval j)) js (pending_evals (ch_queue h)) \<and>
    ch_server h' = ch_server h"
  using assms
proof (induction js arbitrary: h)
  case (Cons j js)
  obtain nanos name priority where j: "j = (nanos, name, priority)" by (cases j)
  have room: "seq_room 1 (ch_queue h)" using Cons.prems by (simp add: seq_room_def)
  obtain h1 where h1: "cluster_register_job nanos nanos name priority h = (Inr (eval_id_for nanos name), h1)"
    "handle_live h1" "ch_queue h1 = push_seq (posting_eval j) 0 (ch_queue h)" "ch_server h1 = ch_server h"
    using cluster_register_ok [of nanos name priority h nanos] Cons.prems room by (auto simp: j)
  have "seq_room (length js) (ch_queue h1)"
    using Cons.prems(3) push_seq_next [OF room] by (simp add: h1 seq_room_def)
  moreover have "pending_evals (ch_queue h1) = spec_insert (posting_eval j) (pending_evals (ch_queue h))"
    using Cons.prems(2) by (simp add: h1 push_seq_pending handle_live_def)
  moreover have "ev_id (posting_eval j) = eval_id_for nanos name"
    by (simp add: j posting_eval_def register_eval_def)
  ultimately show ?case
    using Cons.IH [of h1] Cons.prems(1) h1 by (auto simp: j)
qed auto

lemma dequeue_all_ok:
  assumes "handle_live h" and "pending_evals (ch_queue h) = es"
  shows "\<exists>h'. dequeue_all now (length es) h = (map Some es, h') \<and> handle_live h' \<and>
    pending_evals (ch_queue h') = [] \<and> ch_server h' = ch_server h"
  using assms
proof (induction es arbitrary: h)
  case (Cons e es)
  then obtain q where q: "dequeue now (ch_queue h) = (Inr (Some e), q)" "pending_evals q = es" "seq_ok q"
    using dequeue_pending [of "ch_queue h" now] by (auto simp: handle_live_def)
  moreover from q(1) have "\<not> q_poisoned q"
    by (auto simp: dequeue_def Let_def split: if_splits option.splits)
  ultimately show ?case
    using Cons.IH [of "h\<lparr>ch_endpoint := (ch_endpoint h)\<lparr>ep_queue := q\<rparr>\<rparr>"] Cons.prems(1)
    by (auto simp: cluster_dequeue_eval_def handle_live_def)
qed simp

lemma mset_spec_insert: "mset (spec_insert e xs) = add_mset e (mset xs)"
proof -
  let ?P = "\<lambda>x. sint (ev_priority e) \<le> sint (ev_priority x)"
  have "mset (spec_insert e xs) = add_mset e (mset (takeWhile ?P xs @ dropWhile ?P xs))"
    by (simp only: spec_insert_def mset_append mset.simps) simp
  then show ?thesis by (simp only: takeWhile_dropWhile_id)
qed

lemma mset_fold_spec_insert:
  "mset (fold (\<lambda>j. spec_insert (f j)) js xs) = mset (map f js) + mset xs"
  by (induction js arbitrary: xs) (auto simp: mset_spec_insert)

lemma cluster_build_ok:
  assumes "config_ok (cb_server_config b)" "config_ok (cb_client_config b)"
  shows "cluster_build b = Inr \<lparr>ch_server = snd (server_run (server_new (cb_server_config b))),
     ch_client = client_new (cb_client_config b),
     ch_endpoint = endpoint_new (unwrap_or (cb_eval_queue b) queue_new)\<rparr>"
proof -
  have "config_validate (cb_server_config b) = Inr ()" "config_validate (cb_client_config b) = Inr ()"
    using assms by (simp_all add: cfg.validate_iff)
  then show ?thesis by (simp add: cluster_build_def server_run_def)
qed

section \<open>Properties\<close>

text \<open>C33. The round trip of an in-process cluster: with two valid configurations the builder starts a
  cluster; jobs with a name and a priority between 1 and 100 that are registered on it, fewer
  than \<open>2 ^ 64\<close>, are all accepted; taking as many evaluations gives exactly one for each job, by
  descending priority and in the order of registration within a priority, with the identifiers
  the registrations returned; and then none is left. All of this happens on the endpoint's own
  consensus node and queue: the server that was started is as it was, running and empty, until
  the handle is shut down.\<close>

theorem cluster_roundtrip:
  assumes "config_ok (cb_server_config b)" and "config_ok (cb_client_config b)" and "cb_eval_queue b = None"
    and "\<forall>j\<in>set js. posting_ok j" and "length js < 2 ^ 64"
  shows "\<exists>h h1 h2 es. cluster_build b = Inr h \<and>
    register_all js h = (map (\<lambda>j. Inr (ev_id (posting_eval j))) js, h1) \<and>
    dequeue_all now (length js) h1 = (map Some es, h2) \<and> fst (cluster_dequeue_eval now h2) = None \<and>
    es = fold (\<lambda>j. spec_insert (posting_eval j)) js [] \<and> mset es = mset (map posting_eval js) \<and>
    sorted_wrt (\<lambda>a b. sint (ev_priority b) \<le> sint (ev_priority a)) es \<and>
    ch_server h2 = ch_server h \<and> server_is_running (ch_server h) \<and>
    rn_log (sv_raft (ch_server h2)) = [] \<and> q_heap (sv_queue (ch_server h2)) = [] \<and>
    \<not> server_is_running (ch_server (cluster_shutdown h2))"
proof -
  let ?s = "snd (server_run (server_new (cb_server_config b)))"
  let ?h = "\<lparr>ch_server = ?s, ch_client = client_new (cb_client_config b), ch_endpoint = endpoint_new queue_new\<rparr>"
  let ?es = "fold (\<lambda>j. spec_insert (posting_eval j)) js []"
  have build: "cluster_build b = Inr ?h" using cluster_build_ok [OF assms(1,2)] assms(3) by simp
  have fresh: "handle_live ?h" "pending_evals (ch_queue ?h) = []" "seq_room (length js) (ch_queue ?h)"
    using assms(5)
    by (simp_all add: handle_live_def endpoint_new_def queue_new_def seq_ok_def seq_room_def
        pending_evals_def is_leader_def raft_bootstrap_def)
  obtain h1 where h1: "register_all js ?h = (map (\<lambda>j. Inr (ev_id (posting_eval j))) js, h1)" "handle_live h1"
    "pending_evals (ch_queue h1) = ?es" "ch_server h1 = ?s"
    using register_all_ok [OF assms(4) fresh(1,3)] fresh(2) by auto
  have ms: "mset ?es = mset (map posting_eval js)" by (simp only: mset_fold_spec_insert) simp
  then have len: "length ?es = length js" by (metis length_map size_mset)
  obtain h2 where h2: "dequeue_all now (length js) h1 = (map Some ?es, h2)" "handle_live h2"
    "pending_evals (ch_queue h2) = []" "ch_server h2 = ?s"
    using dequeue_all_ok [OF h1(2,3), of now] h1(4) len by auto
  have "fst (cluster_dequeue_eval now h2) = None"
    using dequeue_pending [of "ch_queue h2" now] h2(2,3) by (simp add: handle_live_def cluster_dequeue_eval_def)
  moreover have "sorted_wrt (\<lambda>a b. sint (ev_priority b) \<le> sint (ev_priority a)) ?es"
    using spec_insert_sorted [of "ch_queue h1"] by (simp add: h1(3))
  moreover have "server_is_running ?s" "rn_log (sv_raft ?s) = []" "q_heap (sv_queue ?s) = []"
    "\<not> server_is_running (ch_server (cluster_shutdown h2))"
    by (simp_all add: server_is_running_def server_run_def server_new_def raft_bootstrap_def raft_new_def
        queue_new_def cluster_shutdown_def server_stop_def)
  ultimately show ?thesis
    using build h1(1) h2(1,4) ms by (intro exI [of _ ?h] exI [of _ h1] exI [of _ h2] exI [of _ ?es]) simp
qed

theorem cluster_roundtrip_witness:
  "\<exists>h h1 h2. cluster_build (builder_default Map.empty) = Inr h \<and>
     register_all [(1, ''a'', 10), (2, ''b'', 90)] h = ([Inr ''eval-a-1'', Inr ''eval-b-2''], h1) \<and>
     map (map_option ev_job_id) (fst (dequeue_all 0 2 h1)) = [Some ''b'', Some ''a'']"
proof -
  let ?js = "[(1, ''a'', 10), (2, ''b'', 90)] :: posting list"
  have "config_ok (config_default Map.empty)"
    by (simp flip: cfg.validate_iff) code_simp
  then obtain h h1 h2 es where h: "cluster_build (builder_default Map.empty) = Inr h"
    "register_all ?js h = (map (\<lambda>j. Inr (ev_id (posting_eval j))) ?js, h1)"
    "dequeue_all 0 (length ?js) h1 = (map Some es, h2)" "es = fold (\<lambda>j. spec_insert (posting_eval j)) ?js []"
    using cluster_roundtrip [of "builder_default Map.empty" ?js 0]
    by (auto simp: builder_default_def posting_ok_def)
  moreover have "map (\<lambda>j. Inr (ev_id (posting_eval j)) :: eval_id result) ?js = [Inr ''eval-a-1'', Inr ''eval-b-2'']"
    "map (map_option ev_job_id) (map Some (fold (\<lambda>j. spec_insert (posting_eval j)) ?js [])) = [Some ''b'', Some ''a'']"
    by code_simp+
  ultimately show ?thesis by (intro exI [of _ h] exI [of _ h1]) (simp add: numeral_2_eq_2)
qed

end
