(* ===== verification/Conformance_Rpc.thy ===== *)
theory Conformance_Rpc
  imports Conformance_Scheduler Integration
begin

text \<open>
  The unit tests of \<open>src/src/rpc.rs\<close>, \<open>src/src/server.rs\<close>, \<open>src/src/client.rs\<close> and
  \<open>src/src/integration.rs\<close>, run on the model. A clone of a queue or of a consensus node is the
  one in the endpoint; identifiers are made of a clock that stands still.
\<close>

section \<open>The endpoint\<close>

abbreviation asked :: "request \<Rightarrow> (response \<Rightarrow> bool) \<Rightarrow> endpoint step" where
  "asked req P \<equiv> unwrapped (handle 0 0 req) P"

abbreviation from_queue :: "(evaluation \<Rightarrow> bool) \<Rightarrow> endpoint step" where
  "from_queue P \<equiv> unwrapped_some (on_queue (dequeue 0)) P"

abbreviation named :: "string \<Rightarrow> job" where
  "named name \<equiv> job_default\<lparr>jb_name := name\<rparr>"

fun is_registered :: "response \<Rightarrow> bool" where
  "is_registered (JobRegistered _) = True"
| "is_registered _ = False"

fun is_eval :: "response \<Rightarrow> bool" where
  "is_eval (Resp_Eval _) = True"
| "is_eval _ = False"

fun is_not_leader :: "response \<Rightarrow> bool" where
  "is_not_leader (NotLeader _) = True"
| "is_not_leader _ = False"

definition plain_node :: "string \<Rightarrow> node" where
  "plain_node i =
     \<lparr>nd_id = i, nd_name = i, nd_datacenter = ''dc1'', nd_class = [], nd_resources = resources_default,
      nd_status = NReady, nd_eligibility = Eligible, nd_draining = False, nd_attributes = [], nd_drivers = []\<rparr>"

definition job_register_returns_eval_id :: "endpoint step list" where
  "job_register_returns_eval_id = [asked (Req_JobRegister (named ''redis'')) is_registered]"

definition eval_dequeue_returns_eval_variant :: "endpoint step list" where
  "eval_dequeue_returns_eval_variant = [asked (Req_EvalDequeue [''service'']) is_eval]"

definition job_register_enqueues_and_dequeue_returns_it :: "endpoint step list" where
  "job_register_enqueues_and_dequeue_returns_it =
     [asked (Req_JobRegister (named ''web'')) (\<lambda>r. r = JobRegistered (eval_id_for 0 ''web'')),
      assert_that (\<lambda>_. eval_id_for 0 ''web'' \<noteq> []),
      from_queue (\<lambda>e. ev_id e = eval_id_for 0 ''web'' \<and> ev_job_id e = ''web'' \<and> ev_status e = EPending)]"

definition dequeue_returns_highest_priority_first :: "endpoint step list" where
  "dequeue_returns_highest_priority_first =
     [asked (Req_JobRegister ((named ''low'')\<lparr>jb_priority := 30\<rparr>)) any,
      asked (Req_JobRegister ((named ''high'')\<lparr>jb_priority := 80\<rparr>)) any,
      from_queue (\<lambda>e. ev_job_id e = ''high''), from_queue (\<lambda>e. ev_job_id e = ''low'')]"

definition empty_dequeue_returns_none :: "endpoint step list" where
  "empty_dequeue_returns_none = [asked (Req_EvalDequeue [''service'']) (\<lambda>r. r = Resp_Eval None)]"

definition job_register_persists_job_to_state :: "endpoint step list" where
  "job_register_persists_job_to_state =
     [asked (Req_JobRegister (named ''redis'')) any,
      assert_that (\<lambda>ep. get_job (raft_state (ep_raft ep)) ''redis'' \<noteq> None)]"

definition node_register_persists_node_to_state :: "endpoint step list" where
  "node_register_persists_node_to_state =
     [asked (Req_NodeRegister (plain_node ''n1'')) (\<lambda>r. r = Resp_Ack),
      assert_that (\<lambda>ep. get_node (raft_state (ep_raft ep)) ''n1'' \<noteq> None)]"

definition node_register_unblocks_blocked_evals :: "endpoint step list" where
  "node_register_unblocks_blocked_evals =
     [unwrapped (on_queue (block (eval_for_id ''blocked1'' ''web''))) any,
      assert_that (\<lambda>ep. blocked_len (ep_queue ep) = 1), asked (Req_NodeRegister (plain_node ''n1'')) any,
      assert_that (\<lambda>ep. blocked_len (ep_queue ep) = 0), assert_that (\<lambda>ep. queue_len (ep_queue ep) = 1)]"

definition write_on_follower_returns_not_leader :: "endpoint step list" where
  "write_on_follower_returns_not_leader = [asked (Req_JobRegister (named ''x'')) is_not_leader]"

definition job_deregister_removes_job_and_enqueues_cleanup_eval :: "endpoint step list" where
  "job_deregister_removes_job_and_enqueues_cleanup_eval =
     [asked (Req_JobRegister (named ''web'')) any, unwrapped (on_queue (dequeue 0)) any,
      asked (Req_JobDeregister ''web'') any, assert_that (\<lambda>ep. get_job (raft_state (ep_raft ep)) ''web'' = None),
      from_queue (\<lambda>e. ev_job_id e = ''web'' \<and> ev_trigger e = JobDeregister)]"

lemma endpoint_tests:
  "list_all (passes (endpoint_new queue_new))
     [job_register_returns_eval_id, eval_dequeue_returns_eval_variant, job_register_enqueues_and_dequeue_returns_it,
      dequeue_returns_highest_priority_first, empty_dequeue_returns_none, job_register_persists_job_to_state,
      node_register_persists_node_to_state, node_register_unblocks_blocked_evals]"
  by code_simp

lemma consensus_tests:
  "passes (with_raft queue_new (raft_new ''f1'')) write_on_follower_returns_not_leader"
  "passes (with_raft queue_new (raft_bootstrap ''l1'')) job_deregister_removes_job_and_enqueues_cleanup_eval"
  by code_simp+

section \<open>The server and the client\<close>

definition test_config :: config where
  "test_config = (config_default Map.empty)\<lparr>cf_node_name := ''test-server'', cf_bind_addr := ''0.0.0.0:4647''\<rparr>"

definition client_test_config :: config where
  "client_test_config = (config_default Map.empty)\<lparr>cf_node_name := ''test-client''\<rparr>"

definition test_server_new :: "server step list" where
  "test_server_new =
     [assert_that (\<lambda>s. sv_status s = Initialized), assert_that (\<lambda>s. \<not> server_is_running s),
      assert_that (\<lambda>s. sv_config s = test_config)]"

definition test_server_config_accessor :: "server step list" where
  "test_server_config_accessor = [assert_that (\<lambda>s. cf_bind_addr (sv_config s) = ''0.0.0.0:4647'')]"

definition test_server_run :: "server step list" where
  "test_server_run =
     [assert_that (\<lambda>s. sv_status s = Initialized), unwrapped server_run any, assert_that server_is_running,
      assert_that (\<lambda>s. sv_status s = Running), \<lambda>s. Some (server_stop s)]"

definition test_server_run_idempotent :: "server step list" where
  "test_server_run_idempotent =
     [unwrapped server_run any, assert_that server_is_running, unwrapped server_run any,
      assert_that server_is_running, \<lambda>s. Some (server_stop s)]"

definition test_server_stop :: "server step list" where
  "test_server_stop =
     [unwrapped server_run any, assert_that server_is_running, \<lambda>s. Some (server_stop s),
      assert_that (\<lambda>s. sv_status s = Stopped), assert_that (\<lambda>s. \<not> server_is_running s)]"

definition test_server_stop_before_run :: "server step list" where
  "test_server_stop_before_run =
     [assert_that (\<lambda>s. sv_status s = Initialized), \<lambda>s. Some (server_stop s),
      assert_that (\<lambda>s. sv_status s = Stopped)]"

definition test_client_new :: "client step list" where
  "test_client_new =
     [assert_that (\<lambda>c. ca_status c = Initialized), assert_that (\<lambda>c. \<not> client_is_running c),
      assert_that (\<lambda>c. ca_config c = client_test_config)]"

definition test_client_config_accessor :: "client step list" where
  "test_client_config_accessor = [assert_that (\<lambda>c. cf_node_name (ca_config c) = ''test-client'')]"

definition test_client_run :: "client step list" where
  "test_client_run =
     [assert_that (\<lambda>c. ca_status c = Initialized), unwrapped client_run any, assert_that client_is_running,
      assert_that (\<lambda>c. ca_status c = Running)]"

definition test_client_run_idempotent :: "client step list" where
  "test_client_run_idempotent =
     [unwrapped client_run any, assert_that client_is_running, unwrapped client_run any, assert_that client_is_running]"

definition test_client_stop :: "client step list" where
  "test_client_stop =
     [unwrapped client_run any, assert_that client_is_running, \<lambda>c. Some (client_stop c),
      assert_that (\<lambda>c. ca_status c = Stopped), assert_that (\<lambda>c. \<not> client_is_running c)]"

definition test_client_stop_before_run :: "client step list" where
  "test_client_stop_before_run =
     [assert_that (\<lambda>c. ca_status c = Initialized), \<lambda>c. Some (client_stop c),
      assert_that (\<lambda>c. ca_status c = Stopped)]"

lemma lifecycle_tests:
  "list_all (passes (server_new test_config))
     [test_server_new, test_server_config_accessor, test_server_run, test_server_run_idempotent, test_server_stop,
      test_server_stop_before_run]"
  "list_all (passes (client_new client_test_config)) 
     [test_client_new, test_client_config_accessor, test_client_run, test_client_run_idempotent, test_client_stop,
      test_client_stop_before_run]"
  by code_simp+

text \<open>
  The worker in the background: once the requests are in, six of its steps place the allocation
  and acknowledge the evaluation, well before the test gives up waiting.
\<close>

definition worker_places_alloc_for_registered_job :: "system step list" where
  "worker_places_alloc_for_registered_job =
     [unwrapped (\<lambda>y. case server_run (sy_server y) of (r, s) \<Rightarrow> (r, \<lparr>sy_server = s, sy_task = W_Top\<rparr>)) any,
      \<lambda>y. Some (sys_step (Req_NodeRegister ((node_with ''n1'' 1000 1024)\<lparr>nd_name := ''n1''\<rparr>)) y),
      \<lambda>y. Some (sys_step (Req_JobRegister (job_with ''redis'' ''web'' 100 128)) y),
      \<lambda>y. case worker_run no_crates (\<lambda>_. (\<lambda>_. 0, 0)) 0 6 (sy_task y, sv_raft (sy_server y), sv_queue (sy_server y)) of
            (pc, r, q) \<Rightarrow> Some \<lparr>sy_server = (sy_server y)\<lparr>sv_raft := r, sv_queue := q\<rparr>, sy_task = pc\<rparr>,
      assert_that (\<lambda>y. list_allocs (raft_state (sv_raft (sy_server y))) \<noteq> []),
      \<lambda>y. Some (y\<lparr>sy_server := server_stop (sy_server y)\<rparr>),
      assert_that (\<lambda>y. in_flight_len (sv_queue (sy_server y)) = 0)]"

lemma worker_test: "passes \<lparr>sy_server = server_new test_config, sy_task = W_Exit\<rparr> worker_places_alloc_for_registered_job"
proof -
  obtain s where run: "server_run (server_new test_config) = (Inr (), s)"
    by (simp add: server_run_def)
  then have s: "s = snd (server_run (server_new test_config))" by simp
  define y where "y = sys_step (Req_JobRegister (job_with ''redis'' ''web'' 100 128))
    (sys_step (Req_NodeRegister ((node_with ''n1'' 1000 1024)\<lparr>nd_name := ''n1''\<rparr>))
       \<lparr>sy_server = s, sy_task = W_Top\<rparr>)"
  let ?r = "sv_raft (sy_server y)" and ?q = "sv_queue (sy_server y)"
  let ?e = "eval_for_id (eval_id_for 0 ''redis'') ''redis''"
  let ?as = "pl_allocs (process_eval no_crates ?e (raft_state ?r))"
  let ?q' = "snd (ack (ev_id ?e) (snd (dequeue 0 ?q)))" and ?r' = "snd (propose_all ?as ?r)"
  have facts: "sy_task y = W_Top" "is_leader ?r" "\<not> q_poisoned ?q" "fst (dequeue 0 ?q) = Inr (Some ?e)"
    "fst (propose_all ?as ?r) = Inr ()" "?as \<noteq> []" "q_in_flight ?q = []" "list_allocs (raft_state ?r') \<noteq> []" "in_flight_len ?q' = 0"
    unfolding y_def s by code_simp+
  have "worker_run no_crates (\<lambda>_. (\<lambda>_. 0, 0)) 0 6 (W_Top, ?r, ?q) = (W_Top, ?r', ?q')"
    by (rule worker_run_places) (use facts in \<open>simp_all add: prod_eq_iff in_time_def\<close>)
  with facts(1,8,9) show ?thesis
    by (simp add: worker_places_alloc_for_registered_job_def passes_def unwrapped_def run flip: y_def)
      (simp add: assert_that_def server_stop_def)
qed

section \<open>The in-process cluster\<close>

definition test_cluster_builder_default :: "cluster_handle step list" where
  "test_cluster_builder_default =
     [assert_that (\<lambda>h. server_is_running (ch_server h)), assert_that (\<lambda>h. queue_is_empty (ch_queue h)),
      unwrapped (cluster_register_job 0 0 ''test-job'' 50) (\<lambda>i. i \<noteq> []), assert_that (\<lambda>h. queue_len (ch_queue h) = 1),
      \<lambda>h. case cluster_dequeue_eval 0 h of
            (Some e, h') \<Rightarrow> if ev_job_id e = ''test-job'' \<and> ev_priority e = 50 then Some h' else None
          | (None, h') \<Rightarrow> None,
      \<lambda>h. Some (cluster_shutdown h), assert_that (\<lambda>h. \<not> server_is_running (ch_server h))]"

definition integration_config :: config where
  "integration_config =
     (config_default Map.empty)\<lparr>cf_node_name := ''integration-node'', cf_bind_addr := ''127.0.0.1:9999''\<rparr>"

definition test_cluster_builder_custom_config :: "cluster_handle step list" where
  "test_cluster_builder_custom_config =
     [assert_that (\<lambda>h. cf_node_name (sv_config (ch_server h)) = ''integration-node''),
      assert_that (\<lambda>h. cf_bind_addr (sv_config (ch_server h)) = ''127.0.0.1:9999''), \<lambda>h. Some (cluster_shutdown h)]"

definition passes_built :: "cluster_builder \<Rightarrow> cluster_handle step list \<Rightarrow> bool" where
  "passes_built b ts = (case cluster_build b of Inl _ \<Rightarrow> False | Inr h \<Rightarrow> passes h ts)"

lemma cluster_tests:
  "passes_built (builder_default Map.empty) test_cluster_builder_default"
  "passes_built (builder_client_config integration_config (builder_server_config integration_config
     (builder_new Map.empty))) test_cluster_builder_custom_config"
  by code_simp+
section \<open>The wire\<close>

text \<open>
  What a client on one connection gets, and the endpoint afterwards: the requests arrive as
  frames, and the answers are read back from what the server has written. The codecs are those
  of the serialiser, which has to round-trip the messages of the test.
\<close>

fun read_all :: "(string \<Rightarrow> 'm result) \<Rightarrow> nat \<Rightarrow> conn \<Rightarrow> 'm list option" where
  "read_all dec 0 c = Some []"
| "read_all dec (Suc n) c =
     (case read_frame dec c of
        (Inr (Some m), c') \<Rightarrow> map_option ((#) m) (read_all dec n c')
      | _ \<Rightarrow> None)"

definition over_wire ::
    "(request \<Rightarrow> string result) \<Rightarrow> (string \<Rightarrow> request result) \<Rightarrow> (response \<Rightarrow> string result) \<Rightarrow> (string \<Rightarrow> response result)
       \<Rightarrow> request list \<Rightarrow> endpoint \<Rightarrow> response list option \<times> endpoint" where
  "over_wire enc_q dec_q enc_r dec_r reqs ep =
     (case serve_conn dec_q enc_r (\<lambda>_. (0, 0)) 0 (plain_conn (frames enc_q reqs)) ep of
        (c, ep') \<Rightarrow> (read_all dec_r (length reqs) (plain_conn (cn_out c)), ep'))"

lemma read_all_frames:
  "\<lbrakk>\<forall>m\<in>set ms. codec_for enc dec m; cn_in c = frames enc ms\<rbrakk> \<Longrightarrow> read_all dec (length ms) c = Some ms"
proof (induction ms arbitrary: c)
  case Nil
  then show ?case by simp
next
  case (Cons m ms)
  from Cons.prems(1) obtain bytes where b: "enc m = Inr bytes" "dec bytes = Inr m" "length bytes \<le> MAX_FRAME"
    by (auto simp: codec_for_def)
  then have inp: "cn_in c = frame bytes @ frames enc ms" using Cons.prems(2) by (simp add: frames_def)
  have "read_all dec (length ms) (c\<lparr>cn_in := frames enc ms\<rparr>) = Some ms" using Cons by simp
  then show ?case using read_frame_ok [OF inp b(3), of dec] b(2) by simp
qed

text \<open>Over the wire the client gets the answers of the handler, in order.\<close>

lemma over_wire_handles:
  assumes "\<forall>r\<in>set reqs. codec_for enc_q dec_q r" and "handle_all (\<lambda>_. (0, 0)) 0 reqs ep = Some (resps, ep')"
    and "\<forall>r\<in>set resps. codec_for enc_r dec_r r"
  shows "over_wire enc_q dec_q enc_r dec_r reqs ep = (Some resps, ep')"
proof -
  have len: "length resps = length reqs"
    using assms(2) by (rule handle_all_length)
  from assms(3) have enc: "\<forall>r\<in>set resps. \<exists>bytes. enc_r r = Inr bytes \<and> length bytes \<le> MAX_FRAME"
    by (auto simp: codec_for_def)
  have "read_all dec_r (length resps) (plain_conn (frames enc_r resps)) = Some resps"
    using assms(3) by (rule read_all_frames) (simp add: plain_conn_def)
  with serve_conn_all [OF assms(1,2) enc, of "plain_conn (frames enc_q reqs)"] len show ?thesis
    by (simp add: over_wire_def plain_conn_def)
qed

definition frame_roundtrips_a_request :: "(request \<Rightarrow> string result) \<Rightarrow> (string \<Rightarrow> request result) \<Rightarrow> bool" where
  "frame_roundtrips_a_request enc dec \<longleftrightarrow>
     (case write_frame enc (Req_JobDeregister ''x'') (plain_conn []) of
        (Inl _, _) \<Rightarrow> False
      | (Inr _, a) \<Rightarrow> fst (read_frame dec (plain_conn (cn_out a))) = Inr (Some (Req_JobDeregister ''x'')))"

definition read_frame_returns_none_on_clean_close :: "(string \<Rightarrow> request result) \<Rightarrow> bool" where
  "read_frame_returns_none_on_clean_close dec \<longleftrightarrow> fst (read_frame dec (plain_conn [])) = Inr None"

lemma frame_tests:
  "codec_for enc dec (Req_JobDeregister ''x'') \<Longrightarrow> frame_roundtrips_a_request enc dec"
  "read_frame_returns_none_on_clean_close dec"
  using frame_roundtrip [of enc dec "Req_JobDeregister ''x''" "plain_conn []"] read_frame_eof [of "plain_conn []" dec]
  by (auto simp: frame_roundtrips_a_request_def read_frame_returns_none_on_clean_close_def plain_conn_def)

text \<open>The requests of a test, what its answers have to be, and what the server's state has to show.\<close>

record wire_test =
  wt_requests :: "request list"
  wt_answers :: "(response \<Rightarrow> bool) list"
  wt_state :: "state_store \<Rightarrow> bool"

definition register_job_over_wire_lands_in_fsm :: wire_test where
  "register_job_over_wire_lands_in_fsm =
     \<lparr>wt_requests = [Req_JobRegister (named ''redis'')], wt_answers = [is_registered],
      wt_state = (\<lambda>s. get_job s ''redis'' \<noteq> None)\<rparr>"

fun is_some_eval :: "response \<Rightarrow> bool" where
  "is_some_eval (Resp_Eval (Some _)) = True"
| "is_some_eval _ = False"

definition multiple_requests_share_one_connection :: wire_test where
  "multiple_requests_share_one_connection =
     \<lparr>wt_requests = [Req_NodeRegister (plain_node ''n1''), Req_JobRegister (named ''web''), Req_EvalDequeue [''service'']],
      wt_answers = [\<lambda>r. r = Resp_Ack, is_registered, is_some_eval], wt_state = any\<rparr>"

definition write_on_follower_returns_not_leader_over_wire :: wire_test where
  "write_on_follower_returns_not_leader_over_wire =
     \<lparr>wt_requests = [Req_JobRegister (named ''x'')], wt_answers = [is_not_leader], wt_state = any\<rparr>"

definition wire_passes ::
    "(request \<Rightarrow> string result) \<Rightarrow> (string \<Rightarrow> request result) \<Rightarrow> (response \<Rightarrow> string result) \<Rightarrow> (string \<Rightarrow> response result)
       \<Rightarrow> endpoint \<Rightarrow> wire_test \<Rightarrow> bool" where
  "wire_passes enc_q dec_q enc_r dec_r ep t \<longleftrightarrow>
     (case over_wire enc_q dec_q enc_r dec_r (wt_requests t) ep of
        (None, _) \<Rightarrow> False
      | (Some resps, ep') \<Rightarrow> list_all2 (\<lambda>P r. P r) (wt_answers t) resps \<and> wt_state t (raft_state (ep_raft ep')))"

text \<open>The answers the handler gives; the codec has to carry these and the requests.\<close>

definition wire_ok :: "endpoint \<Rightarrow> wire_test \<Rightarrow> bool" where
  "wire_ok ep t =
     (case handle_all (\<lambda>_. (0, 0)) 0 (wt_requests t) ep of
        None \<Rightarrow> False
      | Some (resps, ep') \<Rightarrow> list_all2 (\<lambda>P r. P r) (wt_answers t) resps \<and> wt_state t (raft_state (ep_raft ep')))"

lemma wire_tests:
  "wire_ok (endpoint_new queue_new) register_job_over_wire_lands_in_fsm"
  "wire_ok (endpoint_new queue_new) multiple_requests_share_one_connection"
  "wire_ok (with_raft queue_new (raft_new ''f1'')) write_on_follower_returns_not_leader_over_wire"
  by code_simp+

lemma wire_ok_passes:
  assumes "wire_ok ep t" and "\<forall>r\<in>set (wt_requests t). codec_for enc_q dec_q r"
    and "\<And>resps ep'. handle_all (\<lambda>_. (0, 0)) 0 (wt_requests t) ep = Some (resps, ep') \<Longrightarrow>
           \<forall>r\<in>set resps. codec_for enc_r dec_r r"
  shows "wire_passes enc_q dec_q enc_r dec_r ep t"
  using assms over_wire_handles [OF assms(2)]
  by (fastforce simp: wire_ok_def wire_passes_def split: option.splits prod.splits)

end
