(* ===== verification/Conformance_State.thy ===== *)
theory Conformance_State
  imports Conformance_Scheduler Raft
begin

text \<open>
  The unit tests of \<open>src/src/state.rs\<close>, \<open>fsm.rs\<close> and \<open>raft.rs\<close>, run on the model. The test that
  writes the store to a file is an instance of the round trip of the serialised store.
\<close>

section \<open>The state store\<close>

definition store_job :: "string \<Rightarrow> job" where
  "store_job name = job_default\<lparr>jb_name := name\<rparr>"

definition store_node :: "string \<Rightarrow> node" where
  "store_node i =
     \<lparr>nd_id = i, nd_name = i, nd_datacenter = ''dc1'', nd_class = [], nd_resources = resources_default,
      nd_status = NReady, nd_eligibility = Eligible, nd_draining = False, nd_attributes = [], nd_drivers = []\<rparr>"

definition store_alloc :: "string \<Rightarrow> string \<Rightarrow> string \<Rightarrow> allocation" where
  "store_alloc i nid jid =
     \<lparr>al_id = i, al_eval_id = ''e1'', al_node_id = nid, al_job_id = jid, al_task_group = ''g'', al_desired_status = DRun,
      al_client_status = CRunning, al_resources = resources_default\<rparr>"

definition store_eval :: "string \<Rightarrow> evaluation" where
  "store_eval i =
     \<lparr>ev_id = i, ev_job_id = ''redis'', ev_priority = 50, ev_trigger = JobRegister, ev_status = EPending\<rparr>"

definition new_store_has_no_jobs :: "state_store step list" where
  "new_store_has_no_jobs = [assert_that (\<lambda>s. list_jobs s = [])]"

definition upsert_then_get_job :: "state_store step list" where
  "upsert_then_get_job =
     [st_job (store_job ''redis''), assert_that (\<lambda>s. map_option jb_name (get_job s ''redis'') = Some ''redis'')]"

definition get_missing_job_is_none :: "state_store step list" where
  "get_missing_job_is_none = [assert_that (\<lambda>s. get_job s ''nope'' = None)]"

definition upsert_replaces_job :: "state_store step list" where
  "upsert_replaces_job =
     [st_job (store_job ''redis''), st_job (store_job ''redis''), assert_that (\<lambda>s. length (list_jobs s) = 1)]"

definition delete_job_removes_it :: "state_store step list" where
  "delete_job_removes_it =
     [st_job (store_job ''redis''), unwrapped (delete_job ''redis'') any, assert_that (\<lambda>s. get_job s ''redis'' = None)]"

definition delete_missing_job_errors :: "state_store step list" where
  "delete_missing_job_errors = [unwrapped_err (delete_job ''nope'')]"

definition upsert_then_get_node :: "state_store step list" where
  "upsert_then_get_node =
     [st_node (store_node ''n1''), assert_that (\<lambda>s. map_option nd_id (get_node s ''n1'') = Some ''n1'')]"

definition list_nodes_reflects_inserts :: "state_store step list" where
  "list_nodes_reflects_inserts =
     [st_node (store_node ''n1''), st_node (store_node ''n2''), assert_that (\<lambda>s. length (list_nodes s) = 2)]"

definition allocs_filtered_by_node :: "state_store step list" where
  "allocs_filtered_by_node =
     [st_alloc (store_alloc ''a1'' ''n1'' ''redis''), st_alloc (store_alloc ''a2'' ''n2'' ''redis''),
      assert_that (\<lambda>s. length (allocs_by_node s ''n1'') = 1)]"

definition allocs_filtered_by_job :: "state_store step list" where
  "allocs_filtered_by_job =
     [st_alloc (store_alloc ''a1'' ''n1'' ''redis''), st_alloc (store_alloc ''a2'' ''n1'' ''web''),
      assert_that (\<lambda>s. length (allocs_by_job s ''redis'') = 1)]"

definition upsert_then_get_eval :: "state_store step list" where
  "upsert_then_get_eval =
     [unwrapped (upsert_eval (store_eval ''ev1'')) any,
      assert_that (\<lambda>s. map_option ev_id (get_eval s ''ev1'') = Some ''ev1'')]"

lemma store_tests:
  "list_all (passes state_new)
     [new_store_has_no_jobs, upsert_then_get_job, get_missing_job_is_none, upsert_replaces_job, delete_job_removes_it,
      delete_missing_job_errors, upsert_then_get_node, list_nodes_reflects_inserts, allocs_filtered_by_node,
      allocs_filtered_by_job, upsert_then_get_eval]"
  by code_simp

section \<open>The state machine\<close>

definition new_fsm_state_is_empty :: "fsm step list" where
  "new_fsm_state_is_empty = [assert_that (\<lambda>f. list_jobs (fsm_state f) = [])]"

definition apply_upsert_job_makes_it_readable :: "fsm step list" where
  "apply_upsert_job_makes_it_readable =
     [unwrapped (fsm_apply (UpsertJob (store_job ''redis''))) any,
      assert_that (\<lambda>f. get_job (fsm_state f) ''redis'' \<noteq> None)]"

definition apply_deregister_removes_job :: "fsm step list" where
  "apply_deregister_removes_job =
     [unwrapped (fsm_apply (UpsertJob (store_job ''redis''))) any,
      unwrapped (fsm_apply (DeregisterJob ''redis'')) any,
      assert_that (\<lambda>f. get_job (fsm_state f) ''redis'' = None)]"

lemma fsm_tests:
  "list_all (passes fsm_new) [new_fsm_state_is_empty, apply_upsert_job_makes_it_readable, apply_deregister_removes_job]"
  by code_simp

section \<open>The consensus node\<close>

definition fresh_node_is_not_leader :: "raft_node step list" where
  "fresh_node_is_not_leader = [assert_that (\<lambda>r. \<not> is_leader r)]"

definition fresh_node_has_no_leader_addr :: "raft_node step list" where
  "fresh_node_has_no_leader_addr = [assert_that (\<lambda>r. leader_addr r = None)]"

definition propose_on_follower_errors :: "raft_node step list" where
  "propose_on_follower_errors = [unwrapped_err (propose (UpsertJob (store_job ''redis'')))]"

definition bootstrap_node_is_leader :: "raft_node step list" where
  "bootstrap_node_is_leader = [assert_that is_leader]"

definition propose_on_leader_commits_and_applies_to_state :: "raft_node step list" where
  "propose_on_leader_commits_and_applies_to_state =
     [unwrapped (propose (UpsertJob (store_job ''redis''))) any,
      assert_that (\<lambda>r. get_job (raft_state r) ''redis'' \<noteq> None), assert_that (\<lambda>r. committed_index r = 1)]"

definition rejected_proposal_leaves_no_log_entry :: "raft_node step list" where
  "rejected_proposal_leaves_no_log_entry =
     [unwrapped_err (propose (DeregisterJob ''ghost'')), assert_that (\<lambda>r. committed_index r = 0)]"

definition each_proposal_advances_the_commit_index :: "raft_node step list" where
  "each_proposal_advances_the_commit_index =
     [unwrapped (propose (UpsertJob (store_job ''a''))) any, unwrapped (propose (UpsertJob (store_job ''b''))) any,
      assert_that (\<lambda>r. committed_index r = 2), assert_that (\<lambda>r. get_job (raft_state r) ''a'' \<noteq> None),
      assert_that (\<lambda>r. get_job (raft_state r) ''b'' \<noteq> None)]"

lemma raft_tests:
  "list_all (passes (raft_new ''n1''))
     [fresh_node_is_not_leader, fresh_node_has_no_leader_addr, propose_on_follower_errors]"
  "list_all (passes (raft_bootstrap ''n1''))
     [bootstrap_node_is_leader, propose_on_leader_commits_and_applies_to_state, rejected_proposal_leaves_no_log_entry,
      each_proposal_advances_the_commit_index]"
  by code_simp+

end
