(* ===== verification/Api.thy ===== *)
theory Api
  imports State
begin

text \<open>
  \<open>src/src/api.rs\<close>: the HTTP API, a routing function over a snapshot of the cluster state. The
  JSON serialiser of \<open>serde_json\<close> is a parameter: serialising one of the values the handlers
  answer with, which may fail, and displaying a JSON value.
\<close>

section \<open>Requests and responses\<close>

datatype http_method = Get | Post | Put | Delete

record api_request =
  rq_method :: http_method
  rq_path :: string
  rq_body :: "string option"

record api_response =
  rs_status :: u16
  rs_body :: string

text \<open>The values that handlers serialise.\<close>

datatype body =
    Jobs "job list"
  | OneJob job
  | Evals "evaluation list"
  | Allocs "allocation list"
  | Nodes "node list"
  | Value json

record serde =
  to_string :: "body \<Rightarrow> string option"
  display_value :: "json \<Rightarrow> string"

definition body_or_empty :: "serde \<Rightarrow> body \<Rightarrow> string" where
  "body_or_empty X b = (case to_string X b of None \<Rightarrow> ''{}'' | Some s \<Rightarrow> s)"

definition response_ok :: "serde \<Rightarrow> body \<Rightarrow> api_response" where
  "response_ok X b = \<lparr>rs_status = 200, rs_body = body_or_empty X b\<rparr>"

definition response_created :: "serde \<Rightarrow> body \<Rightarrow> api_response" where
  "response_created X b = \<lparr>rs_status = 201, rs_body = body_or_empty X b\<rparr>"

definition error_body :: "serde \<Rightarrow> string \<Rightarrow> string" where
  "error_body X msg = display_value X (Object [(''error'', String msg)])"

definition bad_request :: "serde \<Rightarrow> string \<Rightarrow> api_response" where
  "bad_request X msg = \<lparr>rs_status = 400, rs_body = error_body X msg\<rparr>"

definition not_found :: "serde \<Rightarrow> api_response" where
  "not_found X = \<lparr>rs_status = 404, rs_body = error_body X ''not found''\<rparr>"

definition internal_error :: "serde \<Rightarrow> string \<Rightarrow> api_response" where
  "internal_error X msg = \<lparr>rs_status = 500, rs_body = error_body X msg\<rparr>"

section \<open>Handlers\<close>

record http_api =
  api_state :: "state_store option"

definition api_new :: "state_store option \<Rightarrow> http_api" where
  "api_new st = \<lparr>api_state = st\<rparr>"

definition api_default :: http_api where
  "api_default = api_new None"

text \<open>The package version of \<open>src/Cargo.toml\<close>.\<close>

definition CARGO_PKG_VERSION :: string where
  "CARGO_PKG_VERSION = ''0.1.0''"

definition handle_list_jobs :: "serde \<Rightarrow> http_api \<Rightarrow> api_response result" where
  "handle_list_jobs X h =
     (case api_state h of
        Some st \<Rightarrow> Inr (response_ok X (Jobs (list_jobs st)))
      | None \<Rightarrow> Inr (response_ok X (Value (Array []))))"

definition handle_get_job :: "serde \<Rightarrow> http_api \<Rightarrow> string \<Rightarrow> api_response result" where
  "handle_get_job X h name =
     (if name = [] then Inr (bad_request X ''job name is required'')
      else case api_state h of
             Some st \<Rightarrow>
               (case get_job st name of
                  Some job \<Rightarrow> Inr (response_ok X (OneJob job))
                | None \<Rightarrow> Inr (not_found X))
           | None \<Rightarrow> Inr (not_found X))"

definition handle_list_evals :: "serde \<Rightarrow> http_api \<Rightarrow> api_response result" where
  "handle_list_evals X h =
     (case api_state h of
        Some st \<Rightarrow> Inr (response_ok X (Evals (list_evals st)))
      | None \<Rightarrow> Inr (response_ok X (Value (Array []))))"

definition handle_list_allocs :: "serde \<Rightarrow> http_api \<Rightarrow> api_response result" where
  "handle_list_allocs X h =
     (case api_state h of
        Some st \<Rightarrow> Inr (response_ok X (Allocs (list_allocs st)))
      | None \<Rightarrow> Inr (response_ok X (Value (Array []))))"

definition handle_list_nodes :: "serde \<Rightarrow> http_api \<Rightarrow> api_response result" where
  "handle_list_nodes X h =
     (case api_state h of
        Some st \<Rightarrow> Inr (response_ok X (Nodes (list_nodes st)))
      | None \<Rightarrow> Inr (response_ok X (Value (Array []))))"

definition handle_agent_health :: "serde \<Rightarrow> api_response result" where
  "handle_agent_health X =
     Inr (response_ok X (Value (Object [(''status'', String ''running''), (''version'', String CARGO_PKG_VERSION)])))"

definition handle_agent_members :: "serde \<Rightarrow> api_response result" where
  "handle_agent_members X =
     Inr (response_ok X (Value (Object [(''members'', Array []), (''serf'', String ''alive'')])))"

definition handle_agent_self :: "serde \<Rightarrow> api_response result" where
  "handle_agent_self X =
     Inr (response_ok X (Value (Object [(''config'', Object []), (''version'', String CARGO_PKG_VERSION)])))"

definition handle_status_leader :: "serde \<Rightarrow> api_response result" where
  "handle_status_leader X = Inr (response_ok X (Value (Object [(''leader'', String [])])))"

definition handle_status_peers :: "serde \<Rightarrow> api_response result" where
  "handle_status_peers X = Inr (response_ok X (Value (Array [])))"

definition handle_operator_raft_config :: "serde \<Rightarrow> api_response result" where
  "handle_operator_raft_config X =
     Inr (response_ok X (Value (Object [(''servers'', Array []), (''index'', Number ''0'')])))"

definition api_handle :: "serde \<Rightarrow> http_api \<Rightarrow> api_request \<Rightarrow> api_response result" where
  "api_handle X h request =
     (let path = rq_path request
      in if rq_method request \<noteq> Get then Inr (not_found X)
         else if path = ''/v1/jobs'' then handle_list_jobs X h
         else if prefix ''/v1/job/'' path
         then handle_get_job X h (trim_start_matches ''/v1/job/'' path)
         else if path = ''/v1/evaluations'' then handle_list_evals X h
         else if path = ''/v1/allocations'' then handle_list_allocs X h
         else if path = ''/v1/nodes'' then handle_list_nodes X h
         else if path = ''/v1/agent'' then handle_agent_health X
         else if path = ''/v1/agent/members'' then handle_agent_members X
         else if path = ''/v1/agent/self'' then handle_agent_self X
         else if path = ''/v1/status/leader'' then handle_status_leader X
         else if path = ''/v1/status/peers'' then handle_status_peers X
         else if path = ''/v1/operator/raft/configuration'' then handle_operator_raft_config X
         else Inr (not_found X))"

section \<open>What the API answers\<close>

lemmas handler_defs =
  handle_list_jobs_def handle_get_job_def handle_list_evals_def handle_list_allocs_def
  handle_list_nodes_def handle_agent_health_def handle_agent_members_def handle_agent_self_def
  handle_status_leader_def handle_status_peers_def handle_operator_raft_config_def

lemmas response_defs = response_ok_def bad_request_def not_found_def

abbreviation get_path :: "string \<Rightarrow> api_request" where
  "get_path p \<equiv> \<lparr>rq_method = Get, rq_path = p, rq_body = None\<rparr>"

lemma trim_prefix:
  assumes "pat \<noteq> []"
  shows "trim_start_matches pat (pat @ s) = trim_start_matches pat s"
  using assms by (simp add: trim_start_matches_def strip.simps [of "[pat]" "pat @ s"])

lemma trim_nothing: "\<not> prefix pat s \<Longrightarrow> trim_start_matches pat s = s"
  unfolding trim_start_matches_def by (rule strip_id) simp

lemma get_job_path:
  "api_handle X h (get_path (''/v1/job/'' @ name)) =
     handle_get_job X h (trim_start_matches ''/v1/job/'' name)"
proof -
  have "trim_start_matches ''/v1/job/'' (''/v1/job/'' @ name) = trim_start_matches ''/v1/job/'' name"
    by (rule trim_prefix) simp
  then show ?thesis by (simp add: api_handle_def)
qed

text \<open>The API always answers, with 200, 400 or 404, and only a \<open>GET\<close> is ever answered with
  anything but 404. Looking up a job by a name that does not itself begin with the route answers
  200 with that job exactly when the store holds it, 400 for the empty name and 404 otherwise.\<close>

theorem api_job_lookup:
  "(\<exists>r. api_handle X h req = Inr r \<and> rs_status r \<in> {200, 400, 404} \<and>
        (rq_method req \<noteq> Get \<longrightarrow> r = not_found X)) \<and>
   (\<not> prefix ''/v1/job/'' name \<longrightarrow>
     api_handle X (api_new (Some st)) (get_path (''/v1/job/'' @ name)) =
       Inr (if name = [] then bad_request X ''job name is required''
            else case get_job st name of
                   Some job \<Rightarrow> response_ok X (OneJob job)
                 | None \<Rightarrow> not_found X))"
proof (intro conjI impI)
  show "\<exists>r. api_handle X h req = Inr r \<and> rs_status r \<in> {200, 400, 404} \<and>
       (rq_method req \<noteq> Get \<longrightarrow> r = not_found X)"
    by (simp add: api_handle_def handler_defs response_defs Let_def split: option.split)
next
  assume "\<not> prefix ''/v1/job/'' name"
  then show "api_handle X (api_new (Some st)) (get_path (''/v1/job/'' @ name)) =
       Inr (if name = [] then bad_request X ''job name is required''
            else case get_job st name of
                   Some job \<Rightarrow> response_ok X (OneJob job)
                 | None \<Rightarrow> not_found X)"
    unfolding get_job_path by (simp add: trim_nothing handle_get_job_def api_new_def split: option.split)
qed

lemma api_job_lookup_witness:
  "api_handle \<lparr>to_string = (\<lambda>_. None), display_value = (\<lambda>_. [])\<rparr>
     (api_new (Some (state_new\<lparr>st_jobs := [(''shop'', sample_job)]\<rparr>))) (get_path (''/v1/job/'' @ ''shop''))
   = Inr \<lparr>rs_status = 200, rs_body = ''{}''\<rparr>"
  by (subst api_job_lookup [THEN conjunct2, rule_format]) (simp_all add: get_job_def response_defs body_or_empty_def)

text \<open>The route prefix is stripped as often as it occurs: a job whose name begins with the route is
  never found under its own path, which is answered for another name instead.\<close>

theorem repeated_prefix_is_stripped:
  "api_handle X h (get_path (''/v1/job/'' @ ''/v1/job/'' @ name)) =
     api_handle X h (get_path (''/v1/job/'' @ name))"
proof -
  have "trim_start_matches ''/v1/job/'' (''/v1/job/'' @ name) = trim_start_matches ''/v1/job/'' name"
    by (rule trim_prefix) simp
  then show ?thesis by (simp only: get_job_path)
qed

end
