(* ===== verification/Membership.thy ===== *)
theory Membership
  imports Nomad_Error
begin

text \<open>
  \<open>src/src/membership.rs\<close>: the gossip membership. A member is its roster and its own incarnation;
  what it sends is returned as a list of destinations and datagrams. The JSON codec and the
  success of a send are arguments. The network of several members is a step relation in which a
  message that was once sent may be delivered to anyone, any number of times and in any order, or
  never.
\<close>

section \<open>Members, entries and messages\<close>

datatype member_status = Alive | Leaving | Left | MFailed

record member =
  mb_name :: string
  mb_addr :: string
  mb_status :: member_status

record entry =
  en_member :: member
  en_incarnation :: u64

record wire =
  wr_name :: string
  wr_addr :: string
  wr_status :: member_status
  wr_incarnation :: u64

datatype msg = PushPull "wire list" bool | Gossip "wire list"

type_synonym roster = "(string, entry) hashmap"

record gossip =
  gm_name :: string
  gm_addr :: string
  gm_roster :: roster
  gm_incarnation :: u64

definition wire_entry :: "wire \<Rightarrow> entry" where
  "wire_entry w = \<lparr>en_member = \<lparr>mb_name = wr_name w, mb_addr = wr_addr w, mb_status = wr_status w\<rparr>,
                   en_incarnation = wr_incarnation w\<rparr>"

definition merge1 :: "string \<Rightarrow> wire \<Rightarrow> roster \<Rightarrow> roster" where
  "merge1 self_name w roster =
     (if wr_name w = self_name then roster
      else if (case hm_get roster (wr_name w) of None \<Rightarrow> True | Some e \<Rightarrow> en_incarnation e < wr_incarnation w)
      then hm_insert (wr_name w) (wire_entry w) roster
      else roster)"

definition merge :: "string \<Rightarrow> wire list \<Rightarrow> roster \<Rightarrow> roster" where
  "merge self_name peers roster = fold (merge1 self_name) peers roster"

definition entry_wire :: "entry \<Rightarrow> wire" where
  "entry_wire e = \<lparr>wr_name = mb_name (en_member e), wr_addr = mb_addr (en_member e),
                   wr_status = mb_status (en_member e), wr_incarnation = en_incarnation e\<rparr>"

definition snapshot :: "roster \<Rightarrow> wire list" where
  "snapshot roster = map entry_wire (hm_values roster)"

section \<open>Operations\<close>

text \<open>One received message: the new roster and the reply.\<close>

fun receive :: "string \<Rightarrow> msg \<Rightarrow> roster \<Rightarrow> msg option \<times> roster" where
  "receive name (PushPull peers reply) roster =
     (let r = merge name peers roster
      in (if reply then Some (PushPull (snapshot r) False) else None, r))"
| "receive name (Gossip peers) roster = (None, merge name peers roster)"

text \<open>One turn of \<open>recv_loop\<close> on a datagram from \<open>src\<close>; a datagram that does not decode is skipped.\<close>

definition recv_turn ::
    "(string \<Rightarrow> msg result) \<Rightarrow> (msg \<Rightarrow> string result) \<Rightarrow> string \<Rightarrow> string \<Rightarrow> gossip
       \<Rightarrow> (string \<times> string) list \<times> gossip" where
  "recv_turn dec enc src datagram g =
     (case dec datagram of
        Inl _ \<Rightarrow> ([], g)
      | Inr m \<Rightarrow>
          (case receive (gm_name g) m (gm_roster g) of
             (None, r) \<Rightarrow> ([], g\<lparr>gm_roster := r\<rparr>)
           | (Some reply, r) \<Rightarrow>
               ([(src, case enc reply of Inl _ \<Rightarrow> [] | Inr out \<Rightarrow> out)], g\<lparr>gm_roster := r\<rparr>)))"

definition start :: "string \<Rightarrow> string \<Rightarrow> gossip" where
  "start name addr =
     \<lparr>gm_name = name, gm_addr = addr,
      gm_roster = hm_insert name \<lparr>en_member = \<lparr>mb_name = name, mb_addr = addr, mb_status = Alive\<rparr>,
                                  en_incarnation = 0\<rparr> [],
      gm_incarnation = 0\<rparr>"

definition join_msg :: "gossip \<Rightarrow> msg" where
  "join_msg g = PushPull (snapshot (gm_roster g)) True"

text \<open>\<open>send_ok\<close> says which addresses a send succeeds for. The wait for the roster to grow only delays.\<close>

definition join :: "(msg \<Rightarrow> string result) \<Rightarrow> (string \<Rightarrow> bool) \<Rightarrow> string list \<Rightarrow> gossip
    \<Rightarrow> nat result \<times> (string \<times> string) list" where
  "join enc send_ok addrs g =
     (case enc (join_msg g) of
        Inl e \<Rightarrow> (Inl e, [])
      | Inr payload \<Rightarrow>
          let reached = filter send_ok addrs
          in (if length reached = 0 \<and> addrs \<noteq> []
              then Inl (Runtime ''membership join: no peers reachable'')
              else Inr (length reached),
              map (\<lambda>a. (a, payload)) reached))"

definition members :: "gossip \<Rightarrow> member list" where
  "members g = map en_member (hm_values (gm_roster g))"

text \<open>The state change of \<open>leave\<close>, and the datagrams it sends.\<close>

definition leave_state :: "gossip \<Rightarrow> gossip" where
  "leave_state g =
     (let inc = gm_incarnation g + 1
      in g\<lparr>gm_incarnation := inc,
           gm_roster :=
             (case hm_get (gm_roster g) (gm_name g) of
                None \<Rightarrow> gm_roster g
              | Some e \<Rightarrow> hm_insert (gm_name g)
                           (e\<lparr>en_member := (en_member e)\<lparr>mb_status := Left\<rparr>, en_incarnation := inc\<rparr>)
                           (gm_roster g))\<rparr>)"

definition leave_msg :: "gossip \<Rightarrow> msg" where
  "leave_msg g = Gossip (snapshot (gm_roster g))"

definition leave :: "(msg \<Rightarrow> string result) \<Rightarrow> gossip \<Rightarrow> unit result \<times> (string \<times> string) list \<times> gossip" where
  "leave enc g =
     (let g1 = leave_state g;
          targets = map (\<lambda>e. mb_addr (en_member e))
                      (filter (\<lambda>e. mb_name (en_member e) \<noteq> gm_name g) (hm_values (gm_roster g1)))
      in case enc (leave_msg g1) of
           Inl e \<Rightarrow> (Inl e, [], g1)
         | Inr payload \<Rightarrow> (Inr (), map (\<lambda>a. (a, payload)) targets, g1))"

section \<open>Merging\<close>

text \<open>The roster as a function, which is what a merge is about.\<close>

definition newer :: "entry option \<Rightarrow> entry option \<Rightarrow> entry option" where
  "newer old new =
     (case new of
        None \<Rightarrow> old
      | Some e \<Rightarrow> (case old of
                   None \<Rightarrow> new
                 | Some e0 \<Rightarrow> if en_incarnation e0 < en_incarnation e then new else old))"

lemma merge1_get:
  "hm_get (merge1 self w r) n =
     (if n = wr_name w \<and> n \<noteq> self then newer (hm_get r n) (Some (wire_entry w)) else hm_get r n)"
  by (auto simp: merge1_def newer_def wire_entry_def split: option.split)

lemma merge_Nil [simp]: "merge self [] r = r"
  and merge_Cons [simp]: "merge self (w # ws) r = merge self ws (merge1 self w r)"
  by (simp_all add: merge_def)

lemma merge_self: "hm_get (merge self ws r) self = hm_get r self"
  by (induction ws arbitrary: r) (auto simp: merge1_get)

text \<open>The best claim of a message about a member: the first of the highest incarnation.\<close>

fun claim :: "string \<Rightarrow> wire list \<Rightarrow> entry option \<Rightarrow> entry option" where
  "claim n [] acc = acc"
| "claim n (w # ws) acc = claim n ws (if wr_name w = n then newer acc (Some (wire_entry w)) else acc)"

lemma merge_get: "n \<noteq> self \<Longrightarrow> hm_get (merge self ws r) n = claim n ws (hm_get r n)"
  by (induction ws arbitrary: r) (auto simp: merge1_get)

definition inc_le :: "entry option \<Rightarrow> entry option \<Rightarrow> bool" where
  "inc_le a b \<longleftrightarrow> (case a of None \<Rightarrow> True | Some e \<Rightarrow> (case b of None \<Rightarrow> False
     | Some e' \<Rightarrow> en_incarnation e \<le> en_incarnation e'))"

lemma inc_le_refl [simp]: "inc_le a a"
  by (simp add: inc_le_def split: option.split)

lemma inc_le_trans: "inc_le a b \<Longrightarrow> inc_le b c \<Longrightarrow> inc_le a c"
  by (auto simp: inc_le_def split: option.splits)

lemma inc_le_newer: "inc_le a (newer a b)" "inc_le b (newer a b)"
  by (auto simp: inc_le_def newer_def split: option.splits)

lemma claim_mono: "inc_le acc (claim n ws acc)"
  by (induction ws arbitrary: acc) (auto intro: inc_le_trans inc_le_newer)

lemma claim_bounds: "\<lbrakk>w \<in> set ws; wr_name w = n\<rbrakk> \<Longrightarrow> inc_le (Some (wire_entry w)) (claim n ws acc)"
  by (induction ws arbitrary: acc) (auto intro: inc_le_trans [OF inc_le_newer(2) claim_mono])

lemma newer_old: "inc_le b a \<Longrightarrow> newer a b = a"
  by (auto simp: inc_le_def newer_def split: option.splits)

lemma claim_old: "(\<And>w. w \<in> set ws \<Longrightarrow> wr_name w = n \<Longrightarrow> inc_le (Some (wire_entry w)) acc) \<Longrightarrow> claim n ws acc = acc"
  by (induction ws) (auto simp: newer_old)

lemma claim_cases: "claim n ws acc = acc \<or> (\<exists>w\<in>set ws. wr_name w = n \<and> claim n ws acc = Some (wire_entry w))"
proof (induction ws arbitrary: acc)
  case (Cons w ws)
  have "newer acc (Some (wire_entry w)) \<in> {acc, Some (wire_entry w)}"
    by (auto simp: newer_def split: option.split)
  with Cons.IH [of "if wr_name w = n then newer acc (Some (wire_entry w)) else acc"] show ?case
    by (auto split: if_splits)
qed simp

text \<open>A collection of entries that never gives two different records for the same incarnation.\<close>

definition consistent :: "entry set \<Rightarrow> bool" where
  "consistent E \<longleftrightarrow> (\<forall>a\<in>E. \<forall>b\<in>E. en_incarnation a = en_incarnation b \<longrightarrow> a = b)"

definition claims_of :: "string \<Rightarrow> wire list \<Rightarrow> entry option \<Rightarrow> entry set" where
  "claims_of n ws acc = wire_entry ` {w \<in> set ws. wr_name w = n} \<union> set_option acc"

lemma claim_in: "claim n ws acc = Some e \<Longrightarrow> e \<in> claims_of n ws acc"
  using claim_cases [of n ws acc] by (auto simp: claims_of_def)

lemma claim_top: "e \<in> claims_of n ws acc \<Longrightarrow> inc_le (Some e) (claim n ws acc)"
  using claim_mono [of acc n ws] by (auto simp: claims_of_def intro: claim_bounds)

lemma claim_append: "claim n (xs @ ys) acc = claim n ys (claim n xs acc)"
  by (induction xs arbitrary: acc) auto

lemma claim_commute:
  assumes "consistent (claims_of n (xs @ ys) acc)"
  shows "claim n (xs @ ys) acc = claim n (ys @ xs) acc"
proof -
  let ?A = "claim n (xs @ ys) acc" and ?B = "claim n (ys @ xs) acc"
  have eq: "claims_of n (ys @ xs) acc = claims_of n (xs @ ys) acc" by (auto simp: claims_of_def)
  have le: "inc_le ?A ?B" "inc_le ?B ?A"
    using claim_in [of n "xs @ ys" acc] claim_in [of n "ys @ xs" acc] claim_top [of _ n "xs @ ys" acc]
      claim_top [of _ n "ys @ xs" acc] eq
    by (cases ?A; cases ?B; force simp: inc_le_def)+
  show ?thesis
  proof (cases ?A)
    case None
    with le(2) show ?thesis by (cases ?B) (auto simp: inc_le_def)
  next
    case (Some a)
    with le(1) obtain b where b: "?B = Some b" by (cases ?B) (auto simp: inc_le_def)
    have "en_incarnation a = en_incarnation b" using le Some b by (auto simp: inc_le_def)
    moreover have "a \<in> claims_of n (xs @ ys) acc" "b \<in> claims_of n (xs @ ys) acc"
      using claim_in [OF Some] claim_in [OF b] eq by simp_all
    ultimately show ?thesis using assms Some b by (auto simp: consistent_def)
  qed
qed

section \<open>The network\<close>

record net =
  nt_nodes :: "string \<rightharpoonup> gossip"
  nt_msgs :: "msg set"

text \<open>
  The steps of a network: a member starts under a new name, sends its roster (as \<open>join\<close> does), takes a
  message out of those ever sent, which stay there and so may be lost, repeated and reordered, or
  leaves. \<open>leave\<close> wraps after \<open>2 ^ 64\<close> calls; that call is not a step.
\<close>

inductive net_step :: "net \<Rightarrow> net \<Rightarrow> bool" where
  boot: "nt_nodes N n = None \<Longrightarrow> net_step N (N\<lparr>nt_nodes := (nt_nodes N)(n \<mapsto> start n addr)\<rparr>)"
| join: "nt_nodes N n = Some g \<Longrightarrow> net_step N (N\<lparr>nt_msgs := insert (join_msg g) (nt_msgs N)\<rparr>)"
| deliver: "\<lbrakk>nt_nodes N n = Some g; m \<in> nt_msgs N; receive (gm_name g) m (gm_roster g) = (reply, r)\<rbrakk> \<Longrightarrow>
    net_step N (N\<lparr>nt_nodes := (nt_nodes N)(n \<mapsto> g\<lparr>gm_roster := r\<rparr>),
                  nt_msgs := nt_msgs N \<union> set_option reply\<rparr>)"
| leave: "\<lbrakk>nt_nodes N n = Some g; gm_incarnation g \<noteq> - 1\<rbrakk> \<Longrightarrow>
    net_step N (N\<lparr>nt_nodes := (nt_nodes N)(n \<mapsto> leave_state g),
                  nt_msgs := insert (leave_msg (leave_state g)) (nt_msgs N)\<rparr>)"

definition net_init :: "net \<Rightarrow> bool" where
  "net_init N \<longleftrightarrow> N = \<lparr>nt_nodes = Map.empty, nt_msgs = {}\<rparr>"

fun msg_wires :: "msg \<Rightarrow> wire list" where
  "msg_wires (PushPull ws _) = ws"
| "msg_wires (Gossip ws) = ws"

definition status_at :: "u64 \<Rightarrow> member_status" where
  "status_at inc = (if inc = 0 then Alive else Left)"

text \<open>A record about a member is true when it shows the member as it was at that incarnation.\<close>

definition wire_true :: "(string \<rightharpoonup> gossip) \<Rightarrow> wire \<Rightarrow> bool" where
  "wire_true N w \<longleftrightarrow> (\<exists>g. N (wr_name w) = Some g \<and> wr_addr w = gm_addr g \<and>
     wr_incarnation w \<le> gm_incarnation g \<and> wr_status w = status_at (wr_incarnation w))"

text \<open>A roster that files every entry under its member's name and of whose records \<open>P\<close> holds.\<close>

definition roster_all :: "(wire \<Rightarrow> bool) \<Rightarrow> roster \<Rightarrow> bool" where
  "roster_all P r \<longleftrightarrow> hm_wf r \<and> (\<forall>(k, e)\<in>set r. k = mb_name (en_member e) \<and> P (entry_wire e))"

abbreviation roster_true :: "(string \<rightharpoonup> gossip) \<Rightarrow> roster \<Rightarrow> bool" where
  "roster_true N \<equiv> roster_all (wire_true N)"

definition self_entry :: "gossip \<Rightarrow> entry" where
  "self_entry g = \<lparr>en_member = \<lparr>mb_name = gm_name g, mb_addr = gm_addr g, mb_status = status_at (gm_incarnation g)\<rparr>,
                   en_incarnation = gm_incarnation g\<rparr>"

definition net_inv :: "net \<Rightarrow> bool" where
  "net_inv N \<longleftrightarrow>
     (\<forall>n g. nt_nodes N n = Some g \<longrightarrow> gm_name g = n \<and> hm_get (gm_roster g) n = Some (self_entry g) \<and>
        roster_true (nt_nodes N) (gm_roster g)) \<and>
     (\<forall>m\<in>nt_msgs N. \<forall>w\<in>set (msg_wires m). wire_true (nt_nodes N) w)"

definition extends :: "(string \<rightharpoonup> gossip) \<Rightarrow> (string \<rightharpoonup> gossip) \<Rightarrow> bool" where
  "extends N N' \<longleftrightarrow> (\<forall>n g. N n = Some g \<longrightarrow>
     (\<exists>g'. N' n = Some g' \<and> gm_addr g' = gm_addr g \<and> gm_incarnation g \<le> gm_incarnation g'))"

lemma wire_true_mono: "\<lbrakk>wire_true N w; extends N N'\<rbrakk> \<Longrightarrow> wire_true N' w"
  by (fastforce simp: wire_true_def extends_def)

lemma roster_all_mono: "\<lbrakk>roster_all P r; \<And>w. P w \<Longrightarrow> Q w\<rbrakk> \<Longrightarrow> roster_all Q r"
  by (auto simp: roster_all_def)

lemma roster_true_mono: "\<lbrakk>roster_true N r; extends N N'\<rbrakk> \<Longrightarrow> roster_true N' r"
  by (erule roster_all_mono) (rule wire_true_mono)

lemma entry_wire_entry [simp]: "entry_wire (wire_entry w) = w" "mb_name (en_member (wire_entry w)) = wr_name w"
  by (simp_all add: entry_wire_def wire_entry_def)

lemma insert_all:
  "\<lbrakk>roster_all P r; P (entry_wire e); mb_name (en_member e) = k\<rbrakk> \<Longrightarrow> roster_all P (hm_insert k e r)"
  by (auto simp: roster_all_def set_hm_insert distinct_update)

lemma merge1_all: "\<lbrakk>roster_all P r; P w\<rbrakk> \<Longrightarrow> roster_all P (merge1 self w r)"
  by (simp add: merge1_def insert_all)

lemma merge_all: "\<lbrakk>roster_all P r; \<forall>w\<in>set ws. P w\<rbrakk> \<Longrightarrow> roster_all P (merge self ws r)"
  by (induction ws arbitrary: r) (auto simp: merge1_all)

lemma snapshot_all: "roster_all P r \<Longrightarrow> \<forall>w\<in>set (snapshot r). P w"
  by (auto simp: roster_all_def snapshot_def)

lemma roster_all_get: "\<lbrakk>roster_all P r; hm_get r k = Some e\<rbrakk> \<Longrightarrow> k = mb_name (en_member e) \<and> P (entry_wire e)"
  by (auto simp: roster_all_def dest!: map_of_SomeD)

lemma receive_parts:
  assumes "receive self m r = (reply, r')"
  shows "r' = merge self (msg_wires m) r \<and> (\<forall>m'\<in>set_option reply. msg_wires m' = snapshot r')"
  using assms by (cases m) (auto simp: Let_def split: if_splits)

lemma net_inv_update:
  assumes inv: "net_inv N" and g: "nt_nodes N n = Some g"
    and g': "gm_name g' = n" "gm_addr g' = gm_addr g" "gm_incarnation g \<le> gm_incarnation g'"
      "hm_get (gm_roster g') n = Some (self_entry g')"
      "roster_true ((nt_nodes N)(n \<mapsto> g')) (gm_roster g')"
    and msgs: "\<forall>m\<in>M. msg_wires m = snapshot (gm_roster g')"
  shows "net_inv (N\<lparr>nt_nodes := (nt_nodes N)(n \<mapsto> g'), nt_msgs := nt_msgs N \<union> M\<rparr>)"
proof -
  have ext: "extends (nt_nodes N) ((nt_nodes N)(n \<mapsto> g'))"
    using g g' by (auto simp: extends_def)
  from inv have "\<forall>m\<in>nt_msgs N. \<forall>w\<in>set (msg_wires m). wire_true ((nt_nodes N)(n \<mapsto> g')) w"
    using wire_true_mono [OF _ ext] by (auto simp: net_inv_def)
  moreover have "\<forall>m\<in>M. \<forall>w\<in>set (msg_wires m). wire_true ((nt_nodes N)(n \<mapsto> g')) w"
    using msgs snapshot_all [OF g'(5)] by auto
  ultimately show ?thesis
    using inv g' roster_true_mono [OF _ ext] by (auto simp: net_inv_def)
qed

lemma leave_state_parts:
  assumes "hm_get (gm_roster g) (gm_name g) = Some (self_entry g)" and "gm_incarnation g \<noteq> - 1"
  shows "gm_roster (leave_state g) = hm_insert (gm_name g) (self_entry (leave_state g)) (gm_roster g)"
    and "gm_name (leave_state g) = gm_name g" and "gm_addr (leave_state g) = gm_addr g"
    and "unat (gm_incarnation (leave_state g)) = Suc (unat (gm_incarnation g))"
proof -
  have "gm_incarnation g + 1 \<noteq> 0" using assms(2) by (metis add.commute add_eq_0_iff)
  then show "gm_roster (leave_state g) = hm_insert (gm_name g) (self_entry (leave_state g)) (gm_roster g)"
    using assms(1) by (simp add: leave_state_def Let_def self_entry_def status_at_def)
  show "unat (gm_incarnation (leave_state g)) = Suc (unat (gm_incarnation g))"
    using assms(2) by (simp add: leave_state_def Let_def unat_u64_Suc)
qed (simp_all add: leave_state_def Let_def)

lemma net_step_inv:
  assumes inv: "net_inv N" and st: "net_step N N'"
  shows "net_inv N'"
  using st
proof cases
  case (boot n addr)
  have ext: "extends (nt_nodes N) ((nt_nodes N)(n \<mapsto> start n addr))"
    using boot by (auto simp: extends_def)
  have "roster_true ((nt_nodes N)(n \<mapsto> start n addr)) (gm_roster (start n addr))"
    by (simp add: roster_all_def start_def wire_true_def entry_wire_def status_at_def)
  moreover have "hm_get (gm_roster (start n addr)) n = Some (self_entry (start n addr))" "gm_name (start n addr) = n"
    by (simp_all add: start_def self_entry_def status_at_def)
  ultimately show ?thesis
    using inv boot wire_true_mono [OF _ ext] roster_true_mono [OF _ ext] by (auto simp: net_inv_def)
next
  case (join n g)
  with inv snapshot_all [of "wire_true (nt_nodes N)" "gm_roster g"] show ?thesis
    by (auto simp: net_inv_def join_msg_def)
next
  case (deliver n g m reply r)
  have g: "gm_name g = n" "hm_get (gm_roster g) n = Some (self_entry g)" "roster_true (nt_nodes N) (gm_roster g)"
    using inv deliver by (auto simp: net_inv_def)
  have r: "r = merge n (msg_wires m) (gm_roster g)" "\<forall>m'\<in>set_option reply. msg_wires m' = snapshot r"
    using receive_parts [OF deliver(4)] g(1) by auto
  have "\<forall>w\<in>set (msg_wires m). wire_true (nt_nodes N) w" using inv deliver(3) by (auto simp: net_inv_def)
  then have "roster_true (nt_nodes N) r" unfolding r(1) by (rule merge_all [OF g(3)])
  moreover have "extends (nt_nodes N) ((nt_nodes N)(n \<mapsto> g\<lparr>gm_roster := r\<rparr>))"
    using deliver(2) by (auto simp: extends_def)
  ultimately have "roster_true ((nt_nodes N)(n \<mapsto> g\<lparr>gm_roster := r\<rparr>)) r" by (rule roster_true_mono)
  then show ?thesis
    unfolding deliver(1) using g r merge_self [of n "msg_wires m" "gm_roster g"]
    by (intro net_inv_update [OF inv deliver(2)]) (simp_all add: self_entry_def)
next
  case (leave n g)
  have g: "gm_name g = n" "hm_get (gm_roster g) n = Some (self_entry g)" "roster_true (nt_nodes N) (gm_roster g)"
    using inv leave by (auto simp: net_inv_def)
  note lv = leave_state_parts [of g, unfolded g(1), OF g(2) leave(3)]
  let ?N = "(nt_nodes N)(n \<mapsto> leave_state g)"
  have le: "gm_incarnation g \<le> gm_incarnation (leave_state g)" using lv(4) by (simp add: word_le_nat_alt)
  have "extends (nt_nodes N) ?N" using leave(2) lv(3) le by (auto simp: extends_def)
  then have "roster_true ?N (gm_roster g)" by (rule roster_true_mono [OF g(3)])
  moreover have "wire_true ?N (entry_wire (self_entry (leave_state g)))"
    using lv by (simp add: wire_true_def entry_wire_def self_entry_def)
  ultimately have "roster_true ?N (gm_roster (leave_state g))"
    using lv by (auto simp: self_entry_def intro!: insert_all)
  then have "net_inv (N\<lparr>nt_nodes := ?N, nt_msgs := nt_msgs N \<union> {leave_msg (leave_state g)}\<rparr>)"
    using lv le by (intro net_inv_update [OF inv leave(2)]) (simp_all add: leave_msg_def)
  then show ?thesis by (simp add: leave(1))
qed

interpretation gossip_net: inductive_invariant net_init net_step net_inv
proof (unfold_locales, goal_cases)
  case (1 N) then show ?case by (simp add: net_init_def net_inv_def)
next
  case (2 N N') then show ?case by (rule net_step_inv)
qed

lemma start_parts [simp]: "gm_name (start k addr) = k" "gm_incarnation (start k addr) = 0"
  by (simp_all add: start_def)

text \<open>A network in which \<open>a\<close> has left and \<open>b\<close> knows it.\<close>

definition gone_a :: gossip where
  "gone_a = leave_state (start ''a'' ''1'')"

definition lab_net :: net where
  "lab_net = \<lparr>nt_nodes = [''a'' \<mapsto> gone_a,
       ''b'' \<mapsto> (start ''b'' ''2'')\<lparr>gm_roster := snd (receive ''b'' (leave_msg gone_a) (gm_roster (start ''b'' ''2'')))\<rparr>],
     nt_msgs = {leave_msg gone_a}\<rparr>"

lemma lab_net_reachable: "reachable net_init net_step lab_net"
proof -
  let ?N0 = "\<lparr>nt_nodes = Map.empty, nt_msgs = {}\<rparr> :: net"
  let ?N1 = "?N0\<lparr>nt_nodes := (nt_nodes ?N0)(''a'' \<mapsto> start ''a'' ''1'')\<rparr>"
  let ?N2 = "?N1\<lparr>nt_nodes := (nt_nodes ?N1)(''b'' \<mapsto> start ''b'' ''2'')\<rparr>"
  let ?N3 = "?N2\<lparr>nt_nodes := (nt_nodes ?N2)(''a'' \<mapsto> gone_a), nt_msgs := insert (leave_msg gone_a) (nt_msgs ?N2)\<rparr>"
  have "reachable net_init net_step ?N0" by (rule reach_init) (simp add: net_init_def)
  moreover have "net_step ?N0 ?N1" by (rule net_step.boot) simp
  moreover have "net_step ?N1 ?N2" by (rule net_step.boot) simp
  moreover have "net_step ?N2 ?N3" unfolding gone_a_def by (rule net_step.leave) (simp_all add: start_def)
  moreover have "net_step ?N3 lab_net"
    using net_step.deliver [of ?N3 "''b''" "start ''b'' ''2''" "leave_msg gone_a" None
        "snd (receive ''b'' (leave_msg gone_a) (gm_roster (start ''b'' ''2'')))"]
    by (auto simp: lab_net_def leave_msg_def fun_upd_twist)
  ultimately show ?thesis by (blast intro: reach_step)
qed

section \<open>Properties\<close>

text \<open>C19. Gossip spreads no falsehood: in every reachable network, whatever messages were lost,
  duplicated or reordered, each record about a member, in a roster or in a message sent, shows the
  address and the status that member itself had at the record's incarnation, which is not ahead of
  the member's own; in particular nobody believes or says that a member left which has not left.
  A roster files each record under the member's name, and a member's entry about itself is always
  its current state. A name is started once (what a second start does is in \<open>Gossip_Restart\<close>)
  and no incarnation wraps, which takes \<open>2 ^ 64\<close> calls of \<open>leave\<close>.\<close>

theorem gossip_truthful:
  assumes "reachable net_init net_step N"
  shows "(\<forall>n g k e. nt_nodes N n = Some g \<and> hm_get (gm_roster g) k = Some e \<longrightarrow>
       mb_name (en_member e) = k \<and>
       (\<exists>h. nt_nodes N k = Some h \<and> mb_addr (en_member e) = gm_addr h \<and>
          en_incarnation e \<le> gm_incarnation h \<and>
          mb_status (en_member e) = (if en_incarnation e = 0 then Alive else Left) \<and>
          (k = n \<longrightarrow> en_incarnation e = gm_incarnation h))) \<and>
    (\<forall>m\<in>nt_msgs N. \<forall>w\<in>set (msg_wires m). \<exists>h. nt_nodes N (wr_name w) = Some h \<and>
       wr_addr w = gm_addr h \<and> wr_incarnation w \<le> gm_incarnation h \<and>
       wr_status w = (if wr_incarnation w = 0 then Alive else Left))"
proof -
  have inv: "net_inv N" by (rule gossip_net.reachable_inv [OF assms])
  have "mb_name (en_member e) = k \<and>
      (\<exists>h. nt_nodes N k = Some h \<and> mb_addr (en_member e) = gm_addr h \<and>
         en_incarnation e \<le> gm_incarnation h \<and>
         mb_status (en_member e) = (if en_incarnation e = 0 then Alive else Left) \<and>
         (k = n \<longrightarrow> en_incarnation e = gm_incarnation h))"
    if n: "nt_nodes N n = Some g" and e: "hm_get (gm_roster g) k = Some e" for n g k e
  proof -
    have r: "roster_true (nt_nodes N) (gm_roster g)" "hm_get (gm_roster g) n = Some (self_entry g)" "gm_name g = n"
      using inv n by (auto simp: net_inv_def)
    from roster_all_get [OF r(1) e] have "k = mb_name (en_member e)" "wire_true (nt_nodes N) (entry_wire e)"
      by simp_all
    with r n e show ?thesis
      by (auto simp: wire_true_def entry_wire_def status_at_def self_entry_def)
  qed
  moreover have "\<forall>m\<in>nt_msgs N. \<forall>w\<in>set (msg_wires m). wire_true (nt_nodes N) w" using inv by (simp add: net_inv_def)
  then have "\<forall>m\<in>nt_msgs N. \<forall>w\<in>set (msg_wires m). \<exists>h. nt_nodes N (wr_name w) = Some h \<and>
      wr_addr w = gm_addr h \<and> wr_incarnation w \<le> gm_incarnation h \<and>
      wr_status w = (if wr_incarnation w = 0 then Alive else Left)"
    unfolding wire_true_def status_at_def by blast
  ultimately show ?thesis by blast
qed

text \<open>Merging is safe and idempotent: it never touches the member's own entry, never lowers the
  incarnation known of a member, takes over every claim about another member that beats what was
  known, and merging the same message again changes nothing.\<close>

theorem merge_behaviour:
  "hm_get (merge self ws r) self = hm_get r self \<and>
   inc_le (hm_get r n) (hm_get (merge self ws r) n) \<and>
   (\<forall>w\<in>set ws. wr_name w \<noteq> self \<longrightarrow> inc_le (Some (wire_entry w)) (hm_get (merge self ws r) (wr_name w))) \<and>
   hm_get (merge self ws (merge self ws r)) n = hm_get (merge self ws r) n"
proof -
  have "claim n ws (claim n ws acc) = claim n ws acc" for acc
    by (rule claim_old) (rule claim_bounds)
  then show ?thesis
    using claim_mono claim_bounds merge_self [of self]
    by (cases "n = self") (auto simp: merge_get)
qed

text \<open>The order in which two messages arrive does not matter when they agree about what a member
  was at an incarnation.\<close>

theorem merge_order_irrelevant:
  assumes "consistent (claims_of n (xs @ ys) (hm_get r n))"
  shows "hm_get (merge self xs (merge self ys r)) n = hm_get (merge self ys (merge self xs r)) n"
  using claim_commute [OF assms] merge_self by (cases "n = self") (simp_all add: merge_get claim_append)

definition wire_a :: wire where
  "wire_a = \<lparr>wr_name = ''a'', wr_addr = ''10.0.0.1:4648'', wr_status = Alive, wr_incarnation = 0\<rparr>"

definition wire_a_left :: wire where
  "wire_a_left = \<lparr>wr_name = ''a'', wr_addr = ''10.0.0.1:4648'', wr_status = Left, wr_incarnation = 1\<rparr>"

theorem merge_behaviour_witness:
  "inc_le (Some (wire_entry wire_a_left)) (hm_get (merge ''b'' [wire_a_left, wire_a] []) ''a'') \<and>
   hm_get (merge ''b'' [wire_a_left, wire_a] []) ''b'' = None"
  using merge_behaviour [of "''b''" "[wire_a_left, wire_a]" "[]" "''a''"] by (simp add: wire_a_left_def)

theorem merge_order_irrelevant_witness:
  "hm_get (merge ''b'' [wire_a] (merge ''b'' [wire_a_left] [])) ''a'' =
   hm_get (merge ''b'' [wire_a_left] (merge ''b'' [wire_a] [])) ''a''"
  by (rule merge_order_irrelevant)
    (auto simp: consistent_def claims_of_def wire_a_def wire_a_left_def wire_entry_def)

theorem gossip_truthful_witness:
  "\<exists>g e. nt_nodes lab_net ''b'' = Some g \<and> hm_get (gm_roster g) ''a'' = Some e \<and> mb_addr (en_member e) = ''1'' \<and>
     en_incarnation e = 1 \<and> mb_status (en_member e) = Left \<and>
     (\<exists>w\<in>set (msg_wires (leave_msg gone_a)). wr_name w = ''a'' \<and> wr_addr w = ''1'' \<and> wr_status w = Left)"
proof -
  note holds = gossip_truthful [OF lab_net_reachable]
  let ?b = "the (nt_nodes lab_net ''b'')"
  let ?e = "\<lparr>en_member = \<lparr>mb_name = ''a'', mb_addr = ''1'', mb_status = Left\<rparr>, en_incarnation = 1\<rparr>"
  let ?w = "\<lparr>wr_name = ''a'', wr_addr = ''1'', wr_status = Left, wr_incarnation = 1\<rparr>"
  have b: "nt_nodes lab_net ''b'' = Some ?b" and a: "nt_nodes lab_net ''a'' = Some gone_a" by (simp_all add: lab_net_def)
  have e: "hm_get (gm_roster ?b) ''a'' = Some ?e" by code_simp
  have addr: "gm_addr gone_a = ''1''" by code_simp
  have "mb_addr (en_member ?e) = gm_addr gone_a"
    using holds [THEN conjunct1, rule_format, OF conjI [OF b e]] a by simp
  have sent: "leave_msg gone_a \<in> nt_msgs lab_net" by (simp add: lab_net_def)
  have w: "?w \<in> set (msg_wires (leave_msg gone_a))" by code_simp
  from holds [THEN conjunct2, rule_format, OF sent w] a addr have "wr_addr ?w = ''1''" "wr_status ?w = Left" by simp_all
  with b e show ?thesis
    by (intro exI [of _ ?b] exI [of _ ?e] conjI bexI [OF _ w]) simp_all
qed

text \<open>Joining reports how many of the addresses the roster could be sent to; it fails only when
  there were addresses and none could be reached, or when the roster cannot be encoded.\<close>

theorem join_reports_reached:
  "fst (join enc send_ok addrs g) = Inr k \<longleftrightarrow>
     is_ok (enc (join_msg g)) \<and> k = length (filter send_ok addrs) \<and> (addrs = [] \<or> 0 < k)"
  by (auto simp: join_def Let_def is_ok_def split: sum.splits)

end
