(* ===== verification/Conformance_Net.thy ===== *)
theory Conformance_Net
  imports Conformance_State Api Membership
begin

text \<open>
  The unit tests of \<open>src/src/api.rs\<close> and \<open>membership.rs\<close>, run on the model. A test of the API is
  about the status and the value that is serialised; a test of the membership delivers the
  datagrams that are sent, which is what its polling waits for.
\<close>

section \<open>The HTTP API\<close>

definition api_job :: job where
  "api_job = job_default\<lparr>jb_name := ''redis'', jb_priority := 50\<rparr>"

text \<open>The four writes of the test succeed; the state is the store after them.\<close>

definition populating :: "state_store step list" where
  "populating =
     [st_job api_job, st_node ((store_node ''n1'')\<lparr>nd_name := ''node-1''\<rparr>),
      st_alloc ((store_alloc ''a1'' ''n1'' ''redis'')\<lparr>al_task_group := ''cache''\<rparr>),
      unwrapped (upsert_eval (store_eval ''e1'')) any]"

definition populated_state :: state_store where
  "populated_state = the (run_steps populating state_new)"

definition answers_with :: "serde \<Rightarrow> http_api \<Rightarrow> string \<Rightarrow> (api_response \<Rightarrow> bool) \<Rightarrow> bool" where
  "answers_with X h p P = (case api_handle X h (get_path p) of Inl _ \<Rightarrow> False | Inr r \<Rightarrow> P r)"

definition has_status :: "u16 \<Rightarrow> api_response \<Rightarrow> bool" where
  "has_status n r \<longleftrightarrow> rs_status r = n"

text \<open>The status is 200 and the body is what the serializer makes of a value with the property.\<close>

definition ok_with :: "serde \<Rightarrow> body \<Rightarrow> api_response \<Rightarrow> bool" where
  "ok_with X b r \<longleftrightarrow> rs_status r = 200 \<and> rs_body r = body_or_empty X b"

definition list_jobs_returns_200 :: "serde \<Rightarrow> bool" where
  "list_jobs_returns_200 X = answers_with X (api_new (Some populated_state)) ''/v1/jobs'' (ok_with X (Jobs [api_job]))"

definition get_job_returns_job :: "serde \<Rightarrow> bool" where
  "get_job_returns_job X = answers_with X (api_new (Some populated_state)) ''/v1/job/redis'' (ok_with X (OneJob api_job))"

definition get_missing_job_returns_404 :: "serde \<Rightarrow> bool" where
  "get_missing_job_returns_404 X = answers_with X (api_new (Some populated_state)) ''/v1/job/nonexistent'' (has_status 404)"

definition list_evals_returns_200 :: "serde \<Rightarrow> bool" where
  "list_evals_returns_200 X =
     answers_with X (api_new (Some populated_state)) ''/v1/evaluations'' (ok_with X (Evals [store_eval ''e1'']))"

definition list_allocs_returns_200 :: "serde \<Rightarrow> bool" where
  "list_allocs_returns_200 X =
     answers_with X (api_new (Some populated_state)) ''/v1/allocations''
       (ok_with X (Allocs [(store_alloc ''a1'' ''n1'' ''redis'')\<lparr>al_task_group := ''cache''\<rparr>]))"

definition list_nodes_returns_200 :: "serde \<Rightarrow> bool" where
  "list_nodes_returns_200 X =
     answers_with X (api_new (Some populated_state)) ''/v1/nodes'' (ok_with X (Nodes [(store_node ''n1'')\<lparr>nd_name := ''node-1''\<rparr>]))"

definition agent_health_returns_200 :: "serde \<Rightarrow> bool" where
  "agent_health_returns_200 X =
     answers_with X api_default ''/v1/agent''
       (ok_with X (Value (Object [(''status'', String ''running''), (''version'', String CARGO_PKG_VERSION)])))"

definition status_leader_returns_200 :: "serde \<Rightarrow> bool" where
  "status_leader_returns_200 X = answers_with X api_default ''/v1/status/leader'' (has_status 200)"

definition operator_raft_config_returns_200 :: "serde \<Rightarrow> bool" where
  "operator_raft_config_returns_200 X = answers_with X api_default ''/v1/operator/raft/configuration'' (has_status 200)"

definition unknown_path_returns_404 :: "serde \<Rightarrow> bool" where
  "unknown_path_returns_404 X = answers_with X api_default ''/v1/nope'' (has_status 404)"

definition empty_job_name_returns_400 :: "serde \<Rightarrow> bool" where
  "empty_job_name_returns_400 X = answers_with X api_default ''/v1/job/'' (has_status 400)"

lemmas api_test_defs = answers_with_def has_status_def ok_with_def api_handle_def handler_defs response_defs api_new_def
  api_default_def

lemma populated: "passes state_new populating"
  by code_simp

lemma populated_lookups:
  "list_jobs populated_state = [api_job]" "get_job populated_state ''redis'' = Some api_job"
  "get_job populated_state ''nonexistent'' = None" "list_evals populated_state = [store_eval ''e1'']"
  "list_allocs populated_state = [(store_alloc ''a1'' ''n1'' ''redis'')\<lparr>al_task_group := ''cache''\<rparr>]"
  "list_nodes populated_state = [(store_node ''n1'')\<lparr>nd_name := ''node-1''\<rparr>]"
  by code_simp+

lemma job_paths:
  "trim_start_matches ''/v1/job/'' ''/v1/job/redis'' = ''redis''"
  "trim_start_matches ''/v1/job/'' ''/v1/job/nonexistent'' = ''nonexistent''"
  "trim_start_matches ''/v1/job/'' ''/v1/job/'' = []"
  by code_simp+

text \<open>Whatever the serializer does.\<close>

lemma api_list_tests:
  "list_jobs_returns_200 X \<and> list_evals_returns_200 X \<and> list_allocs_returns_200 X \<and> list_nodes_returns_200 X"
  by (simp add: list_jobs_returns_200_def list_evals_returns_200_def list_allocs_returns_200_def
      list_nodes_returns_200_def api_test_defs populated_lookups)

lemma api_job_tests:
  "get_job_returns_job X \<and> get_missing_job_returns_404 X \<and> empty_job_name_returns_400 X"
  by (simp add: get_job_returns_job_def get_missing_job_returns_404_def empty_job_name_returns_400_def api_test_defs
      job_paths populated_lookups)

lemma api_status_tests:
  "agent_health_returns_200 X \<and> status_leader_returns_200 X \<and> operator_raft_config_returns_200 X \<and>
   unknown_path_returns_404 X"
  by (simp add: agent_health_returns_200_def status_leader_returns_200_def operator_raft_config_returns_200_def
      unknown_path_returns_404_def api_test_defs)

section \<open>Gossip membership\<close>

definition gossip_node :: "string \<Rightarrow> gossip" where
  "gossip_node n = start n (n @ '':4648'')"

definition member_names :: "gossip \<Rightarrow> string list" where
  "member_names g = map mb_name (members g)"

text \<open>A node receives a message: its roster and its reply.\<close>

definition deliver :: "msg \<Rightarrow> gossip \<Rightarrow> msg option \<times> gossip" where
  "deliver m g = (case receive (gm_name g) m (gm_roster g) of (reply, r) \<Rightarrow> (reply, g\<lparr>gm_roster := r\<rparr>))"

text \<open>\<open>n2\<close> joins \<open>n1\<close>: the message arrives, and then the reply.\<close>

definition joined :: "gossip \<Rightarrow> gossip \<Rightarrow> gossip \<times> gossip" where
  "joined n1 n2 =
     (case deliver (join_msg n2) n1 of
        (None, n1') \<Rightarrow> (n1', n2)
      | (Some reply, n1') \<Rightarrow> (n1', snd (deliver reply n2)))"

definition fresh_node_lists_only_itself :: bool where
  "fresh_node_lists_only_itself \<longleftrightarrow> set (member_names (gossip_node ''s1'')) = {''s1''}"

definition two_nodes_discover_each_other_after_join :: bool where
  "two_nodes_discover_each_other_after_join \<longleftrightarrow>
     (case joined (gossip_node ''s1'') (gossip_node ''s2'') of
        (n1, n2) \<Rightarrow> set (member_names n2) = {''s1'', ''s2''} \<and> set (member_names n1) = {''s1'', ''s2''})"

definition join_reports_peers_reached :: "(msg \<Rightarrow> string result) \<Rightarrow> bool" where
  "join_reports_peers_reached enc \<longleftrightarrow>
     fst (join enc (\<lambda>_. True) [gm_addr (gossip_node ''s1'')] (gossip_node ''s2'')) = Inr 1"

definition join_with_no_reachable_peer_errors :: "(msg \<Rightarrow> string result) \<Rightarrow> bool" where
  "join_with_no_reachable_peer_errors enc \<longleftrightarrow>
     \<not> is_ok (fst (join enc (\<lambda>_. False) [''256.256.256.256:1''] (gossip_node ''s1'')))"

definition leave_propagates_left_status_to_peer :: bool where
  "leave_propagates_left_status_to_peer \<longleftrightarrow>
     (case joined (gossip_node ''s1'') (gossip_node ''s2'') of
        (n1, n2) \<Rightarrow>
          ''s2'' \<in> set (member_names n1) \<and>
          list_ex (\<lambda>x. mb_name x = ''s2'' \<and> mb_status x = Left)
            (members (snd (deliver (leave_msg (leave_state n2)) n1))))"

lemma membership_tests:
  "list_all id
     [fresh_node_lists_only_itself, two_nodes_discover_each_other_after_join, leave_propagates_left_status_to_peer]"
  by code_simp

text \<open>Whatever the encoding; that a peer is reached needs the message to be encoded.\<close>

lemma join_tests:
  "join_with_no_reachable_peer_errors enc"
  "enc (join_msg (gossip_node ''s2'')) = Inr bytes \<Longrightarrow> join_reports_peers_reached enc"
  by (auto simp: join_with_no_reachable_peer_errors_def join_reports_peers_reached_def join_def is_ok_def
      split: sum.splits)

end
