(* ===== verification/Conformance_Data.thy ===== *)
theory Conformance_Data
  imports Entities "HOL-Library.Sublist"
begin

text \<open>
  The unit tests of \<open>src/src/jobspec.rs\<close>, \<open>constraint.rs\<close>, \<open>node.rs\<close>, \<open>alloc.rs\<close> and \<open>eval.rs\<close> that
  do more than read back the fields of a literal, run on the model; those of the operands that
  belong to the regular expression and version crates are left out.
\<close>

text \<open>\<open>unwrap_err().to_string().contains(..)\<close>\<close>

definition err_contains :: "'a result \<Rightarrow> string \<Rightarrow> bool" where
  "err_contains r txt = (case r of Inl e \<Rightarrow> sublist txt (error_display e) | Inr _ \<Rightarrow> False)"

section \<open>Jobs\<close>

definition test_job_default :: bool where
  "test_job_default \<longleftrightarrow> jb_name job_default = [] \<and> jb_meta job_default = [] \<and> jb_datacenters job_default = [''dc1''] \<and>
     jb_task_groups job_default = [] \<and> jb_priority job_default = 50"

definition test_resources_default :: bool where
  "test_resources_default \<longleftrightarrow> cpu_mhz resources_default = 100 \<and> memory_mb resources_default = 256 \<and>
     network_mbps resources_default = 0"

definition test_job_validate_empty_name :: bool where
  "test_job_validate_empty_name = err_contains (job_validate job_default) ''name cannot be empty''"

definition test_job_validate_priority_too_low :: bool where
  "test_job_validate_priority_too_low =
     err_contains (job_validate (job_default\<lparr>jb_name := ''test'', jb_priority := 0\<rparr>)) ''priority''"

definition test_job_validate_priority_too_high :: bool where
  "test_job_validate_priority_too_high =
     err_contains (job_validate (job_default\<lparr>jb_name := ''test'', jb_priority := 101\<rparr>)) ''priority''"

definition test_job_validate_no_datacenters :: bool where
  "test_job_validate_no_datacenters =
     err_contains (job_validate (job_default\<lparr>jb_name := ''test'', jb_datacenters := []\<rparr>)) ''datacenter''"

definition test_job_validate_valid_job :: bool where
  "test_job_validate_valid_job =
     is_ok (job_validate (job_default\<lparr>jb_name := ''valid'', jb_datacenters := [''dc1''], jb_priority := 50\<rparr>))"

definition bare_group :: "string \<Rightarrow> i32 \<Rightarrow> task_group" where
  "bare_group name n =
     \<lparr>tg_name = name, tg_count = n, tg_tasks = [], tg_constraints = [], tg_affinities = [], tg_spreads = []\<rparr>"

definition test_task_group_validate_empty_name :: bool where
  "test_task_group_validate_empty_name = err_contains (task_group_validate (bare_group [] 1)) ''group name''"

definition test_task_group_validate_negative_count :: bool where
  "test_task_group_validate_negative_count = err_contains (task_group_validate (bare_group ''g'' (-1))) ''negative''"

definition bare_task :: "string \<Rightarrow> string \<Rightarrow> task" where
  "bare_task name driver = \<lparr>tk_name = name, tk_driver = driver, tk_config = [], tk_resources = resources_default\<rparr>"

definition test_task_validate_empty_name :: bool where
  "test_task_validate_empty_name = err_contains (task_validate (bare_task [] ''exec'')) ''task name''"

definition test_task_validate_empty_driver :: bool where
  "test_task_validate_empty_driver = err_contains (task_validate (bare_task ''t'' [])) ''driver''"

definition test_resources_validate_negative_cpu :: bool where
  "test_resources_validate_negative_cpu =
     err_contains (resources_validate \<lparr>cpu_mhz = -1, memory_mb = 256, network_mbps = 0\<rparr>) ''cpu_mhz''"

definition test_resources_validate_negative_memory :: bool where
  "test_resources_validate_negative_memory =
     err_contains (resources_validate \<lparr>cpu_mhz = 100, memory_mb = -1, network_mbps = 0\<rparr>) ''memory_mb''"

definition test_resources_validate_ok :: bool where
  "test_resources_validate_ok = is_ok (resources_validate \<lparr>cpu_mhz = 500, memory_mb = 1024, network_mbps = 100\<rparr>)"

lemma jobspec_tests:
  "test_job_default" "test_resources_default" "test_job_validate_empty_name" "test_job_validate_priority_too_low"
  "test_job_validate_priority_too_high" "test_job_validate_no_datacenters" "test_job_validate_valid_job"
  "test_task_group_validate_empty_name" "test_task_group_validate_negative_count" "test_task_validate_empty_name"
  "test_task_validate_empty_driver" "test_resources_validate_negative_cpu" "test_resources_validate_negative_memory"
  "test_resources_validate_ok"
  by code_simp+

section \<open>Constraints\<close>

definition constraint_attrs :: "(string, string) hashmap" where
  "constraint_attrs = [(''os'', ''linux'')]"

definition equality_constraint_validates :: bool where
  "equality_constraint_validates =
     is_ok (constraint_validate \<lparr>c_left = ''${attr.os}'', c_right = ''linux'', c_operand = ''=''\<rparr>)"

definition unknown_operand_rejected :: bool where
  "unknown_operand_rejected \<longleftrightarrow> \<not> is_ok (constraint_validate \<lparr>c_left = ''a'', c_right = ''b'', c_operand = ''bogus''\<rparr>)"

definition equality_satisfied_when_attr_matches :: "'v crates \<Rightarrow> bool" where
  "equality_satisfied_when_attr_matches X =
     constraint_satisfied_by X \<lparr>c_left = ''os'', c_right = ''linux'', c_operand = ''=''\<rparr> constraint_attrs"

definition equality_unsatisfied_when_attr_differs :: "'v crates \<Rightarrow> bool" where
  "equality_unsatisfied_when_attr_differs X \<longleftrightarrow>
     \<not> constraint_satisfied_by X \<lparr>c_left = ''os'', c_right = ''windows'', c_operand = ''=''\<rparr> constraint_attrs"

definition affinity_accepts_weight_in_range :: bool where
  "affinity_accepts_weight_in_range =
     is_ok (affinity_validate \<lparr>a_left = ''a'', a_right = ''b'', a_operand = ''='', a_weight = 50\<rparr>)"

definition spread_rejects_over_100_percent :: bool where
  "spread_rejects_over_100_percent \<longleftrightarrow>
     \<not> is_ok (spread_validate \<lparr>sp_attribute = ''${node.datacenter}'',
        sp_targets = [\<lparr>st_value = ''dc1'', st_percent = 80\<rparr>, \<lparr>st_value = ''dc2'', st_percent = 40\<rparr>]\<rparr>)"

definition spread_accepts_within_100_percent :: bool where
  "spread_accepts_within_100_percent =
     is_ok (spread_validate \<lparr>sp_attribute = ''${node.datacenter}'',
        sp_targets = [\<lparr>st_value = ''dc1'', st_percent = 60\<rparr>]\<rparr>)"

lemma constraint_tests:
  "equality_constraint_validates" "unknown_operand_rejected" "affinity_accepts_weight_in_range"
  "spread_rejects_over_100_percent" "spread_accepts_within_100_percent"
  by code_simp+

lemma equality_tests: "equality_satisfied_when_attr_matches X" "equality_unsatisfied_when_attr_differs X"
  by (simp_all add: equality_satisfied_when_attr_matches_def equality_unsatisfied_when_attr_differs_def
      constraint_satisfied_by_def constraint_attrs_def)

section \<open>Nodes\<close>

definition ready_node :: node where
  "ready_node =
     \<lparr>nd_id = ''11111111-1111-1111-1111-111111111111'', nd_name = ''node1'', nd_datacenter = ''dc1'', nd_class = [],
      nd_resources = resources_default, nd_status = NReady, nd_eligibility = Eligible, nd_draining = False,
      nd_attributes = [], nd_drivers = [(''docker'', True)]\<rparr>"

definition status_strings_match_upstream :: bool where
  "status_strings_match_upstream \<longleftrightarrow>
     map node_status_as_str [NInit, NReady, NDown, NDisconnected] = [''initializing'', ''ready'', ''down'', ''disconnected'']"

definition valid_node_passes :: bool where
  "valid_node_passes = is_ok (node_validate ready_node)"

definition node_rejects_empty_id :: bool where
  "node_rejects_empty_id \<longleftrightarrow> \<not> is_ok (node_validate (ready_node\<lparr>nd_id := []\<rparr>))"

definition node_rejects_empty_datacenter :: bool where
  "node_rejects_empty_datacenter \<longleftrightarrow> \<not> is_ok (node_validate (ready_node\<lparr>nd_datacenter := []\<rparr>))"

definition ready_node_is_ready :: bool where
  "ready_node_is_ready = node_is_ready ready_node"

definition draining_node_not_ready :: bool where
  "draining_node_not_ready \<longleftrightarrow> \<not> node_is_ready (ready_node\<lparr>nd_draining := True\<rparr>)"

definition ineligible_node_not_ready :: bool where
  "ineligible_node_not_ready \<longleftrightarrow> \<not> node_is_ready (ready_node\<lparr>nd_eligibility := Ineligible\<rparr>)"

definition down_node_not_ready :: bool where
  "down_node_not_ready \<longleftrightarrow> \<not> node_is_ready (ready_node\<lparr>nd_status := NDown\<rparr>)"

definition detects_healthy_driver :: bool where
  "detects_healthy_driver = has_healthy_driver ready_node ''docker''"

definition missing_driver_is_not_healthy :: bool where
  "missing_driver_is_not_healthy \<longleftrightarrow> \<not> has_healthy_driver ready_node ''qemu''"

lemma node_tests:
  "status_strings_match_upstream" "valid_node_passes" "node_rejects_empty_id" "node_rejects_empty_datacenter"
  "ready_node_is_ready" "draining_node_not_ready" "ineligible_node_not_ready" "down_node_not_ready"
  "detects_healthy_driver" "missing_driver_is_not_healthy"
  by code_simp+

section \<open>Allocations\<close>

definition running_alloc :: allocation where
  "running_alloc =
     \<lparr>al_id = ''22222222-2222-2222-2222-222222222222'', al_eval_id = ''eval-1'', al_node_id = ''node-1'',
      al_job_id = ''redis'', al_task_group = ''cache'', al_desired_status = DRun, al_client_status = CRunning,
      al_resources = resources_default\<rparr>"

definition desired_status_strings :: bool where
  "desired_status_strings \<longleftrightarrow> map desired_status_as_str [DRun, DStop, DEvict] = [''run'', ''stop'', ''evict'']"

definition client_status_strings :: bool where
  "client_status_strings \<longleftrightarrow> map client_status_as_str [CPending, CRunning, CComplete, CFailed, CLost] =
     [''pending'', ''running'', ''complete'', ''failed'', ''lost'']"

definition alloc_terminal_statuses :: bool where
  "alloc_terminal_statuses = list_all client_status_is_terminal [CComplete, CFailed, CLost]"

definition alloc_non_terminal_statuses :: bool where
  "alloc_non_terminal_statuses = list_all (\<lambda>s. \<not> client_status_is_terminal s) [CPending, CRunning]"

definition valid_alloc_passes :: bool where
  "valid_alloc_passes = is_ok (alloc_validate running_alloc)"

definition alloc_rejects_empty_node :: bool where
  "alloc_rejects_empty_node \<longleftrightarrow> \<not> is_ok (alloc_validate (running_alloc\<lparr>al_node_id := []\<rparr>))"

definition alloc_rejects_empty_job :: bool where
  "alloc_rejects_empty_job \<longleftrightarrow> \<not> is_ok (alloc_validate (running_alloc\<lparr>al_job_id := []\<rparr>))"

definition running_alloc_is_not_terminal :: bool where
  "running_alloc_is_not_terminal \<longleftrightarrow> \<not> alloc_is_terminal running_alloc"

definition completed_alloc_is_terminal :: bool where
  "completed_alloc_is_terminal = alloc_is_terminal (running_alloc\<lparr>al_client_status := CComplete\<rparr>)"

lemma alloc_tests:
  "desired_status_strings" "client_status_strings" "alloc_terminal_statuses" "alloc_non_terminal_statuses"
  "valid_alloc_passes" "alloc_rejects_empty_node" "alloc_rejects_empty_job" "running_alloc_is_not_terminal"
  "completed_alloc_is_terminal"
  by code_simp+

section \<open>Evaluations\<close>

definition redis_eval :: evaluation where
  "redis_eval =
     \<lparr>ev_id = ''33333333-3333-3333-3333-333333333333'', ev_job_id = ''redis'', ev_priority = JOB_DEFAULT_PRIORITY,
      ev_trigger = JobRegister, ev_status = EPending\<rparr>"

definition trigger_strings :: bool where
  "trigger_strings \<longleftrightarrow>
     map eval_trigger_as_str [JobRegister, JobDeregister, NodeUpdate, NodeDrain, AllocFailure, MaxPlanAttempts] =
     [''job-register'', ''job-deregister'', ''node-update'', ''node-drain'', ''alloc-failure'', ''max-plan-attempts'']"

definition status_strings :: bool where
  "status_strings \<longleftrightarrow> map eval_status_as_str [EBlocked, EPending, EComplete, EFailed, ECanceled] =
     [''blocked'', ''pending'', ''complete'', ''failed'', ''canceled'']"

definition eval_terminal_statuses :: bool where
  "eval_terminal_statuses = list_all eval_status_is_terminal [EComplete, EFailed, ECanceled]"

definition eval_non_terminal_statuses :: bool where
  "eval_non_terminal_statuses = list_all (\<lambda>s. \<not> eval_status_is_terminal s) [EBlocked, EPending]"

definition valid_eval_passes :: bool where
  "valid_eval_passes = is_ok (eval_validate redis_eval)"

definition eval_rejects_empty_job_id :: bool where
  "eval_rejects_empty_job_id \<longleftrightarrow> \<not> is_ok (eval_validate (redis_eval\<lparr>ev_job_id := []\<rparr>))"

definition eval_rejects_out_of_range_priority :: bool where
  "eval_rejects_out_of_range_priority \<longleftrightarrow> \<not> is_ok (eval_validate (redis_eval\<lparr>ev_priority := JOB_MAX_PRIORITY + 1\<rparr>))"

definition pending_eval_is_schedulable :: bool where
  "pending_eval_is_schedulable = eval_is_schedulable redis_eval"

definition blocked_eval_is_not_schedulable :: bool where
  "blocked_eval_is_not_schedulable \<longleftrightarrow> \<not> eval_is_schedulable (redis_eval\<lparr>ev_status := EBlocked\<rparr>)"

lemma eval_tests:
  "trigger_strings" "status_strings" "eval_terminal_statuses" "eval_non_terminal_statuses" "valid_eval_passes"
  "eval_rejects_empty_job_id" "eval_rejects_out_of_range_priority" "pending_eval_is_schedulable"
  "blocked_eval_is_not_schedulable"
  by code_simp+

end
