(* ===== verification/Job_Blocks.thy ===== *)
theory Job_Blocks
  imports Jobspec
begin

text \<open>
  The optional blocks of a job specification, each a data type with its validation:
  \<open>src/src/reschedule.rs\<close>, \<open>update.rs\<close>, \<open>volume.rs\<close>, \<open>network.rs\<close>, \<open>template.rs\<close>,
  \<open>service.rs\<close>, \<open>artifact.rs\<close>, \<open>scaling.rs\<close>, \<open>dispatch.rs\<close> and \<open>periodic.rs\<close>. Every
  validator is an instance of the locale \<open>validator\<close>: it accepts exactly the well-formed
  values. Beyond validation there are the clamp of a scaling policy, the acceptance of a
  dispatch request and the next launch of a periodic job, for which the \<open>cron\<close> and \<open>chrono\<close>
  crates are parameters.
\<close>

section \<open>Restart and reschedule policies\<close>

datatype restart_mode = RDelay | RFail

record restart_policy =
  rp_attempts :: u32
  rp_interval_secs :: u64
  rp_delay_secs :: u64
  rp_mode :: restart_mode

definition restart_validate :: "restart_policy \<Rightarrow> unit result" where
  "restart_validate p =
     and_then (guard_err (rp_attempts p > 0 \<and> rp_interval_secs p = 0)
       (Config ''restart interval must be > 0 when attempts > 0'')) (\<lambda>_.
     guard_err (rp_delay_secs p > rp_interval_secs p)
       (Config ''restart delay must not exceed interval''))"

definition restart_ok :: "restart_policy \<Rightarrow> bool" where
  "restart_ok p \<longleftrightarrow> rp_delay_secs p \<le> rp_interval_secs p \<and>
     (rp_interval_secs p = 0 \<longrightarrow> rp_attempts p = 0)"

interpretation restartv: validator restart_validate restart_ok
  by unfold_locales
    (auto simp: restart_validate_def restart_ok_def res_simps not_less word_gt_0)

datatype delay_function = Constant | Exponential | Fibonacci

record reschedule_policy =
  rs_attempts :: u32
  rs_interval_secs :: u64
  rs_delay_secs :: u64
  rs_delay_function :: delay_function
  rs_max_delay_secs :: u64
  rs_unlimited :: bool

definition reschedule_validate :: "reschedule_policy \<Rightarrow> unit result" where
  "reschedule_validate p =
     and_then (guard_err (\<not> rs_unlimited p \<and> rs_attempts p = 0)
       (Config ''bounded reschedule policy must have attempts > 0'')) (\<lambda>_.
     (case rs_delay_function p of
        Constant \<Rightarrow> Inr ()
      | _ \<Rightarrow> guard_err (rs_max_delay_secs p \<le> rs_delay_secs p)
               (Config ''max_delay_secs must exceed delay_secs for growing delay functions'')))"

definition reschedule_ok :: "reschedule_policy \<Rightarrow> bool" where
  "reschedule_ok p \<longleftrightarrow> (rs_unlimited p \<or> 0 < rs_attempts p) \<and>
     (rs_delay_function p = Constant \<or> rs_delay_secs p < rs_max_delay_secs p)"

interpretation reschedulev: validator reschedule_validate reschedule_ok
  by unfold_locales
    (auto simp: reschedule_validate_def reschedule_ok_def res_simps word_gt_0 not_le
       split: delay_function.splits)

section \<open>Rolling updates\<close>

datatype health_check = Checks | TaskStates | Manual

record update_strategy =
  us_max_parallel :: u32
  us_canary :: u32
  us_health_check :: health_check
  us_min_healthy_secs :: u64
  us_healthy_deadline_secs :: u64
  us_auto_revert :: bool
  us_auto_promote :: bool

definition update_validate :: "update_strategy \<Rightarrow> unit result" where
  "update_validate u =
     and_then (guard_err (us_max_parallel u = 0) (Config ''update max_parallel must be >= 1'')) (\<lambda>_.
     guard_err (us_healthy_deadline_secs u \<le> us_min_healthy_secs u)
       (Config (''update healthy_deadline_secs ('' @ show_nat (unat (us_healthy_deadline_secs u))
                  @ '') must exceed min_healthy_secs ('' @ show_nat (unat (us_min_healthy_secs u))
                  @ '')'')))"

definition uses_canary :: "update_strategy \<Rightarrow> bool" where
  "uses_canary u \<longleftrightarrow> us_canary u > 0"

definition update_ok :: "update_strategy \<Rightarrow> bool" where
  "update_ok u \<longleftrightarrow> 1 \<le> us_max_parallel u \<and> us_min_healthy_secs u < us_healthy_deadline_secs u"

lemma one_le_word: "1 \<le> (x :: 'a::len word) \<longleftrightarrow> x \<noteq> 0"
  by (metis linorder_not_less word_less_1)

interpretation updatev: validator update_validate update_ok
  by unfold_locales (auto simp: update_validate_def update_ok_def res_simps one_le_word not_le)

section \<open>Volumes\<close>

datatype volume_type = VHost | VCsi

record volume_request =
  vr_name :: string
  vr_volume_type :: volume_type
  vr_source :: string
  vr_read_only :: bool

definition volume_request_validate :: "volume_request \<Rightarrow> unit result" where
  "volume_request_validate v =
     and_then (guard_err (vr_name v = []) (Config ''volume request name cannot be empty'')) (\<lambda>_.
     guard_err (vr_source v = []) (Config ''volume request source cannot be empty''))"

record volume_mount =
  vm_volume :: string
  vm_destination :: string
  vm_read_only :: bool

definition volume_mount_validate :: "volume_mount \<Rightarrow> unit result" where
  "volume_mount_validate m =
     and_then (guard_err (vm_volume m = [])
       (Config ''volume mount volume name cannot be empty'')) (\<lambda>_.
     guard_err (\<not> prefix ''/'' (vm_destination m))
       (Config (''volume mount destination '' @ quoted (vm_destination m)
                  @ '' is not an absolute path'')))"

interpretation requestv: validator volume_request_validate "\<lambda>v. vr_name v \<noteq> [] \<and> vr_source v \<noteq> []"
  by unfold_locales (auto simp: volume_request_validate_def res_simps)

interpretation mountv: validator volume_mount_validate
  "\<lambda>m. vm_volume m \<noteq> [] \<and> (\<exists>p. vm_destination m = CHR ''/'' # p)"
  by unfold_locales (auto simp: volume_mount_validate_def res_simps prefix_def)

section \<open>Networks\<close>

datatype network_mode = NMHost | NMBridge | NMNone | NMCni string

record port =
  pt_label :: string
  pt_static_value :: "u16 option"
  pt_to :: "u16 option"

record network_resource =
  nr_mode :: network_mode
  nr_reserved_ports :: "port list"
  nr_dynamic_ports :: "port list"

text \<open>The loop over all ports, with the set of labels seen so far.\<close>

fun check_labels :: "string set \<Rightarrow> port list \<Rightarrow> unit result" where
  "check_labels labels [] = Inr ()"
| "check_labels labels (p # ps) =
     (if pt_label p = [] then Inl (Config ''port label cannot be empty'')
      else if pt_label p \<in> labels
      then Inl (Config (''duplicate port label '' @ quoted (pt_label p)))
      else check_labels (insert (pt_label p) labels) ps)"

definition check_reserved :: "port \<Rightarrow> unit result" where
  "check_reserved p =
     guard_err (pt_static_value p = None \<or> pt_static_value p = Some 0)
       (Config (''reserved port '' @ quoted (pt_label p) @ '' requires a non-zero static value''))"

definition network_validate :: "network_resource \<Rightarrow> unit result" where
  "network_validate n =
     and_then (check_labels {} (nr_reserved_ports n @ nr_dynamic_ports n)) (\<lambda>_.
     try_for_each check_reserved (nr_reserved_ports n))"

definition network_ok :: "network_resource \<Rightarrow> bool" where
  "network_ok n \<longleftrightarrow>
     (let labels = map pt_label (nr_reserved_ports n @ nr_dynamic_ports n)
      in distinct labels \<and> [] \<notin> set labels) \<and>
     (\<forall>p\<in>set (nr_reserved_ports n). \<exists>v. pt_static_value p = Some v \<and> v \<noteq> 0)"

lemma check_labels_ok:
  "check_labels labels ps = Inr () \<longleftrightarrow>
     distinct (map pt_label ps) \<and> [] \<notin> set (map pt_label ps) \<and> labels \<inter> set (map pt_label ps) = {}"
  by (induction labels ps rule: check_labels.induct) auto

interpretation reservedv: validator check_reserved "\<lambda>p. \<exists>v. pt_static_value p = Some v \<and> v \<noteq> 0"
  by unfold_locales (auto simp: check_reserved_def)

interpretation networkv: validator network_validate network_ok
  by unfold_locales
    (auto simp: network_validate_def network_ok_def res_simps check_labels_ok Let_def
       reservedv.validate_all_iff)

section \<open>Templates\<close>

datatype change_mode = Noop | Restart | Signal

record template =
  tp_source :: "string option"
  tp_embedded :: "string option"
  tp_destination :: string
  tp_change_mode :: change_mode
  tp_change_signal :: "string option"

definition template_validate :: "template \<Rightarrow> unit result" where
  "template_validate t =
     and_then (guard_err (tp_destination t = [])
       (Config ''template destination cannot be empty'')) (\<lambda>_.
     and_then (case (tp_source t, tp_embedded t) of
         (None, None) \<Rightarrow> Inl (Config ''template requires either a source path or embedded content'')
       | (Some _, Some _) \<Rightarrow> Inl (Config ''template cannot have both source and embedded content'')
       | _ \<Rightarrow> Inr ()) (\<lambda>_.
     guard_err (tp_change_mode t = Signal \<and> tp_change_signal t = None)
       (Config ''template with change_mode Signal requires a change_signal'')))"

definition template_ok :: "template \<Rightarrow> bool" where
  "template_ok t \<longleftrightarrow> tp_destination t \<noteq> [] \<and>
     (tp_source t = None) \<noteq> (tp_embedded t = None) \<and>
     (tp_change_mode t = Signal \<longrightarrow> tp_change_signal t \<noteq> None)"

interpretation templatev: validator template_validate template_ok
  by unfold_locales
    (auto simp: template_validate_def template_ok_def res_simps split: option.splits)

section \<open>Services\<close>

datatype check_type = Tcp | Http | Script | Grpc
datatype service_provider = Consul | NomadProvider

record service_check =
  sc_name :: string
  sc_check_type :: check_type
  sc_interval_secs :: u64
  sc_timeout_secs :: u64
  sc_path :: "string option"

definition service_check_validate :: "service_check \<Rightarrow> unit result" where
  "service_check_validate c =
     and_then (guard_err (sc_interval_secs c = 0) (Config ''check interval must be > 0'')) (\<lambda>_.
     and_then (guard_err (sc_timeout_secs c = 0 \<or> sc_timeout_secs c \<ge> sc_interval_secs c)
       (Config ''check timeout must be > 0 and < interval'')) (\<lambda>_.
     guard_err (sc_check_type c = Http \<and> sc_path c = None) (Config ''HTTP check requires a path'')))"

record service =
  sv_name :: string
  sv_port_label :: string
  sv_provider :: service_provider
  sv_tags :: "string list"
  sv_checks :: "service_check list"

definition service_validate :: "service \<Rightarrow> unit result" where
  "service_validate s =
     and_then (guard_err (sv_name s = []) (Config ''service name cannot be empty'')) (\<lambda>_.
     try_for_each service_check_validate (sv_checks s))"

definition service_check_ok :: "service_check \<Rightarrow> bool" where
  "service_check_ok c \<longleftrightarrow> 0 < sc_timeout_secs c \<and> sc_timeout_secs c < sc_interval_secs c \<and>
     (sc_check_type c = Http \<longrightarrow> sc_path c \<noteq> None)"

interpretation checkv: validator service_check_validate service_check_ok
  by unfold_locales
    (auto simp: service_check_validate_def service_check_ok_def res_simps word_gt_0 not_le)

interpretation servicev: validator service_validate
  "\<lambda>s. sv_name s \<noteq> [] \<and> (\<forall>c\<in>set (sv_checks s). service_check_ok c)"
  by unfold_locales (auto simp: service_validate_def res_simps checkv.validate_all_iff)

section \<open>Artifacts\<close>

record artifact =
  af_source :: string
  af_destination :: string
  af_checksum :: "string option"

definition artifact_validate :: "artifact \<Rightarrow> unit result" where
  "artifact_validate a =
     and_then (guard_err (af_source a = []) (Config ''artifact source cannot be empty'')) (\<lambda>_.
     (case af_checksum a of
        None \<Rightarrow> Inr ()
      | Some c \<Rightarrow> guard_err (CHR '':'' \<notin> set c) (Config ''checksum must be in type:value format'')))"

definition url_getter_get :: "artifact \<Rightarrow> string \<Rightarrow> unit result" where
  "url_getter_get a task_dir = Inr ()"

definition artifact_ok :: "artifact \<Rightarrow> bool" where
  "artifact_ok a \<longleftrightarrow> af_source a \<noteq> [] \<and>
     (\<forall>c. af_checksum a = Some c \<longrightarrow> (\<exists>t v. c = t @ CHR '':'' # v))"

interpretation artifactv: validator artifact_validate artifact_ok
  by unfold_locales
    (auto simp: artifact_validate_def artifact_ok_def res_simps in_set_conv_decomp
       split: option.splits)

section \<open>Scaling\<close>

record scaling_policy =
  sl_min :: u32
  sl_max :: u32
  sl_enabled :: bool

definition scaling_validate :: "scaling_policy \<Rightarrow> unit result" where
  "scaling_validate p =
     guard_err (sl_min p > sl_max p)
       (Config (''scaling min ('' @ show_nat (unat (sl_min p)) @ '') exceeds max (''
                  @ show_nat (unat (sl_max p)) @ '')''))"

text \<open>\<open>Ord::clamp\<close> panics when the bounds are the wrong way round; \<open>None\<close> is the panic.\<close>

definition scaling_clamp :: "scaling_policy \<Rightarrow> u32 \<Rightarrow> u32 option" where
  "scaling_clamp p desired =
     (if sl_min p > sl_max p then None
      else if desired < sl_min p then Some (sl_min p)
      else if desired > sl_max p then Some (sl_max p)
      else Some desired)"

interpretation scalingv: validator scaling_validate "\<lambda>p. sl_min p \<le> sl_max p"
  by unfold_locales (auto simp: scaling_validate_def)

lemma scaling_clamp_nearest:
  assumes "scaling_validate p = Inr ()"
  shows "\<exists>c. scaling_clamp p d = Some c \<and> sl_min p \<le> c \<and> c \<le> sl_max p \<and>
    (\<forall>c'. sl_min p \<le> c' \<and> c' \<le> sl_max p \<longrightarrow> \<bar>uint c - uint d\<bar> \<le> \<bar>uint c' - uint d\<bar>)"
  using assms
  by (auto simp: scaling_clamp_def scalingv.validate_iff not_less word_le_def word_less_def)

section \<open>Dispatching a parameterized job\<close>

datatype payload_mode = Optional | Required | Forbidden

record parameterized_job =
  pz_meta_required :: "string list"
  pz_meta_optional :: "string list"
  pz_payload :: payload_mode

record dispatch_request =
  dr_meta :: "(string, string) hashmap"
  dr_payload :: "u8 list option"

definition payload_check :: "payload_mode \<Rightarrow> u8 list option \<Rightarrow> unit result" where
  "payload_check mode payload =
     (case mode of
        Forbidden \<Rightarrow> guard_err (payload \<noteq> None) (Config ''dispatch payload is forbidden by the job spec'')
      | Required \<Rightarrow> guard_err (payload = None) (Config ''dispatch payload is required by the job spec'')
      | Optional \<Rightarrow> Inr ())"

definition validate_dispatch :: "parameterized_job \<Rightarrow> dispatch_request \<Rightarrow> unit result" where
  "validate_dispatch p request =
     and_then (try_for_each (\<lambda>required.
         guard_err (hm_get (dr_meta request) required = None)
           (Config (''dispatch missing required meta key '' @ quoted required))) (pz_meta_required p)) (\<lambda>_.
     let known = set (pz_meta_required p @ pz_meta_optional p) in
     and_then (try_for_each (\<lambda>key.
         guard_err (key \<notin> known)
           (Config (''dispatch meta key '' @ quoted key
                      @ '' is not declared in the parameterized job''))) (hm_keys (dr_meta request))) (\<lambda>_.
     payload_check (pz_payload p) (dr_payload request)))"

definition dispatch_ok :: "parameterized_job \<Rightarrow> dispatch_request \<Rightarrow> bool" where
  "dispatch_ok p r \<longleftrightarrow>
     set (pz_meta_required p) \<subseteq> fst ` set (dr_meta r) \<and>
     fst ` set (dr_meta r) \<subseteq> set (pz_meta_required p) \<union> set (pz_meta_optional p) \<and>
     (pz_payload p = Forbidden \<longrightarrow> dr_payload r = None) \<and>
     (pz_payload p = Required \<longrightarrow> dr_payload r \<noteq> None)"

interpretation dispatchv: validator "validate_dispatch p" "dispatch_ok p" for p
  by unfold_locales
    (auto simp: validate_dispatch_def dispatch_ok_def res_simps try_for_each_ok Let_def
       payload_check_def map_of_eq_None_iff split: payload_mode.splits)

section \<open>Periodic jobs\<close>

text \<open>
  The crates \<open>cron\<close> and \<open>chrono\<close>: parsing a spec gives a schedule or an error text;
  \<open>upcoming\<close> lists the firing times of a schedule after the present moment in order (the
  calendar of the crate ends, so the list is finite); a timestamp may be out of range.
\<close>

record 's cron =
  schedule_from_str :: "string \<Rightarrow> string + 's"
  upcoming :: "'s \<Rightarrow> int \<Rightarrow> int list"
  from_timestamp :: "int \<Rightarrow> int option"

record periodic_config =
  pc_spec :: string
  pc_time_zone :: string
  pc_prohibit_overlap :: bool

definition periodic_validate :: "'s cron \<Rightarrow> periodic_config \<Rightarrow> unit result" where
  "periodic_validate X p =
     and_then (case schedule_from_str X (pc_spec p) of
         Inl e \<Rightarrow> Inl (Config (''invalid cron spec '' @ quoted (pc_spec p) @ '': '' @ e))
       | Inr _ \<Rightarrow> Inr ()) (\<lambda>_.
     guard_err (pc_time_zone p = []) (Config ''periodic time_zone cannot be empty''))"

definition periodic_next :: "'s cron \<Rightarrow> int \<Rightarrow> periodic_config \<Rightarrow> int \<Rightarrow> int result" where
  "periodic_next X now p after_unix =
     and_then (case schedule_from_str X (pc_spec p) of
         Inl e \<Rightarrow> Inl (Config (''invalid cron spec: '' @ e))
       | Inr s \<Rightarrow> Inr s) (\<lambda>schedule.
     and_then (case from_timestamp X after_unix of
         None \<Rightarrow> Inl (Runtime ''invalid unix timestamp'')
       | Some t \<Rightarrow> Inr t) (\<lambda>after.
     case List.find (\<lambda>t. t > after) (upcoming X schedule now) of
       None \<Rightarrow> Inl (Runtime ''no upcoming firing time'')
     | Some t \<Rightarrow> Inr t))"

interpretation periodicv: validator "periodic_validate X"
  "\<lambda>p. is_ok (schedule_from_str X (pc_spec p)) \<and> pc_time_zone p \<noteq> []" for X
  by unfold_locales (auto simp: periodic_validate_def res_simps is_ok_def split: sum.splits)

text \<open>
  What the crates document: \<open>upcoming\<close> lists the firing times after now, each once and in
  ascending order, and a timestamp in range denotes itself.
\<close>

definition cron_ok :: "'s cron \<Rightarrow> ('s \<Rightarrow> int set) \<Rightarrow> bool" where
  "cron_ok X fires \<longleftrightarrow>
     (\<forall>s now. sorted_wrt (<) (upcoming X s now) \<and> set (upcoming X s now) = {t \<in> fires s. now < t}) \<and>
     (\<forall>t t'. from_timestamp X t = Some t' \<longrightarrow> t' = t)"

lemma find_least:
  fixes xs :: "int list"
  assumes "sorted_wrt (<) xs"
  shows "List.find P xs = Some t \<longleftrightarrow> t \<in> set xs \<and> P t \<and> (\<forall>u\<in>set xs. P u \<longrightarrow> t \<le> u)"
  using assms by (induction xs) (auto intro: less_imp_le dest: not_le_imp_less leD)

text \<open>The next launch of a periodic job is the earliest firing time of its schedule that lies after
  the given moment and after the present one; the search starts at the present moment, so a
  launch between the given moment and now is never returned. It fails exactly when there is no
  such time, when the spec does not parse or when the moment is out of range.\<close>

theorem periodic_next_exact:
  assumes "cron_ok X fires"
    and "schedule_from_str X (pc_spec p) = Inr s" and "from_timestamp X after_unix = Some a"
  shows "(periodic_next X now p after_unix = Inr t \<longleftrightarrow>
            t \<in> fires s \<and> max now after_unix < t \<and>
            (\<forall>u\<in>fires s. max now after_unix < u \<longrightarrow> t \<le> u)) \<and>
         ((\<exists>e. periodic_next X now p after_unix = Inl e) \<longleftrightarrow>
            (\<forall>u\<in>fires s. u \<le> max now after_unix))"
proof (rule conjI)
  let ?xs = "upcoming X s now"
  have a: "a = after_unix"
    and xs: "sorted_wrt (<) ?xs" "set ?xs = {t \<in> fires s. now < t}"
    using assms by (auto simp: cron_ok_def)
  show "periodic_next X now p after_unix = Inr t \<longleftrightarrow>
           t \<in> fires s \<and> max now after_unix < t \<and>
           (\<forall>u\<in>fires s. max now after_unix < u \<longrightarrow> t \<le> u)"
    using assms(2,3) a xs(2) find_least [OF xs(1), of "\<lambda>t. t > after_unix" t]
    by (auto simp: periodic_next_def split: option.splits)
  show "(\<exists>e. periodic_next X now p after_unix = Inl e) \<longleftrightarrow> (\<forall>u\<in>fires s. u \<le> max now after_unix)"
  proof (cases "List.find (\<lambda>t. t > after_unix) ?xs")
    case None
    then have "periodic_next X now p after_unix = Inl (Runtime ''no upcoming firing time'')"
      using assms(2,3) a by (simp add: periodic_next_def)
    moreover have "\<forall>u\<in>fires s. u \<le> max now after_unix"
      using None xs(2) by (auto simp: find_None_iff not_less le_max_iff_disj)
    ultimately show ?thesis by blast
  next
    case (Some u)
    then have "u \<in> fires s" "now < u" "after_unix < u"
      using find_least [OF xs(1)] xs(2) by auto
    then show ?thesis
      using Some assms(2,3) a by (auto simp: periodic_next_def not_le intro!: bexI [of _ u])
  qed
qed

text \<open>A schedule that fires at every hundred up to a thousand, in a calendar that ends there.\<close>

definition hundreds :: "unit cron" where
  "hundreds =
     \<lparr>schedule_from_str = (\<lambda>s. if s = ''hundreds'' then Inr () else Inl ''unknown''),
      upcoming = (\<lambda>_ now. filter (\<lambda>t. now < t) (map (\<lambda>i. 100 * int i) [0..<11])),
      from_timestamp = Some\<rparr>"

lemma hundreds_ok: "cron_ok hundreds (\<lambda>_. set (map (\<lambda>i. 100 * int i) [0..<11]))"
  by (auto simp: cron_ok_def hundreds_def sorted_wrt_filter sorted_wrt_map)

lemma periodic_next_exact_witness:
  "periodic_next hundreds 250 \<lparr>pc_spec = ''hundreds'', pc_time_zone = ''UTC'', pc_prohibit_overlap = False\<rparr> 50
     = Inr 300"
  by (subst periodic_next_exact [OF hundreds_ok, where s = "()" and a = 50, THEN conjunct1])
    (auto simp: hundreds_def upt_rec)

end
