(* ===== verification/Runner.thy ===== *)
theory Runner
  imports Job_Blocks Entities
begin

text \<open>
  The client side of an allocation: the task drivers (\<open>src/src/driver.rs\<close>), the task runner
  (\<open>src/src/taskrunner.rs\<close>) and the allocation runner (\<open>src/src/allocrunner.rs\<close>), above a
  model of what \<open>std::process\<close> does to the operating system's process table.
\<close>

section \<open>Processes\<close>

text \<open>
  A process is live or dead with the success of its exit status; both remember the process
  group. A dead process keeps its entry until its parent waits for it. The record holds how the
  system answers: which pid a spawn gets (or the text of the error), whether sending a signal or
  waiting for a child fails, and whether the \<open>kill\<close> program can be run.
\<close>

datatype proc = Live nat | Dead nat bool

fun proc_group :: "proc \<Rightarrow> nat" where
  "proc_group (Live g) = g"
| "proc_group (Dead g _) = g"

fun killed :: "proc \<Rightarrow> proc" where
  "killed (Live g) = Dead g False"
| "killed (Dead g ok) = Dead g ok"

record os =
  os_procs :: "(nat, proc) hashmap"
  os_spawn :: "string \<Rightarrow> string list \<Rightarrow> (nat, proc) hashmap \<Rightarrow> string + nat"
  os_kill_err :: "nat \<Rightarrow> string option"
  os_wait_err :: "nat \<Rightarrow> string option"
  os_kill_tool :: bool

text \<open>\<open>Command::spawn\<close> with a process group of its own; the error converts to \<open>Error::Io\<close>.\<close>

definition spawn :: "string \<Rightarrow> string list \<Rightarrow> os \<Rightarrow> nat result \<times> os" where
  "spawn cmd args os =
     (case os_spawn os cmd args (os_procs os) of
        Inl e \<Rightarrow> (Inl (Io e), os)
      | Inr pid \<Rightarrow> (Inr pid, os\<lparr>os_procs := hm_insert pid (Live pid) (os_procs os)\<rparr>))"

text \<open>\<open>Child::kill\<close>, \<open>Child::wait\<close> with its result ignored, and \<open>Child::try_wait\<close>.\<close>

definition child_kill :: "nat \<Rightarrow> os \<Rightarrow> unit result \<times> os" where
  "child_kill pid os =
     (case os_kill_err os pid of
        Some e \<Rightarrow> (Inl (Io e), os)
      | None \<Rightarrow> (Inr (), os\<lparr>os_procs := map (\<lambda>(p, s). (p, if p = pid then killed s else s)) (os_procs os)\<rparr>))"

definition child_wait :: "nat \<Rightarrow> os \<Rightarrow> os" where
  "child_wait pid os =
     (case os_wait_err os pid of
        Some e \<Rightarrow> os
      | None \<Rightarrow> os\<lparr>os_procs := hm_remove pid (os_procs os)\<rparr>)"

definition try_wait :: "nat \<Rightarrow> os \<Rightarrow> bool option result \<times> os" where
  "try_wait pid os =
     (case os_wait_err os pid of
        Some e \<Rightarrow> (Inl (Io e), os)
      | None \<Rightarrow>
          (case hm_get (os_procs os) pid of
             None \<Rightarrow> (Inl (Io ''No child processes (os error 10)''), os)
           | Some (Live g) \<Rightarrow> (Inr None, os)
           | Some (Dead g ok) \<Rightarrow> (Inr (Some ok), os\<lparr>os_procs := hm_remove pid (os_procs os)\<rparr>)))"

section \<open>Drivers\<close>

datatype task_state = TPending | TRunning | TExited | TFailed | TUnknown

record driver_capabilities =
  image_based :: bool
  isolated :: bool

record task_handle =
  th_id :: string
  th_state :: task_state

text \<open>
  The \<open>exec\<close> driver maps the id of a handle to its child, which is its pid here. A poisoned
  mutex is entered like any other (\<open>into_inner\<close>), so the lock never fails.
\<close>

record exec_driver =
  ed_running :: "(string, nat) hashmap"

definition exec_default :: exec_driver where
  "exec_default = \<lparr>ed_running = []\<rparr>"

definition exec_name :: string where "exec_name = ''exec''"
definition raw_exec_name :: string where "raw_exec_name = ''raw_exec''"
definition docker_name :: string where "docker_name = ''docker''"

definition exec_capabilities :: driver_capabilities where
  "exec_capabilities = \<lparr>image_based = False, isolated = False\<rparr>"

definition raw_exec_capabilities :: driver_capabilities where
  "raw_exec_capabilities = \<lparr>image_based = False, isolated = False\<rparr>"

definition docker_capabilities :: driver_capabilities where
  "docker_capabilities = \<lparr>image_based = True, isolated = True\<rparr>"

fun as_str :: "json \<Rightarrow> string option" where
  "as_str (String s) = Some s"
| "as_str _ = None"

definition exec_command :: "task \<Rightarrow> string result" where
  "exec_command t =
     (case Option.bind (hm_get (tk_config t) ''command'') as_str of
        None \<Rightarrow> Inl (Runtime ''exec driver: missing `command` in task config'')
      | Some c \<Rightarrow> Inr c)"

definition exec_args :: "task \<Rightarrow> string list result" where
  "exec_args t =
     (case hm_get (tk_config t) ''args'' of
        None \<Rightarrow> Inr []
      | Some (Array vs) \<Rightarrow>
          try_map (\<lambda>v. case as_str v of
              None \<Rightarrow> Inl (Runtime ''exec driver: `args` entries must be strings'')
            | Some s \<Rightarrow> Inr s) vs
      | Some _ \<Rightarrow> Inl (Runtime ''exec driver: `args` must be an array''))"

definition exec_start_task ::
    "task \<Rightarrow> exec_driver \<times> os \<Rightarrow> task_handle result \<times> exec_driver \<times> os" where
  "exec_start_task t =
     sbind (slift (exec_command t)) (\<lambda>command.
     sbind (slift (exec_args t)) (\<lambda>args (d, os).
       case spawn command args os of
         (Inl e, os') \<Rightarrow> (Inl e, d, os')
       | (Inr pid, os') \<Rightarrow>
           (let hid = show_nat pid
            in (Inr \<lparr>th_id = hid, th_state = TRunning\<rparr>,
                d\<lparr>ed_running := hm_insert hid pid (ed_running d)\<rparr>, os'))))"

text \<open>\<open>kill -KILL -<pgid>\<close>: every live process of the group dies, if the program runs.\<close>

definition kill_tree :: "nat \<Rightarrow> os \<Rightarrow> os" where
  "kill_tree pid os =
     (if os_kill_tool os
      then os\<lparr>os_procs := map (\<lambda>(p, s). (p, if proc_group s = pid then killed s else s)) (os_procs os)\<rparr>
      else os)"

definition exec_stop_task ::
    "task_handle \<Rightarrow> exec_driver \<times> os \<Rightarrow> unit result \<times> exec_driver \<times> os" where
  "exec_stop_task h = (\<lambda>(d, os).
     case hm_get (ed_running d) (th_id h) of
       None \<Rightarrow> (Inr (), d, os)
     | Some child \<Rightarrow>
         (let d' = d\<lparr>ed_running := hm_remove (th_id h) (ed_running d)\<rparr>
          in case child_kill child (kill_tree child os) of
               (Inl e, os') \<Rightarrow> (Inl e, d', os')
             | (Inr _, os') \<Rightarrow> (Inr (), d', child_wait child os')))"

definition exec_inspect_task ::
    "task_handle \<Rightarrow> exec_driver \<times> os \<Rightarrow> task_state result \<times> exec_driver \<times> os" where
  "exec_inspect_task h = (\<lambda>(d, os).
     case hm_get (ed_running d) (th_id h) of
       None \<Rightarrow> (Inr TExited, d, os)
     | Some child \<Rightarrow>
         (case try_wait child os of
            (Inl e, os') \<Rightarrow> (Inl e, d, os')
          | (Inr None, os') \<Rightarrow> (Inr TRunning, d, os')
          | (Inr (Some ok), os') \<Rightarrow>
              (Inr (if ok then TExited else TFailed),
               d\<lparr>ed_running := hm_remove (th_id h) (ed_running d)\<rparr>, os')))"

text \<open>The stub drivers: a fixed handle, nothing to stop, and the state the handle carries.\<close>

definition raw_exec_start_task :: "task \<Rightarrow> task_handle result" where
  "raw_exec_start_task t = Inr \<lparr>th_id = ''raw-exec-h1'', th_state = TRunning\<rparr>"

definition raw_exec_stop_task :: "task_handle \<Rightarrow> unit result" where
  "raw_exec_stop_task h = Inr ()"

definition raw_exec_inspect_task :: "task_handle \<Rightarrow> task_state result" where
  "raw_exec_inspect_task h = Inr (th_state h)"

definition docker_start_task :: "task \<Rightarrow> task_handle result" where
  "docker_start_task t = Inr \<lparr>th_id = ''docker-h1'', th_state = TRunning\<rparr>"

definition docker_stop_task :: "task_handle \<Rightarrow> unit result" where
  "docker_stop_task h = Inr ()"

definition docker_inspect_task :: "task_handle \<Rightarrow> task_state result" where
  "docker_inspect_task h = Inr (th_state h)"

section \<open>Task runners\<close>

record task_runner =
  tr_task :: task
  tr_driver :: exec_driver
  tr_handle :: "task_handle option"
  tr_state :: task_state
  tr_restart_count :: u32
  tr_policy :: restart_policy

definition task_runner_new :: "task \<Rightarrow> task_runner" where
  "task_runner_new t =
     \<lparr>tr_task = t, tr_driver = exec_default, tr_handle = None, tr_state = TPending,
      tr_restart_count = 0,
      tr_policy = \<lparr>rp_attempts = 2, rp_interval_secs = 1800, rp_delay_secs = 15, rp_mode = RFail\<rparr>\<rparr>"

definition with_restart_policy :: "restart_policy \<Rightarrow> task_runner \<Rightarrow> task_runner" where
  "with_restart_policy p r = r\<lparr>tr_policy := p\<rparr>"

definition tr_start :: "task_runner \<times> os \<Rightarrow> unit result \<times> task_runner \<times> os" where
  "tr_start = (\<lambda>(r, os).
     if tr_handle r \<noteq> None
     then (Inl (Runtime (''task '' @ quoted (tk_name (tr_task r)) @ '' already started'')), r, os)
     else if tk_driver (tr_task r) \<noteq> exec_name
     then (Inl (Runtime (''unsupported task driver '' @ quoted (tk_driver (tr_task r)))), r, os)
     else case exec_start_task (tr_task r) (tr_driver r, os) of
            (Inl e, d, os') \<Rightarrow> (Inl e, r\<lparr>tr_driver := d\<rparr>, os')
          | (Inr h, d, os') \<Rightarrow>
              (Inr (), r\<lparr>tr_driver := d, tr_state := th_state h, tr_handle := Some h\<rparr>, os'))"

definition tr_poll :: "task_runner \<times> os \<Rightarrow> task_state result \<times> task_runner \<times> os" where
  "tr_poll = (\<lambda>(r, os).
     if tr_state r \<in> {TExited, TFailed} then (Inr (tr_state r), r, os)
     else case tr_handle r of
            None \<Rightarrow> (Inr (tr_state r), r, os)
          | Some h \<Rightarrow>
              (case exec_inspect_task h (tr_driver r, os) of
                 (Inl e, d, os') \<Rightarrow> (Inl e, r\<lparr>tr_driver := d\<rparr>, os')
               | (Inr s, d, os') \<Rightarrow> (Inr s, r\<lparr>tr_driver := d, tr_state := s\<rparr>, os')))"

definition tr_stop :: "task_runner \<times> os \<Rightarrow> unit result \<times> task_runner \<times> os" where
  "tr_stop = (\<lambda>(r, os).
     case tr_handle r of
       None \<Rightarrow> (Inr (), r\<lparr>tr_state := TExited\<rparr>, os)
     | Some h \<Rightarrow>
         (case exec_stop_task h (tr_driver r, os) of
            (Inl e, d, os') \<Rightarrow> (Inl e, r\<lparr>tr_driver := d\<rparr>, os')
          | (Inr _, d, os') \<Rightarrow> (Inr (), r\<lparr>tr_driver := d, tr_state := TExited\<rparr>, os')))"

definition handle_exit :: "bool \<Rightarrow> task_runner \<Rightarrow> bool \<times> task_runner" where
  "handle_exit success r =
     (if success then (False, r\<lparr>tr_state := TExited\<rparr>)
      else if tr_restart_count r < rp_attempts (tr_policy r)
      then (True, r\<lparr>tr_restart_count := tr_restart_count r + 1, tr_state := TPending, tr_handle := None\<rparr>)
      else (False, r\<lparr>tr_state := TFailed\<rparr>))"

section \<open>Allocation runners\<close>

record alloc_runner =
  ar_alloc :: allocation
  ar_runners :: "task_runner list"

definition alloc_runner_new :: "allocation \<Rightarrow> task list \<Rightarrow> alloc_runner" where
  "alloc_runner_new a ts = \<lparr>ar_alloc = a, ar_runners = map task_runner_new ts\<rparr>"

definition ar_status :: "alloc_runner \<Rightarrow> client_status" where
  "ar_status a = al_client_status (ar_alloc a)"

definition set_status :: "client_status \<Rightarrow> alloc_runner \<Rightarrow> alloc_runner" where
  "set_status s a = a\<lparr>ar_alloc := (ar_alloc a)\<lparr>al_client_status := s\<rparr>\<rparr>"

text \<open>\<open>iter_mut().map(poll).collect()\<close>: the collection stops at the first error.\<close>

fun poll_all :: "task_runner list \<times> os \<Rightarrow> task_state list result \<times> task_runner list \<times> os" where
  "poll_all ([], os) = (Inr [], [], os)"
| "poll_all (r # rs, os) =
     (case tr_poll (r, os) of
        (Inl e, r', os') \<Rightarrow> (Inl e, r' # rs, os')
      | (Inr s, r', os') \<Rightarrow>
          (case poll_all (rs, os') of
             (Inl e, rs', os'') \<Rightarrow> (Inl e, r' # rs', os'')
           | (Inr ss, rs', os'') \<Rightarrow> (Inr (s # ss), r' # rs', os'')))"

definition task_states :: "alloc_runner \<times> os \<Rightarrow> task_state list result \<times> alloc_runner \<times> os" where
  "task_states = (\<lambda>(a, os).
     case poll_all (ar_runners a, os) of (res, rs, os') \<Rightarrow> (res, a\<lparr>ar_runners := rs\<rparr>, os'))"

definition refresh_status :: "alloc_runner \<times> os \<Rightarrow> client_status result \<times> alloc_runner \<times> os" where
  "refresh_status = (\<lambda>(a, os).
     if ar_status a \<in> {CComplete, CFailed} then (Inr (ar_status a), a, os)
     else case task_states (a, os) of
            (Inl e, a', os') \<Rightarrow> (Inl e, a', os')
          | (Inr states, a', os') \<Rightarrow>
              (let a'' = (if TFailed \<in> set states then set_status CFailed a'
                          else if states \<noteq> [] \<and> list_all (\<lambda>s. s = TExited) states
                          then set_status CComplete a' else a')
               in (Inr (ar_status a''), a'', os')))"

text \<open>Rolling back: the started runners are stopped last first, errors ignored.\<close>

fun stop_all :: "task_runner list \<times> os \<Rightarrow> error list \<times> task_runner list \<times> os" where
  "stop_all ([], os) = ([], [], os)"
| "stop_all (r # rs, os) =
     (case tr_stop (r, os) of
        (res, r', os') \<Rightarrow>
          (case stop_all (rs, os') of
             (es, rs', os'') \<Rightarrow> ((case res of Inl e \<Rightarrow> e # es | Inr _ \<Rightarrow> es), r' # rs', os'')))"

text \<open>\<open>start_from started rest\<close> is the loop of \<open>run\<close> with \<open>runners[..idx]\<close> and \<open>runners[idx..]\<close>.\<close>

fun start_from ::
    "task_runner list \<Rightarrow> task_runner list \<Rightarrow> os \<Rightarrow> unit result \<times> task_runner list \<times> os" where
  "start_from started [] os = (Inr (), started, os)"
| "start_from started (r # rest) os =
     (case tr_start (r, os) of
        (Inr _, r', os') \<Rightarrow> start_from (started @ [r']) rest os'
      | (Inl e, r', os') \<Rightarrow>
          (case stop_all (rev started, os') of
             (_, stopped, os'') \<Rightarrow> (Inl e, rev stopped @ r' # rest, os'')))"

definition ar_run :: "alloc_runner \<times> os \<Rightarrow> unit result \<times> alloc_runner \<times> os" where
  "ar_run = (\<lambda>(a, os).
     case start_from [] (ar_runners a) os of
       (Inl e, rs, os') \<Rightarrow> (Inl e, set_status CFailed (a\<lparr>ar_runners := rs\<rparr>), os')
     | (Inr _, rs, os') \<Rightarrow> (Inr (), set_status CRunning (a\<lparr>ar_runners := rs\<rparr>), os'))"

text \<open>\<open>destroy\<close> stops every runner and returns the first error, if any.\<close>

definition ar_destroy :: "alloc_runner \<times> os \<Rightarrow> unit result \<times> alloc_runner \<times> os" where
  "ar_destroy = (\<lambda>(a, os).
     case stop_all (ar_runners a, os) of
       (es, rs, os') \<Rightarrow>
         ((case es of [] \<Rightarrow> Inr () | e # _ \<Rightarrow> Inl e),
          set_status CComplete (a\<lparr>ar_runners := rs\<rparr>), os'))"

section \<open>The restart policy\<close>

text \<open>
  Everything that can happen to a runner, with the number of restarts it has granted: its
  operations, the exits it is told of, and anything the system does in between.
\<close>

inductive runner_step :: "task_runner \<times> os \<times> nat \<Rightarrow> task_runner \<times> os \<times> nat \<Rightarrow> bool" where
  rs_start: "tr_start (r, os) = (res, r', os') \<Longrightarrow> runner_step (r, os, n) (r', os', n)"
| rs_poll: "tr_poll (r, os) = (st, r', os') \<Longrightarrow> runner_step (r, os, n) (r', os', n)"
| rs_stop: "tr_stop (r, os) = (res, r', os') \<Longrightarrow> runner_step (r, os, n) (r', os', n)"
| rs_exit: "handle_exit ok r = (again, r') \<Longrightarrow> runner_step (r, os, n) (r', os, if again then Suc n else n)"
| rs_env: "runner_step (r, os, n) (r, os', n)"

definition runner_init :: "restart_policy \<Rightarrow> task_runner \<times> os \<times> nat \<Rightarrow> bool" where
  "runner_init p s \<longleftrightarrow> (\<exists>t os. s = (with_restart_policy p (task_runner_new t), os, 0))"

definition granted_ok :: "restart_policy \<Rightarrow> task_runner \<times> os \<times> nat \<Rightarrow> bool" where
  "granted_ok p = (\<lambda>(r, os, n).
     tr_policy r = p \<and> n = unat (tr_restart_count r) \<and> n \<le> unat (rp_attempts p))"

lemma tr_start_keeps:
  "tr_start (r, os) = (res, r', os') \<Longrightarrow>
     tr_policy r' = tr_policy r \<and> tr_restart_count r' = tr_restart_count r"
  by (auto simp: tr_start_def split: if_splits prod.splits sum.splits)

lemma tr_poll_keeps:
  "tr_poll (r, os) = (res, r', os') \<Longrightarrow>
     tr_policy r' = tr_policy r \<and> tr_restart_count r' = tr_restart_count r"
  by (auto simp: tr_poll_def split: if_splits option.splits prod.splits sum.splits)

lemma tr_stop_keeps:
  "tr_stop (r, os) = (res, r', os') \<Longrightarrow>
     tr_policy r' = tr_policy r \<and> tr_restart_count r' = tr_restart_count r"
  by (auto simp: tr_stop_def split: if_splits option.splits prod.splits sum.splits)

lemma unat_u32_Suc: "(x :: u32) < y \<Longrightarrow> unat (x + 1) = Suc (unat x)"
proof -
  assume "x < y"
  then have "x \<noteq> - 1" using word_n1_ge [of y] by auto
  then show ?thesis by (metis add.commute add_eq_0_iff unatSuc)
qed

lemma handle_exit_granted:
  assumes "handle_exit ok r = (again, r')" and "granted_ok p (r, os, n)"
  shows "granted_ok p (r', os', if again then Suc n else n)"
  using assms
  by (auto simp: handle_exit_def granted_ok_def unat_u32_Suc word_less_nat_alt split: if_splits)

interpretation granted: inductive_invariant "runner_init p" runner_step "granted_ok p" for p
proof unfold_locales
  fix s assume "runner_init p s"
  then show "granted_ok p s"
    by (auto simp: runner_init_def granted_ok_def with_restart_policy_def task_runner_new_def)
next
  fix s s' assume "granted_ok p s" "runner_step s s'"
  from this(2,1) show "granted_ok p s'"
  proof cases
    case (rs_exit ok r again r' os n)
    with handle_exit_granted show ?thesis using \<open>granted_ok p s\<close> by blast
  qed (auto simp: granted_ok_def dest: tr_start_keeps tr_poll_keeps tr_stop_keeps)
qed

text \<open>C24. The restart cap: however a task runner is started, polled, stopped and told of exits, and
  whatever the system does in between, it never grants more restarts than its policy allows; a
  failed exit is answered by a restart exactly while fewer have been granted, with a runner that
  can be started again, and by marking the task failed from then on; a clean exit is final.\<close>

theorem restart_cap:
  assumes "reachable (runner_init p) runner_step (r, os, n)"
  shows "n = unat (tr_restart_count r) \<and> n \<le> unat (rp_attempts p) \<and>
    (fst (handle_exit False r) \<longleftrightarrow> n < unat (rp_attempts p)) \<and>
    (n < unat (rp_attempts p) \<longrightarrow>
       tr_handle (snd (handle_exit False r)) = None \<and> tr_state (snd (handle_exit False r)) = TPending) \<and>
    (n = unat (rp_attempts p) \<longrightarrow> tr_state (snd (handle_exit False r)) = TFailed) \<and>
    \<not> fst (handle_exit True r)"
  using granted.reachable_inv [OF assms]
  by (auto simp: granted_ok_def handle_exit_def word_less_nat_alt)

lemma restart_cap_witness:
  "\<exists>r os. reachable (runner_init \<lparr>rp_attempts = 1, rp_interval_secs = 60, rp_delay_secs = 1, rp_mode = RFail\<rparr>)
            runner_step (r, os, 1) \<and>
          \<not> fst (handle_exit False r)"
proof -
  let ?p = "\<lparr>rp_attempts = 1, rp_interval_secs = 60, rp_delay_secs = 1, rp_mode = RFail\<rparr>"
  let ?r = "with_restart_policy ?p (task_runner_new undefined)"
  let ?r' = "snd (handle_exit False ?r)"
  have start: "reachable (runner_init ?p) runner_step (?r, undefined, 0)"
    by (rule reach_init) (auto simp: runner_init_def)
  have "handle_exit False ?r = (True, ?r')"
    by (simp add: handle_exit_def with_restart_policy_def task_runner_new_def)
  then have "runner_step (?r, undefined, 0) (?r', undefined, if True then Suc 0 else 0)"
    by (rule rs_exit)
  with start have "reachable (runner_init ?p) runner_step (?r', undefined, 1)"
    using reach_step by fastforce
  with restart_cap [OF this] show ?thesis by auto
qed

section \<open>Starting and stopping an allocation\<close>

text \<open>
  What the system promises: a spawned process gets a pid that no process and no process group
  has, and children can be signalled and waited for.
\<close>

definition fresh_pids :: "os \<Rightarrow> bool" where
  "fresh_pids os \<longleftrightarrow>
     (\<forall>c args ps pid. os_spawn os c args ps = Inr pid \<longrightarrow>
        (\<forall>(q, s)\<in>set ps. q \<noteq> pid \<and> proc_group s \<noteq> pid))"

definition obedient :: "os \<Rightarrow> bool" where
  "obedient os \<longleftrightarrow> (\<forall>p. os_kill_err os p = None \<and> os_wait_err os p = None)"

definition supervises :: "task_runner \<Rightarrow> nat \<Rightarrow> bool" where
  "supervises r pid \<longleftrightarrow>
     (\<exists>h. tr_handle r = Some h \<and> th_id h = show_nat pid) \<and>
     hm_get (ed_running (tr_driver r)) (show_nat pid) = Some pid \<and> tr_state r = TRunning"

definition unstarted :: "task_runner \<Rightarrow> bool" where
  "unstarted r \<longleftrightarrow> tr_handle r = None"

abbreviation with_procs :: "(nat, proc) hashmap \<Rightarrow> os \<Rightarrow> os" where
  "with_procs ps os \<equiv> os\<lparr>os_procs := ps\<rparr>"

lemma exec_start_task_cases:
  obtains (start_err) e where "exec_start_task t (d, os) = (Inl e, d, os)"
  | (start_ok) pid c args where "os_spawn os c args (os_procs os) = Inr pid"
      "exec_start_task t (d, os) =
         (Inr \<lparr>th_id = show_nat pid, th_state = TRunning\<rparr>,
          d\<lparr>ed_running := hm_insert (show_nat pid) pid (ed_running d)\<rparr>,
          with_procs (hm_insert pid (Live pid) (os_procs os)) os)"
  by (cases "exec_command t"; cases "exec_args t";
      cases "os_spawn os (projr (exec_command t)) (projr (exec_args t)) (os_procs os)")
    (auto simp: exec_start_task_def sbind_def slift_def spawn_def Let_def)

lemma tr_start_fresh:
  assumes "fresh_pids os" and "unstarted r"
  obtains (err) e where "tr_start (r, os) = (Inl e, r, os)"
  | (ok) pid r' where "\<forall>(q, s)\<in>set (os_procs os). q \<noteq> pid \<and> proc_group s \<noteq> pid"
      "tr_start (r, os) = (Inr (), r', with_procs (os_procs os @ [(pid, Live pid)]) os)"
      "supervises r' pid" "tr_task r' = tr_task r"
proof (cases "tk_driver (tr_task r) = exec_name")
  case False
  with assms(2) err show thesis by (auto simp: tr_start_def unstarted_def)
next
  case True
  show thesis
  proof (cases rule: exec_start_task_cases [of "tr_task r" "tr_driver r" os])
    case (start_err e)
    with True assms(2) err [of e] show thesis by (auto simp: tr_start_def unstarted_def)
  next
    case (start_ok pid c args)
    with assms(1) have new: "\<forall>(q, s)\<in>set (os_procs os). q \<noteq> pid \<and> proc_group s \<noteq> pid"
      by (auto simp: fresh_pids_def)
    then have "pid \<notin> set (hm_keys (os_procs os))" by auto
    then have app: "hm_insert pid (Live pid) (os_procs os) = os_procs os @ [(pid, Live pid)]"
      by (rule hm_insert_fresh)
    show thesis
      by (rule ok [OF new, of "fst (snd (tr_start (r, os)))"])
        (use True assms(2) start_ok app in \<open>auto simp: tr_start_def unstarted_def supervises_def\<close>)
  qed
qed

lemma tr_stop_supervised:
  assumes "obedient os" and "supervises r pid"
  obtains r' where
    "tr_stop (r, os) = (Inr (), r', child_wait pid (snd (child_kill pid (kill_tree pid os))))"
    "tr_state r' = TExited" "tr_task r' = tr_task r"
  using assms
  by (auto simp: tr_stop_def supervises_def exec_stop_task_def child_kill_def kill_tree_def
      obedient_def Let_def split: if_splits)

text \<open>What stopping a child does to the process table.\<close>

definition reap :: "bool \<Rightarrow> nat \<Rightarrow> (nat, proc) hashmap \<Rightarrow> (nat, proc) hashmap" where
  "reap tool pid ps =
     hm_remove pid (map (\<lambda>(q, s). (q, if tool \<and> proc_group s = pid then killed s else s)) ps)"

lemma killed_group [simp]: "proc_group (killed s) = proc_group s"
  by (cases s) simp_all

lemma hm_remove_map_other:
  "hm_remove k (map (\<lambda>(q, s). (q, if q = k then f s else s)) m) = hm_remove k m"
  by (induction m) (auto simp: AList.delete_eq)

lemma stop_child_reaps:
  "obedient os \<Longrightarrow>
     child_wait pid (snd (child_kill pid (kill_tree pid os))) =
     with_procs (reap (os_kill_tool os) pid (os_procs os)) os"
  by (cases os) (simp add: child_wait_def child_kill_def kill_tree_def reap_def obedient_def
      hm_remove_map_other del: map_map)

lemma stop_all_supervised:
  assumes "list_all2 supervises rs pids" and "obedient os"
  shows "\<exists>rs'. stop_all (rs, os) =
           ([], rs', with_procs (fold (reap (os_kill_tool os)) pids (os_procs os)) os) \<and>
         (\<forall>r\<in>set rs'. tr_state r = TExited) \<and> map tr_task rs' = map tr_task rs"
  using assms
proof (induction rs pids arbitrary: os rule: list_all2_induct)
  case Nil
  then show ?case by simp
next
  case (Cons r rs pid pids)
  let ?os = "with_procs (reap (os_kill_tool os) pid (os_procs os)) os"
  obtain r' where r': "tr_stop (r, os) = (Inr (), r', ?os)" "tr_state r' = TExited" "tr_task r' = tr_task r"
    using tr_stop_supervised [OF Cons.prems Cons.hyps(1)] stop_child_reaps [OF Cons.prems] by metis
  have "obedient ?os" using Cons.prems by (simp add: obedient_def)
  from Cons.IH [OF this] r' show ?case by auto
qed

lemma reap_last:
  assumes "\<forall>(q, s)\<in>set ps. q \<noteq> pid \<and> proc_group s \<noteq> pid"
  shows "reap tool pid (ps @ [(pid, Live pid)]) = ps"
  using assms by (induction ps) (auto simp: reap_def AList.delete_eq)

abbreviation live_entries :: "nat list \<Rightarrow> (nat, proc) hashmap" where
  "live_entries pids \<equiv> map (\<lambda>p. (p, Live p)) pids"

text \<open>The pids of the tasks started so far, each new when it was given.\<close>

fun new_pids :: "(nat, proc) hashmap \<Rightarrow> nat list \<Rightarrow> bool" where
  "new_pids ps [] \<longleftrightarrow> True"
| "new_pids ps (p # pids) \<longleftrightarrow>
     (\<forall>(q, s)\<in>set ps. q \<noteq> p \<and> proc_group s \<noteq> p) \<and> new_pids (ps @ [(p, Live p)]) pids"

lemma new_pids_snoc:
  "new_pids ps (pids @ [p]) \<longleftrightarrow>
     new_pids ps pids \<and> (\<forall>(q, s)\<in>set (ps @ live_entries pids). q \<noteq> p \<and> proc_group s \<noteq> p)"
  by (induction pids arbitrary: ps) auto

lemma new_pids_disjoint:
  "new_pids ps pids \<Longrightarrow> distinct pids \<and> set pids \<inter> fst ` set ps = {}"
proof (induction pids rule: rev_induct)
  case (snoc p pids)
  then have new: "\<forall>(q, s)\<in>set (ps @ live_entries pids). q \<noteq> p \<and> proc_group s \<noteq> p"
    and "new_pids ps pids"
    by (auto simp: new_pids_snoc)
  from new have "p \<notin> set pids" "p \<notin> fst ` set ps" by auto
  with snoc.IH [OF \<open>new_pids ps pids\<close>] show ?case by auto
qed simp

lemma reap_new:
  assumes "new_pids ps pids"
  shows "fold (reap tool) (rev pids) (ps @ live_entries pids) = ps"
  using assms
proof (induction pids rule: rev_induct)
  case (snoc p pids)
  then have "reap tool p ((ps @ live_entries pids) @ [(p, Live p)]) = ps @ live_entries pids"
    by (intro reap_last) (simp add: new_pids_snoc)
  with snoc show ?case by (simp add: new_pids_snoc)
qed simp

lemma start_from_all_or_nothing:
  assumes "fresh_pids os0" "obedient os0" "new_pids (os_procs os0) pids"
    and "os = with_procs (os_procs os0 @ live_entries pids) os0"
    and "list_all2 supervises started pids" and "\<forall>r\<in>set rest. unstarted r"
  shows "(\<exists>e rs. start_from started rest os = (Inl e, rs, os0) \<and>
             map tr_task rs = map tr_task (started @ rest)) \<or>
         (\<exists>rs more. start_from started rest os =
             (Inr (), rs, with_procs (os_procs os0 @ live_entries (pids @ more)) os0) \<and>
             new_pids (os_procs os0) (pids @ more) \<and> list_all2 supervises rs (pids @ more) \<and>
             map tr_task rs = map tr_task (started @ rest))"
  using assms(3-)
proof (induction rest arbitrary: started pids os)
  case Nil
  then show ?case by (auto intro!: exI [of _ "[]"])
next
  case (Cons r rest)
  have os: "fresh_pids os" "obedient os" "unstarted r"
    using assms(1,2) Cons.prems by (simp_all add: fresh_pids_def obedient_def)
  show ?case
    using os(1,3)
  proof (cases rule: tr_start_fresh)
    case (err e)
    obtain rs' where "stop_all (rev started, os) =
        ([], rs', with_procs (fold (reap (os_kill_tool os)) (rev pids) (os_procs os)) os)"
      "map tr_task rs' = map tr_task (rev started)"
      using stop_all_supervised [of "rev started" "rev pids" os] Cons.prems(3) os(2) by auto
    moreover have "with_procs (fold (reap (os_kill_tool os)) (rev pids) (os_procs os)) os = os0"
      using reap_new [OF Cons.prems(1)] Cons.prems(2) by simp
    ultimately show ?thesis
      using err by (auto simp: rev_map [symmetric] rev_swap)
  next
    case (ok pid r')
    have "start_from started (r # rest) os =
        start_from (started @ [r']) rest (with_procs (os_procs os @ [(pid, Live pid)]) os)"
      using ok by simp
    with Cons.IH [of "pids @ [pid]" "with_procs (os_procs os @ [(pid, Live pid)]) os" "started @ [r']"]
    show ?thesis
      using ok Cons.prems by (fastforce simp: new_pids_snoc list_all2_appendI)
  qed
qed

text \<open>A task that the \<open>exec\<close> driver can start on a system that never refuses its command.\<close>

definition startable :: "os \<Rightarrow> task \<Rightarrow> bool" where
  "startable os t \<longleftrightarrow> tk_driver t = exec_name \<and>
     (\<exists>c args. exec_command t = Inr c \<and> exec_args t = Inr args \<and>
        (\<forall>ps. is_ok (os_spawn os c args ps)))"

lemma tr_start_startable:
  assumes "startable os (tr_task r)" and "unstarted r"
  obtains r' ps where "tr_start (r, os) = (Inr (), r', with_procs ps os)"
proof -
  obtain c args pid where "exec_command (tr_task r) = Inr c" "exec_args (tr_task r) = Inr args"
    "os_spawn os c args (os_procs os) = Inr pid"
    using assms(1) by (auto simp: startable_def) (metis is_ok_simps(1) sum.exhaust)
  with assms that show thesis
    by (fastforce simp: tr_start_def unstarted_def startable_def exec_start_task_def sbind_def
        slift_def spawn_def Let_def)
qed

lemma start_from_startable:
  assumes "\<forall>r\<in>set rest. unstarted r \<and> startable os (tr_task r)"
  shows "fst (start_from started rest os) = Inr ()"
  using assms
proof (induction rest arbitrary: started os)
  case (Cons r rest)
  then obtain r' ps where start: "tr_start (r, os) = (Inr (), r', with_procs ps os)"
    using tr_start_startable [of os r] by (metis list.set_intros(1))
  have "\<forall>r\<in>set rest. unstarted r \<and> startable (with_procs ps os) (tr_task r)"
    using Cons.prems by (simp add: startable_def)
  from Cons.IH [OF this] start show ?case by simp
qed simp

lemma set_status_simps [simp]:
  "ar_status (set_status s a) = s" "ar_runners (set_status s a) = ar_runners a"
  by (simp_all add: ar_status_def set_status_def)

lemma unstarted_new [simp]: "unstarted (task_runner_new t)" "tr_task (task_runner_new t) = t"
  by (simp_all add: unstarted_def task_runner_new_def)

text \<open>C22. Running an allocation is all or nothing. If a task cannot be started, the tasks started before it
  are stopped, the process table is exactly what it was, and the allocation is marked failed.
  Otherwise the allocation runs: one new live process per task, in order, under a pid of its own,
  each supervised by its runner, and nothing else in the process table changes. Tasks that can all
  be started are all started.\<close>

theorem run_all_or_nothing:
  assumes "fresh_pids os" and "obedient os"
  shows "(case ar_run (alloc_runner_new al ts, os) of
            (Inl e, a, os') \<Rightarrow>
              os' = os \<and> ar_status a = CFailed \<and> map tr_task (ar_runners a) = ts
          | (Inr _, a, os') \<Rightarrow>
              ar_status a = CRunning \<and> map tr_task (ar_runners a) = ts \<and>
              (\<exists>pids. os' = os\<lparr>os_procs := os_procs os @ map (\<lambda>p. (p, Live p)) pids\<rparr> \<and>
                 distinct pids \<and> set pids \<inter> fst ` set (os_procs os) = {} \<and>
                 list_all2 supervises (ar_runners a) pids))
         \<and> ((\<forall>t\<in>set ts. startable os t) \<longrightarrow> is_ok (fst (ar_run (alloc_runner_new al ts, os))))"
proof -
  let ?rs = "map task_runner_new ts"
  have un: "\<forall>r\<in>set ?rs. unstarted r" by simp
  have tasks: "map tr_task ?rs = ts" by (simp add: comp_def)
  have ok: "fst (start_from [] ?rs os) = Inr ()" if "\<forall>t\<in>set ts. startable os t"
    using that by (intro start_from_startable) simp
  consider (err) e rs where "start_from [] ?rs os = (Inl e, rs, os)" "map tr_task rs = ts"
    | (run) rs pids where
        "start_from [] ?rs os = (Inr (), rs, with_procs (os_procs os @ live_entries pids) os)"
        "new_pids (os_procs os) pids" "list_all2 supervises rs pids" "map tr_task rs = ts"
    using start_from_all_or_nothing [OF assms, of "[]" os "[]" ?rs] un tasks by auto
  then show ?thesis
  proof cases
    case err
    with ok show ?thesis by (auto simp: ar_run_def alloc_runner_new_def)
  next
    case run
    with new_pids_disjoint [OF run(2)] show ?thesis
      by (auto simp: ar_run_def alloc_runner_new_def)
  qed
qed

text \<open>
  A system with an init process that gives every new process a pid above all others and knows no
  program called \<open>missing\<close>, and two tasks, the second of which cannot be started.
\<close>

definition sample_os :: os where
  "sample_os =
     \<lparr>os_procs = [(1, Live 1)],
      os_spawn = (\<lambda>c args ps. if c = ''missing'' then Inl ''No such file or directory (os error 2)''
                  else Inr (Suc (sum_list (map fst ps) + sum_list (map (\<lambda>e. proc_group (snd e)) ps)))),
      os_kill_err = (\<lambda>_. None), os_wait_err = (\<lambda>_. None), os_kill_tool = True\<rparr>"

definition sample_task :: "string \<Rightarrow> string \<Rightarrow> task" where
  "sample_task name cmd =
     \<lparr>tk_name = name, tk_driver = ''exec'',
      tk_config = [(''command'', String cmd), (''args'', Array [String ''30''])],
      tk_resources = resources_default\<rparr>"

definition sample_alloc :: allocation where
  "sample_alloc =
     \<lparr>al_id = ''a1'', al_eval_id = ''e1'', al_node_id = ''n1'', al_job_id = ''shop'',
      al_task_group = ''web'', al_desired_status = DRun, al_client_status = CPending,
      al_resources = resources_default\<rparr>"

lemma sample_os_fresh: "fresh_pids sample_os"
proof -
  have "x \<le> sum_list (map f xs)" if "(q, s) \<in> set xs" "f (q, s) = x"
    for x q s and f :: "nat \<times> proc \<Rightarrow> nat" and xs
    using that member_le_sum_list [of x "map f xs"] by force
  from this [where f = fst] this [where f = "\<lambda>e. proc_group (snd e)"]
  show ?thesis
    by (fastforce simp: fresh_pids_def sample_os_def dest: le_trans split: if_splits)
qed

lemma sample_os_obedient: "obedient sample_os"
  by (simp add: obedient_def sample_os_def)

lemma sample_startable: "cmd \<noteq> ''missing'' \<Longrightarrow> startable sample_os (sample_task n cmd)"
  by (simp add: startable_def sample_task_def sample_os_def exec_name_def exec_command_def
      exec_args_def)

lemma run_all_or_nothing_witness:
  "is_ok (fst (ar_run (alloc_runner_new sample_alloc [sample_task ''a'' ''sleep'', sample_task ''b'' ''nc''], sample_os))) \<and>
   snd (snd (ar_run (alloc_runner_new sample_alloc [sample_task ''a'' ''sleep'', sample_task ''b'' ''missing''], sample_os)))
     = sample_os"
proof -
  have "fst (ar_run (alloc_runner_new sample_alloc [sample_task ''a'' ''sleep'', sample_task ''b'' ''missing''], sample_os))
      = Inl (Io ''No such file or directory (os error 2)'')"
    by (simp add: ar_run_def alloc_runner_new_def tr_start_def task_runner_new_def sample_task_def
        exec_name_def exec_start_task_def exec_command_def exec_args_def sbind_def slift_def spawn_def
        sample_os_def Let_def split: prod.splits)
  with run_all_or_nothing [OF sample_os_fresh sample_os_obedient, where al = sample_alloc
      and ts = "[sample_task ''a'' ''sleep'', sample_task ''b'' ''nc'']"]
    run_all_or_nothing [OF sample_os_fresh sample_os_obedient, where al = sample_alloc
      and ts = "[sample_task ''a'' ''sleep'', sample_task ''b'' ''missing'']"]
  show ?thesis by (auto simp: sample_startable split: prod.splits sum.splits)
qed

section \<open>Tearing an allocation down\<close>

text \<open>
  The child a runner can still reach: the one its driver holds under the runner's handle. A runner
  that was never started has none, nor has one whose child was seen to exit or was stopped before.
\<close>

definition child_of :: "task_runner \<Rightarrow> nat option" where
  "child_of r = (case tr_handle r of None \<Rightarrow> None | Some h \<Rightarrow> hm_get (ed_running (tr_driver r)) (th_id h))"

definition children :: "task_runner list \<Rightarrow> nat list" where
  "children rs = List.map_filter child_of rs"

definition kill_failures :: "os \<Rightarrow> nat list \<Rightarrow> error list" where
  "kill_failures os cs = map Io (List.map_filter (os_kill_err os) cs)"

text \<open>What stopping the child \<open>c\<close> makes of the process table, as a function of the pid.\<close>

definition after_stop :: "os \<Rightarrow> nat \<Rightarrow> (nat \<rightharpoonup> proc) \<Rightarrow> nat \<rightharpoonup> proc" where
  "after_stop os c m q =
     (if q = c \<and> os_kill_err os c = None \<and> os_wait_err os c = None then None
      else map_option (\<lambda>s. if os_kill_tool os \<and> proc_group s = c \<or> q = c \<and> os_kill_err os c = None
                           then killed s else s) (m q))"

definition stopped :: "os \<Rightarrow> task_runner \<Rightarrow> task_runner \<Rightarrow> bool" where
  "stopped os r r' \<longleftrightarrow> child_of r' = None \<and> tr_task r' = tr_task r \<and>
     tr_state r' = (if kill_failures os (children [r]) = [] then TExited else tr_state r)"

lemma children_simps [simp]:
  "children [] = []" "children (r # rs) = (case child_of r of None \<Rightarrow> children rs | Some c \<Rightarrow> c # children rs)"
  by (simp_all add: children_def map_filter_simps split: option.split)

lemma kill_failures_simps [simp]:
  "kill_failures os [] = []"
  "kill_failures os (c # cs) = (case os_kill_err os c of None \<Rightarrow> kill_failures os cs | Some e \<Rightarrow> Io e # kill_failures os cs)"
  by (simp_all add: kill_failures_def map_filter_simps split: option.split)

lemma killed_idem [simp]: "killed (killed s) = killed s"
  by (cases s) simp_all

lemma hm_get_map: "hm_get (map (\<lambda>(p, s). (p, f p s)) m) q = map_option (f q) (hm_get m q)"
  by (induction m) auto

lemma tr_stop_childless: "child_of r = None \<Longrightarrow> tr_stop (r, os) = (Inr (), r\<lparr>tr_state := TExited\<rparr>, os)"
  by (auto simp: child_of_def tr_stop_def exec_stop_task_def split: option.splits)

lemma tr_stop_child:
  assumes "child_of r = Some c"
  obtains r' ps where
    "tr_stop (r, os) = ((case os_kill_err os c of None \<Rightarrow> Inr () | Some e \<Rightarrow> Inl (Io e)), r', with_procs ps os)"
    "hm_get ps = after_stop os c (hm_get (os_procs os))" "stopped os r r'"
proof -
  obtain h where h: "tr_handle r = Some h" "hm_get (ed_running (tr_driver r)) (th_id h) = Some c"
    using assms by (auto simp: child_of_def split: option.splits)
  let ?d = "(tr_driver r)\<lparr>ed_running := hm_remove (th_id h) (ed_running (tr_driver r))\<rparr>"
  let ?tree = "map (\<lambda>(p, s). (p, if os_kill_tool os \<and> proc_group s = c then killed s else s)) (os_procs os)"
  have tree: "kill_tree c os = with_procs ?tree os"
    by (cases "os_kill_tool os") (simp_all add: kill_tree_def case_prod_eta)
  show thesis
  proof (cases "os_kill_err os c")
    case None
    let ?dead = "map (\<lambda>(p, s). (p, if p = c then killed s else s)) ?tree"
    show ?thesis
    proof (rule that [of "r\<lparr>tr_driver := ?d, tr_state := TExited\<rparr>"
          "if os_wait_err os c = None then hm_remove c ?dead else ?dead"])
      show "hm_get (if os_wait_err os c = None then hm_remove c ?dead else ?dead) = after_stop os c (hm_get (os_procs os))"
        by (rule ext) (auto simp: after_stop_def None hm_get_map option.map_comp comp_def intro!: option.map_cong
            simp del: map_map)
    qed (use h tree None assms in \<open>auto simp: tr_stop_def exec_stop_task_def child_kill_def child_wait_def Let_def
        stopped_def child_of_def split: option.split simp del: map_map\<close>)
  next
    case (Some e)
    show ?thesis
    proof (rule that [of "r\<lparr>tr_driver := ?d\<rparr>" ?tree])
      show "hm_get ?tree = after_stop os c (hm_get (os_procs os))"
        by (rule ext) (simp add: after_stop_def Some hm_get_map)
    qed (use h tree Some assms in \<open>auto simp: tr_stop_def exec_stop_task_def child_kill_def Let_def
        stopped_def child_of_def\<close>)
  qed
qed

lemma after_stop_procs [simp]: "after_stop (with_procs ps os) = after_stop os"
  by (simp add: fun_eq_iff after_stop_def)

lemma stop_all_run:
  "\<exists>rs' ps. stop_all (rs, os) = (kill_failures os (children rs), rs', with_procs ps os) \<and>
     hm_get ps = fold (after_stop os) (children rs) (hm_get (os_procs os)) \<and> list_all2 (stopped os) rs rs' \<and>
     (children rs = [] \<longrightarrow> ps = os_procs os)"
proof (induction rs arbitrary: os)
  case (Cons r rs)
  show ?case
  proof (cases "child_of r")
    case None
    have "stopped os r (r\<lparr>tr_state := TExited\<rparr>)"
      using None by (auto simp: stopped_def child_of_def split: option.splits)
    moreover obtain rs' ps where "stop_all (rs, os) = (kill_failures os (children rs), rs', with_procs ps os)"
      "hm_get ps = fold (after_stop os) (children rs) (hm_get (os_procs os))" "list_all2 (stopped os) rs rs'"
      "children rs = [] \<longrightarrow> ps = os_procs os"
      using Cons.IH [of os] by blast
    ultimately show ?thesis using None
      by (intro exI [of _ "r\<lparr>tr_state := TExited\<rparr> # rs'"] exI [of _ ps]) (simp add: tr_stop_childless)
  next
    case (Some c)
    obtain r' ps where one:
      "tr_stop (r, os) = ((case os_kill_err os c of None \<Rightarrow> Inr () | Some e \<Rightarrow> Inl (Io e)), r', with_procs ps os)"
      "hm_get ps = after_stop os c (hm_get (os_procs os))" "stopped os r r'"
      using tr_stop_child [OF Some] by blast
    have same: "stopped (with_procs ps os) = stopped os" "kill_failures (with_procs ps os) = kill_failures os"
      by (simp_all add: fun_eq_iff stopped_def kill_failures_def)
    obtain rs' ps' where rest: "stop_all (rs, with_procs ps os) = (kill_failures os (children rs), rs', with_procs ps' os)"
      "hm_get ps' = fold (after_stop os) (children rs) (hm_get ps)" "list_all2 (stopped os) rs rs'"
      using Cons.IH [of "with_procs ps os"] unfolding same by auto
    with one Some show ?thesis by (auto split: option.split)
  qed
qed auto

text \<open>The fold over the children, for one pid.\<close>

lemma after_stop_live: "after_stop os c m q = Some (Live g) \<Longrightarrow> m q = Some (Live g)"
proof -
  have "killed s \<noteq> Live g" for s by (cases s) simp_all
  then show "after_stop os c m q = Some (Live g) \<Longrightarrow> m q = Some (Live g)"
    by (auto simp: after_stop_def split: if_splits)
qed

lemma stops_live: "fold (after_stop os) cs m q = Some (Live g) \<Longrightarrow> m q = Some (Live g)"
proof (induction cs arbitrary: m)
  case (Cons c cs)
  from Cons.prems have "fold (after_stop os) cs (after_stop os c m) q = Some (Live g)" by simp
  from after_stop_live [OF Cons.IH [OF this]] show ?case .
qed simp

lemma stops_dead:
  assumes "fold (after_stop os) cs m q = Some (Live g)" and "c \<in> set cs"
  shows "\<not> (os_kill_tool os \<and> g = c)" and "\<not> (q = c \<and> os_kill_err os c = None)"
proof -
  obtain xs ys where cs: "cs = xs @ c # ys" using assms(2) by (auto simp: in_set_conv_decomp)
  define m' where "m' = fold (after_stop os) xs m"
  have "fold (after_stop os) ys (after_stop os c m') q = Some (Live g)" using assms(1) by (simp add: cs m'_def)
  from stops_live [OF this] have live: "after_stop os c m' q = Some (Live g)" .
  have "killed s \<noteq> Live g" for s by (cases s) simp_all
  with live after_stop_live [OF live]
  show "\<not> (os_kill_tool os \<and> g = c)" and "\<not> (q = c \<and> os_kill_err os c = None)"
    by (auto simp: after_stop_def split: if_splits)
qed

lemma stops_gone: "m q = None \<Longrightarrow> fold (after_stop os) cs m q = None"
  by (induction cs arbitrary: m) (simp_all add: after_stop_def)

lemma stops_reaped:
  assumes "c \<in> set cs" and "os_kill_err os c = None" and "os_wait_err os c = None"
  shows "fold (after_stop os) cs m c = None"
proof -
  obtain xs ys where cs: "cs = xs @ c # ys" using assms(1) by (auto simp: in_set_conv_decomp)
  show ?thesis unfolding cs using assms(2,3) by (simp add: stops_gone after_stop_def)
qed

lemma stops_group: "fold (after_stop os) cs m q = Some s \<Longrightarrow> \<exists>t. m q = Some t \<and> proc_group t = proc_group s"
proof (induction cs arbitrary: m)
  case (Cons c cs)
  then obtain t where "after_stop os c m q = Some t" "proc_group t = proc_group s" by fastforce
  then show ?case by (auto simp: after_stop_def split: if_splits)
qed simp

lemma stops_keep: "\<lbrakk>m q = Some s; q \<notin> set cs; proc_group s \<notin> set cs\<rbrakk> \<Longrightarrow> fold (after_stop os) cs m q = Some s"
  by (induction cs arbitrary: m) (auto simp: after_stop_def)

lemma stops_others:
  assumes "q \<notin> set cs" and "proc_group s \<notin> set cs"
  shows "fold (after_stop os) cs m q = Some s \<longleftrightarrow> m q = Some s"
proof
  assume "fold (after_stop os) cs m q = Some s"
  moreover then obtain t where "m q = Some t" "proc_group t = proc_group s" using stops_group by blast
  ultimately show "m q = Some s" using stops_keep [of m q t cs os] assms by simp
qed (use assms stops_keep in blast)



section \<open>The status of an allocation\<close>

fun state_of :: "proc \<Rightarrow> task_state" where
  "state_of (Live _) = TRunning"
| "state_of (Dead _ ok) = (if ok then TExited else TFailed)"

lemma tr_poll_supervised:
  assumes "obedient os" "supervises r pid" "hm_get (os_procs os) pid = Some s"
  obtains r' ps where "tr_poll (r, os) = (Inr (state_of s), r', with_procs ps os)"
    "\<forall>q. q \<noteq> pid \<longrightarrow> hm_get ps q = hm_get (os_procs os) q"
proof (cases s)
  case (Live g)
  have "tr_poll (r, os) = (Inr (state_of s), r\<lparr>tr_driver := tr_driver r, tr_state := TRunning\<rparr>, with_procs (os_procs os) os)"
    using assms Live
    by (auto simp: tr_poll_def supervises_def exec_inspect_task_def try_wait_def obedient_def)
  then show thesis by (rule that) simp
next
  case (Dead g ok)
  obtain r' where "tr_poll (r, os) = (Inr (state_of s), r', with_procs (hm_remove pid (os_procs os)) os)"
    using assms Dead
    by (auto simp: tr_poll_def supervises_def exec_inspect_task_def try_wait_def obedient_def)
  then show thesis by (rule that) simp
qed

lemma poll_all_supervised:
  assumes "list_all2 supervises rs pids" and "distinct pids" and "obedient os"
    and "\<forall>p\<in>set pids. hm_get (os_procs os) p \<noteq> None"
  shows "fst (poll_all (rs, os)) = Inr (map (\<lambda>p. state_of (the (hm_get (os_procs os) p))) pids)"
  using assms
proof (induction rs pids arbitrary: os rule: list_all2_induct)
  case Nil
  then show ?case by simp
next
  case (Cons r rs pid pids)
  from Cons.prems obtain s where s: "hm_get (os_procs os) pid = Some s" by auto
  obtain r' ps where poll: "tr_poll (r, os) = (Inr (state_of s), r', with_procs ps os)"
    "\<forall>q. q \<noteq> pid \<longrightarrow> hm_get ps q = hm_get (os_procs os) q"
    using tr_poll_supervised [OF Cons.prems(2) Cons.hyps(1) s] by blast
  have same: "\<forall>p\<in>set pids. hm_get ps p = hm_get (os_procs os) p"
    using poll(2) Cons.prems(1) by auto
  then have "fst (poll_all (rs, with_procs ps os)) = Inr (map (\<lambda>p. state_of (the (hm_get ps p))) pids)"
    using Cons.IH [of "with_procs ps os"] Cons.prems by (simp add: obedient_def)
  with poll(1) s same show ?case by (auto split: prod.splits sum.splits)
qed

text \<open>C25. The status of a running allocation follows its processes: a refresh finds it failed when a child
  has exited unsuccessfully, complete when there are children and all have exited with success,
  and otherwise leaves it as it was. A terminal status is returned from then on, whatever the
  process table looks like, and is not changed.\<close>

theorem refresh_follows_processes:
  assumes "list_all2 supervises (ar_runners a) pids" and "distinct pids" and "obedient os"
    and "\<forall>p\<in>set pids. hm_get (os_procs os) p \<noteq> None" and "ar_status a \<notin> {CComplete, CFailed}"
  shows "\<exists>a' os'. refresh_status (a, os) = (Inr (ar_status a'), a', os') \<and>
           ar_status a' =
             (if \<exists>p\<in>set pids. \<exists>g. hm_get (os_procs os) p = Some (Dead g False) then CFailed
              else if pids \<noteq> [] \<and> (\<forall>p\<in>set pids. \<exists>g. hm_get (os_procs os) p = Some (Dead g True))
              then CComplete else ar_status a) \<and>
           (ar_status a' \<in> {CComplete, CFailed} \<longrightarrow>
              (\<forall>os2. refresh_status (a', os2) = (Inr (ar_status a'), a', os2)))"
proof -
  let ?st = "\<lambda>p. state_of (the (hm_get (os_procs os) p))"
  obtain rs os' where poll: "poll_all (ar_runners a, os) = (Inr (map ?st pids), rs, os')"
    using poll_all_supervised [OF assms(1-4)] by (cases "poll_all (ar_runners a, os)") auto
  have st: "?st p = TFailed \<longleftrightarrow> (\<exists>g. hm_get (os_procs os) p = Some (Dead g False))"
    "?st p = TExited \<longleftrightarrow> (\<exists>g. hm_get (os_procs os) p = Some (Dead g True))" if "p \<in> set pids" for p
    using assms(4) that by (cases "the (hm_get (os_procs os) p)"; force)+
  have failed: "TFailed \<in> ?st ` set pids \<longleftrightarrow> (\<exists>p\<in>set pids. \<exists>g. hm_get (os_procs os) p = Some (Dead g False))"
    using st(1) by (metis (no_types, lifting) image_iff)
  have exited: "(\<forall>p\<in>set pids. ?st p = TExited) \<longleftrightarrow> (\<forall>p\<in>set pids. \<exists>g. hm_get (os_procs os) p = Some (Dead g True))"
    using st(2) by blast
  have terminal: "refresh_status (b, os2) = (Inr (ar_status b), b, os2)"
    if "ar_status b \<in> {CComplete, CFailed}" for b os2
    using that by (simp add: refresh_status_def)
  define b where "b = a\<lparr>ar_runners := rs\<rparr>"
  have b: "ar_status b = ar_status a" by (simp add: b_def ar_status_def)
  let ?a' = "if TFailed \<in> ?st ` set pids then set_status CFailed b
             else if pids \<noteq> [] \<and> (\<forall>p\<in>set pids. ?st p = TExited) then set_status CComplete b else b"
  have "refresh_status (a, os) = (Inr (ar_status ?a'), ?a', os')"
    using assms(5) poll by (simp add: refresh_status_def task_states_def b_def list_all_iff Let_def)
  moreover have "ar_status ?a' =
      (if TFailed \<in> ?st ` set pids then CFailed
       else if pids \<noteq> [] \<and> (\<forall>p\<in>set pids. ?st p = TExited) then CComplete else ar_status a)"
    using b by simp
  ultimately show ?thesis
    unfolding failed exited using terminal by blast
qed

lemma refresh_follows_processes_witness:
  "fst (refresh_status
       (\<lparr>ar_alloc = sample_alloc,
         ar_runners = [(task_runner_new (sample_task ''a'' ''sleep''))
           \<lparr>tr_driver := \<lparr>ed_running = [(show_nat 7, 7)]\<rparr>,
            tr_handle := Some \<lparr>th_id = show_nat 7, th_state = TRunning\<rparr>, tr_state := TRunning\<rparr>]\<rparr>,
        sample_os\<lparr>os_procs := [(1, Live 1), (7, Dead 7 False)]\<rparr>)) = Inr CFailed"
proof -
  let ?r = "(task_runner_new (sample_task ''a'' ''sleep''))
           \<lparr>tr_driver := \<lparr>ed_running = [(show_nat 7, 7)]\<rparr>,
            tr_handle := Some \<lparr>th_id = show_nat 7, th_state = TRunning\<rparr>, tr_state := TRunning\<rparr>"
  let ?a = "\<lparr>ar_alloc = sample_alloc, ar_runners = [?r]\<rparr>"
  let ?os = "sample_os\<lparr>os_procs := [(1, Live 1), (7, Dead 7 False)]\<rparr>"
  have "list_all2 supervises (ar_runners ?a) [7]" "distinct [7::nat]" "obedient ?os"
    "\<forall>p\<in>set [7]. hm_get (os_procs ?os) p \<noteq> None" "ar_status ?a \<notin> {CComplete, CFailed}"
    by (simp_all add: supervises_def obedient_def sample_os_def ar_status_def sample_alloc_def)
  from refresh_follows_processes [OF this] show ?thesis by auto
qed

end
