(* ===== verification/Conformance_Runner.thy ===== *)
theory Conformance_Runner
  imports Conformance Runner
begin

text \<open>
  The unit tests of \<open>src/src/driver.rs\<close>, \<open>taskrunner.rs\<close> and \<open>allocrunner.rs\<close>, run on the model
  above a system with the programs the tests use: \<open>sleep\<close> outlives the test, \<open>true\<close> and
  \<open>false\<close> are over, with success and failure, when the test has slept.
\<close>

text \<open>A new process gets a number above those of all processes there are; nothing fails.\<close>

definition lab_os :: os where
  "lab_os =
     \<lparr>os_procs = [], os_spawn = (\<lambda>c args ps. Inr (Suc (sum_list (map fst ps)))),
      os_kill_err = (\<lambda>_. None), os_wait_err = (\<lambda>_. None), os_kill_tool = True\<rparr>"

text \<open>\<open>thread::sleep\<close>: the short-lived processes of the test end, all the same way.\<close>

definition ends :: "bool \<Rightarrow> os \<Rightarrow> os" where
  "ends ok os = os\<lparr>os_procs := map (\<lambda>(p, s). (p, case s of Live g \<Rightarrow> Dead g ok | Dead g b \<Rightarrow> Dead g b)) (os_procs os)\<rparr>"

abbreviation slept :: "bool \<Rightarrow> ('r \<times> os) step" where
  "slept ok \<equiv> \<lambda>(r, os). Some (r, ends ok os)"

definition task_of :: "(string, json) hashmap \<Rightarrow> task" where
  "task_of cfg = \<lparr>tk_name = ''web'', tk_driver = ''exec'', tk_config = cfg, tk_resources = resources_default\<rparr>"

definition task_cmd :: "string \<Rightarrow> string list \<Rightarrow> task" where
  "task_cmd command args = task_of [(''command'', String command), (''args'', Array (map String args))]"

section \<open>Drivers\<close>

type_synonym driver_test = "(exec_driver \<times> os) step list"

text \<open>The handle of the only process a test starts.\<close>

definition handle1 :: task_handle where
  "handle1 = \<lparr>th_id = ''1'', th_state = TRunning\<rparr>"

abbreviation driver_starts :: "task \<Rightarrow> (exec_driver \<times> os) step" where
  "driver_starts t \<equiv> unwrapped (exec_start_task t) (\<lambda>h. h = handle1)"

abbreviation inspected :: "task_state \<Rightarrow> (exec_driver \<times> os) step" where
  "inspected s \<equiv> unwrapped (exec_inspect_task handle1) (\<lambda>r. r = s)"

definition exec_driver_spawns_real_process :: driver_test where
  "exec_driver_spawns_real_process =
     [driver_starts (task_cmd ''sleep'' [''30'']), inspected TRunning, unwrapped (exec_stop_task handle1) any]"

definition exec_driver_missing_command_errors :: driver_test where
  "exec_driver_missing_command_errors = [unwrapped_err (exec_start_task (task_of []))]"

definition exec_driver_inspect_reports_exited_after_completion :: driver_test where
  "exec_driver_inspect_reports_exited_after_completion =
     [driver_starts (task_cmd ''true'' []), slept True, inspected TExited]"

definition exec_driver_inspect_reports_failed_after_nonzero_exit :: driver_test where
  "exec_driver_inspect_reports_failed_after_nonzero_exit =
     [driver_starts (task_cmd ''false'' []), slept False, inspected TFailed]"

definition exec_driver_stop_kills_running_process :: driver_test where
  "exec_driver_stop_kills_running_process =
     [driver_starts (task_cmd ''sleep'' [''30'']), unwrapped (exec_stop_task handle1) any, inspected TExited]"

definition exec_driver_rejects_non_string_args :: driver_test where
  "exec_driver_rejects_non_string_args =
     [unwrapped_err (exec_start_task
        (task_of [(''command'', String ''echo''), (''args'', Array [String ''--port'', Number ''8080''])]))]"

definition exec_driver_rejects_non_array_args :: driver_test where
  "exec_driver_rejects_non_array_args =
     [unwrapped_err (exec_start_task (task_of [(''command'', String ''echo''), (''args'', String ''oops'')]))]"

definition exec_driver_is_named :: bool where
  "exec_driver_is_named \<longleftrightarrow> exec_name = ''exec''"

definition exec_is_not_isolated_yet :: bool where
  "exec_is_not_isolated_yet \<longleftrightarrow> \<not> isolated exec_capabilities"

definition raw_exec_is_not_isolated :: bool where
  "raw_exec_is_not_isolated \<longleftrightarrow> \<not> isolated raw_exec_capabilities"

definition raw_exec_is_named :: bool where
  "raw_exec_is_named \<longleftrightarrow> raw_exec_name = ''raw_exec''"

definition docker_is_image_based :: bool where
  "docker_is_image_based \<longleftrightarrow> image_based docker_capabilities"

definition docker_is_named :: bool where
  "docker_is_named \<longleftrightarrow> docker_name = ''docker''"

definition docker_starts_container :: bool where
  "docker_starts_container = (case docker_start_task (task_of []) of Inl _ \<Rightarrow> False | Inr h \<Rightarrow> th_state h = TRunning)"

lemma driver_tests:
  "list_all (passes (exec_default, lab_os))
     [exec_driver_spawns_real_process, exec_driver_missing_command_errors,
      exec_driver_inspect_reports_exited_after_completion, exec_driver_inspect_reports_failed_after_nonzero_exit,
      exec_driver_stop_kills_running_process, exec_driver_rejects_non_string_args, exec_driver_rejects_non_array_args]"
  by code_simp

lemma driver_descriptions:
  "list_all id [exec_driver_is_named, exec_is_not_isolated_yet, raw_exec_is_not_isolated, raw_exec_is_named,
     docker_is_image_based, docker_is_named, docker_starts_container]"
  by code_simp

section \<open>Task runners\<close>

type_synonym runner_test = "(task_runner \<times> os) step list"

text \<open>The runner a test makes first: of a task without a command, and of a command.\<close>

definition runner_of :: "task \<Rightarrow> task_runner \<times> os" where
  "runner_of t = (task_runner_new t, lab_os)"

definition idle_runner :: "task_runner \<times> os" where
  "idle_runner = runner_of (task_of [])"

definition runner_cmd :: "string \<Rightarrow> string list \<Rightarrow> task_runner \<times> os" where
  "runner_cmd command args = runner_of (task_cmd command args)"

definition exit_reported :: "bool \<Rightarrow> bool \<Rightarrow> (task_runner \<times> os) step" where
  "exit_reported success again = (\<lambda>(r, os). let (b, r') = handle_exit success r in if b = again then Some (r', os) else None)"

abbreviation state_is :: "task_state \<Rightarrow> (task_runner \<times> os) step" where
  "state_is s \<equiv> assert_that (\<lambda>(r, os). tr_state r = s)"

abbreviation restarts_are :: "u32 \<Rightarrow> (task_runner \<times> os) step" where
  "restarts_are n \<equiv> assert_that (\<lambda>(r, os). tr_restart_count r = n)"

abbreviation polled :: "task_state \<Rightarrow> (task_runner \<times> os) step" where
  "polled s \<equiv> unwrapped tr_poll (\<lambda>r. r = s)"

abbreviation tr_started :: "(task_runner \<times> os) step" where
  "tr_started \<equiv> unwrapped tr_start any"

abbreviation tr_stopped :: "(task_runner \<times> os) step" where
  "tr_stopped \<equiv> unwrapped tr_stop any"

definition new_runner_is_pending :: runner_test where
  "new_runner_is_pending = [state_is TPending]"

definition new_runner_has_zero_restarts :: runner_test where
  "new_runner_has_zero_restarts = [restarts_are 0]"

definition failed_exit_triggers_restart :: runner_test where
  "failed_exit_triggers_restart = [exit_reported False True]"

definition successful_exit_is_terminal :: runner_test where
  "successful_exit_is_terminal = [exit_reported True False]"

definition restart_stops_and_fails_after_attempts_exhausted :: runner_test where
  "restart_stops_and_fails_after_attempts_exhausted =
     [\<lambda>(r, os). Some (with_restart_policy
        \<lparr>rp_attempts = 1, rp_interval_secs = 60, rp_delay_secs = 0, rp_mode = RFail\<rparr> r, os),
      exit_reported False True, restarts_are 1, exit_reported False False, state_is TFailed, restarts_are 1]"

definition start_spawns_real_process_and_stop_terminates_it :: runner_test where
  "start_spawns_real_process_and_stop_terminates_it =
     [tr_started, state_is TRunning, polled TRunning, tr_stopped, polled TExited]"

definition poll_reports_exit_after_short_process_completes :: runner_test where
  "poll_reports_exit_after_short_process_completes = [tr_started, slept True, polled TExited]"

definition start_with_missing_command_errors :: runner_test where
  "start_with_missing_command_errors = [unwrapped_err tr_start]"

definition poll_keeps_failed_sticky :: runner_test where
  "poll_keeps_failed_sticky = [tr_started, slept False, polled TFailed, polled TFailed]"

definition restart_clears_handle_so_task_can_relaunch :: runner_test where
  "restart_clears_handle_so_task_can_relaunch = [tr_started, exit_reported False True, tr_started, tr_stopped]"

definition double_start_is_rejected :: runner_test where
  "double_start_is_rejected = [tr_started, unwrapped_err tr_start, tr_stopped]"

definition unsupported_driver_errors :: runner_test where
  "unsupported_driver_errors = [unwrapped_err tr_start]"

lemma runner_tests:
  "list_all (passes idle_runner)
     [new_runner_is_pending, new_runner_has_zero_restarts, failed_exit_triggers_restart, successful_exit_is_terminal,
      restart_stops_and_fails_after_attempts_exhausted, start_with_missing_command_errors]"
  by code_simp

lemma runner_process_tests:
  "list_all (passes (runner_cmd ''sleep'' [''30'']))
     [start_spawns_real_process_and_stop_terminates_it, double_start_is_rejected]"
  "list_all (passes (runner_cmd ''true'' []))
     [poll_reports_exit_after_short_process_completes, restart_clears_handle_so_task_can_relaunch]"
  "passes (runner_cmd ''false'' []) poll_keeps_failed_sticky"
  "passes (runner_of ((task_cmd ''sleep'' [''30''])\<lparr>tk_driver := ''docker''\<rparr>)) unsupported_driver_errors"
  by code_simp+

section \<open>Allocation runners\<close>

type_synonym alloc_test = "(alloc_runner \<times> os) step list"

definition pending_alloc :: allocation where
  "pending_alloc =
     \<lparr>al_id = ''a1'', al_eval_id = ''e1'', al_node_id = ''n1'', al_job_id = ''redis'', al_task_group = ''cache'',
      al_desired_status = DRun, al_client_status = CPending, al_resources = resources_default\<rparr>"

definition alloc_of :: "task list \<Rightarrow> alloc_runner \<times> os" where
  "alloc_of ts = (alloc_runner_new pending_alloc ts, lab_os)"

definition sleep_task :: task where
  "sleep_task = task_cmd ''sleep'' [''30'']"

definition bad_task :: task where
  "bad_task = (task_of [])\<lparr>tk_name := ''bad''\<rparr>"

definition quick_task :: task where
  "quick_task = (task_of [(''command'', String ''true'')])\<lparr>tk_name := ''q''\<rparr>"

definition failing_task :: task where
  "failing_task = (task_of [(''command'', String ''false'')])\<lparr>tk_name := ''f''\<rparr>"

abbreviation status_is :: "client_status \<Rightarrow> (alloc_runner \<times> os) step" where
  "status_is s \<equiv> assert_that (\<lambda>(a, os). ar_status a = s)"

abbreviation refreshed :: "client_status \<Rightarrow> (alloc_runner \<times> os) step" where
  "refreshed s \<equiv> unwrapped refresh_status (\<lambda>r. r = s)"

abbreviation every_task :: "task_state \<Rightarrow> (alloc_runner \<times> os) step" where
  "every_task s \<equiv> unwrapped task_states (list_all (\<lambda>r. r = s))"

definition new_alloc_runner_is_pending :: alloc_test where
  "new_alloc_runner_is_pending = [status_is CPending]"

definition destroy_succeeds :: alloc_test where
  "destroy_succeeds = [unwrapped ar_destroy any]"

definition run_rolls_back_started_tasks_on_later_failure :: alloc_test where
  "run_rolls_back_started_tasks_on_later_failure =
     [unwrapped_err ar_run, status_is CFailed, unwrapped task_states (\<lambda>ss. ss ! 0 = TExited)]"

definition refresh_status_rolls_up_to_complete_when_all_tasks_exit :: alloc_test where
  "refresh_status_rolls_up_to_complete_when_all_tasks_exit =
     [unwrapped ar_run any, status_is CRunning, slept True, refreshed CComplete, status_is CComplete]"

definition refresh_status_rolls_up_to_failed_when_a_task_fails :: alloc_test where
  "refresh_status_rolls_up_to_failed_when_a_task_fails =
     [unwrapped ar_run any, slept False, refreshed CFailed, status_is CFailed]"

definition refresh_status_stays_running_while_a_task_lives :: alloc_test where
  "refresh_status_stays_running_while_a_task_lives =
     [unwrapped ar_run any, refreshed CRunning, unwrapped ar_destroy any]"

definition run_starts_every_task_then_destroy_stops_them :: alloc_test where
  "run_starts_every_task_then_destroy_stops_them =
     [unwrapped ar_run any, status_is CRunning, every_task TRunning, unwrapped ar_destroy any, status_is CComplete,
      every_task TExited]"

lemma alloc_runner_tests:
  "list_all (passes (alloc_of [])) [new_alloc_runner_is_pending, destroy_succeeds]"
  "passes (alloc_of [sleep_task, bad_task]) run_rolls_back_started_tasks_on_later_failure"
  "passes (alloc_of [quick_task]) refresh_status_rolls_up_to_complete_when_all_tasks_exit"
  "passes (alloc_of [failing_task]) refresh_status_rolls_up_to_failed_when_a_task_fails"
  "passes (alloc_of [sleep_task]) refresh_status_stays_running_while_a_task_lives"
  "passes (alloc_of [sleep_task, sleep_task]) run_starts_every_task_then_destroy_stops_them"
  by code_simp+

end
