(* ===== verification/Raft_Log.thy ===== *)
theory Raft_Log
  imports State
begin

text \<open>
  \<open>src/src/raft_log.rs\<close>: the log store on disk, one JSON line per entry and a snapshot file.
  The state of an operation is the pair of the store behind its mutex and the disk. The JSON
  codec of \<open>serde_json\<close> is the record \<open>log_codec\<close>; that a text is UTF-8, which \<open>read_to_string\<close> and
  \<open>lines\<close> check before it is decoded, is part of the decoders. \<open>usize\<close> has 64 bits.
\<close>

record raft_log_entry =
  le_index :: u64
  le_term :: u64
  le_timestamp :: int
  le_command :: command

record raft_snapshot =
  rs_state :: state_store
  rs_last_included_index :: u64
  rs_last_included_term :: u64

record log_codec =
  entry_to_string :: "raft_log_entry \<Rightarrow> string result"
  entry_from_str :: "string \<Rightarrow> raft_log_entry result"
  snap_to_string :: "raft_snapshot \<Rightarrow> string result"
  snap_from_str :: "string \<Rightarrow> raft_snapshot result"

record raft_log =
  li_entries :: "raft_log_entry list"
  li_base_index :: u64
  li_log_path :: path
  li_snap_path :: path
  li_poisoned :: bool

type_synonym log_world = "raft_log \<times> disk"

definition on_disk :: "(disk \<Rightarrow> 'a result \<times> disk) \<Rightarrow> log_world \<Rightarrow> 'a result \<times> log_world" where
  "on_disk m w = (case w of (L, d) \<Rightarrow> (case m d of (r, d') \<Rightarrow> (r, (L, d'))))"

definition on_log :: "(raft_log \<Rightarrow> raft_log) \<Rightarrow> log_world \<Rightarrow> unit result \<times> log_world" where
  "on_log f w = (case w of (L, d) \<Rightarrow> (Inr (), (f L, d)))"

definition log_lock :: "log_world \<Rightarrow> raft_log result \<times> log_world" where
  "log_lock w = (if li_poisoned (fst w) then (Inl (Runtime ''raft log mutex poisoned''), w)
                 else (Inr (fst w), w))"

section \<open>Operations\<close>

definition load_base :: "log_codec \<Rightarrow> path \<Rightarrow> disk \<Rightarrow> u64 result \<times> disk" where
  "load_base X snap_path d =
     (if fs_exists snap_path d then
        sbind (fs_read snap_path) (\<lambda>data.
        sbind (slift (snap_from_str X data)) (\<lambda>snap.
        slift (Inr (rs_last_included_index snap + 1)))) d
      else (Inr 1, d))"

definition load_entries :: "log_codec \<Rightarrow> path \<Rightarrow> disk \<Rightarrow> raft_log_entry list result \<times> disk" where
  "load_entries X log_path d =
     (if fs_exists log_path d then
        sbind (fs_read log_path) (\<lambda>text.
        slift (try_map (entry_from_str X) (filter (\<lambda>l. l \<noteq> []) (lines_of text)))) d
      else (Inr [], d))"

definition log_open :: "log_codec \<Rightarrow> path \<Rightarrow> disk \<Rightarrow> raft_log result \<times> disk" where
  "log_open X base_path =
     (let log_path = with_extension base_path ''log'';
          snap_path = with_extension base_path ''snap''
      in sbind (load_base X snap_path) (\<lambda>base_index.
         sbind (load_entries X log_path) (\<lambda>entries.
         slift (Inr \<lparr>li_entries = entries, li_base_index = base_index, li_log_path = log_path,
                     li_snap_path = snap_path, li_poisoned = False\<rparr>))))"

definition log_append ::
    "log_codec \<Rightarrow> int \<Rightarrow> u64 \<Rightarrow> command \<Rightarrow> log_world \<Rightarrow> raft_log_entry result \<times> log_world" where
  "log_append X now trm command =
     sbind log_lock (\<lambda>inner.
     let index = li_base_index inner + of_nat (length (li_entries inner));
         entry = \<lparr>le_index = index, le_term = trm, le_timestamp = now, le_command = command\<rparr>
     in sbind (slift (entry_to_string X entry)) (\<lambda>line.
        sbind (on_disk (fs_open_append (li_log_path inner))) (\<lambda>_.
        sbind (on_disk (write_all (li_log_path inner) (line @ [CHR 0x0A]))) (\<lambda>_.
        sbind (on_log (\<lambda>L. L\<lparr>li_entries := li_entries L @ [entry]\<rparr>)) (\<lambda>_.
        slift (Inr entry))))))"

definition log_get :: "raft_log \<Rightarrow> u64 \<Rightarrow> raft_log_entry option" where
  "log_get L index =
     (if li_poisoned L then None
      else if index < li_base_index L then None
      else let pos = unat (index - li_base_index L)
           in if pos < length (li_entries L) then Some (li_entries L ! pos) else None)"

definition entries_from :: "raft_log \<Rightarrow> u64 \<Rightarrow> raft_log_entry list" where
  "entries_from L from_index =
     (if li_poisoned L then []
      else if from_index < li_base_index L then li_entries L
      else let pos = unat (from_index - li_base_index L)
           in if pos \<le> length (li_entries L) then drop pos (li_entries L) else [])"

definition saturating_sub1 :: "u64 \<Rightarrow> u64" where
  "saturating_sub1 x = (if x = 0 then 0 else x - 1)"

definition end_index :: "raft_log \<Rightarrow> u64" where
  "end_index L =
     (if li_entries L = [] then saturating_sub1 (li_base_index L)
      else li_base_index L + of_nat (length (li_entries L)) - 1)"

definition last_index :: "raft_log \<Rightarrow> u64" where
  "last_index L = (if li_poisoned L then 0 else end_index L)"

definition last_term :: "raft_log \<Rightarrow> u64" where
  "last_term L =
     (if li_poisoned L then 0
      else if li_entries L = [] then 0 else le_term (last (li_entries L)))"

definition log_len :: "raft_log \<Rightarrow> nat" where
  "log_len L = (if li_poisoned L then 0 else length (li_entries L))"

definition log_is_empty :: "raft_log \<Rightarrow> bool" where
  "log_is_empty L \<longleftrightarrow> log_len L = 0"

definition store_snapshot :: "log_codec \<Rightarrow> path \<Rightarrow> raft_snapshot \<Rightarrow> disk \<Rightarrow> unit result \<times> disk" where
  "store_snapshot X snap_path snapshot =
     (let tmp_path = with_extension snap_path ''snap.tmp''
      in sbind (slift (snap_to_string X snapshot)) (\<lambda>data.
         sbind (fs_write tmp_path data) (\<lambda>_.
         fs_rename tmp_path snap_path)))"

fun write_entries :: "log_codec \<Rightarrow> path \<Rightarrow> raft_log_entry list \<Rightarrow> disk \<Rightarrow> unit result \<times> disk" where
  "write_entries X p [] = slift (Inr ())"
| "write_entries X p (e # es) =
     sbind (slift (entry_to_string X e)) (\<lambda>line.
     sbind (write_all p (line @ [CHR 0x0A])) (\<lambda>_.
     write_entries X p es))"

definition rewrite_log :: "log_codec \<Rightarrow> log_world \<Rightarrow> unit result \<times> log_world" where
  "rewrite_log X w =
     on_disk (sbind (fs_create (li_log_path (fst w))) (\<lambda>_.
                write_entries X (li_log_path (fst w)) (li_entries (fst w)))) w"

definition create_snapshot ::
    "log_codec \<Rightarrow> state_store \<Rightarrow> u64 \<Rightarrow> log_world \<Rightarrow> raft_snapshot result \<times> log_world" where
  "create_snapshot X s last_included_term =
     sbind log_lock (\<lambda>inner.
     let last_included_index = end_index inner;
         snapshot = \<lparr>rs_state = s, rs_last_included_index = last_included_index,
                     rs_last_included_term = last_included_term\<rparr>
     in sbind (on_disk (store_snapshot X (li_snap_path inner) snapshot)) (\<lambda>_.
        let truncate_at = (if li_base_index inner \<le> last_included_index
                           then unat (last_included_index - li_base_index inner + 1) else 0);
            truncate_count = min truncate_at (length (li_entries inner))
        in sbind (on_log (\<lambda>L. L\<lparr>li_entries := drop truncate_count (li_entries L),
                                li_base_index := last_included_index + 1\<rparr>)) (\<lambda>_.
           sbind (rewrite_log X) (\<lambda>_.
           slift (Inr snapshot)))))"

definition install_snapshot ::
    "log_codec \<Rightarrow> raft_snapshot \<Rightarrow> log_world \<Rightarrow> unit result \<times> log_world" where
  "install_snapshot X snapshot =
     sbind log_lock (\<lambda>inner.
     sbind (on_disk (store_snapshot X (li_snap_path inner) snapshot)) (\<lambda>_.
     sbind (on_log (\<lambda>L. L\<lparr>li_entries := [], li_base_index := rs_last_included_index snapshot + 1\<rparr>)) (\<lambda>_.
     on_disk (fs_create (li_log_path inner)))))"

definition log_truncate :: "log_codec \<Rightarrow> u64 \<Rightarrow> log_world \<Rightarrow> unit result \<times> log_world" where
  "log_truncate X from_index =
     sbind log_lock (\<lambda>inner.
     let pos = (if li_base_index inner \<le> from_index
                then unat (from_index - li_base_index inner) else 0)
     in if length (li_entries inner) \<le> pos then slift (Inr ())
        else sbind (on_log (\<lambda>L. L\<lparr>li_entries := take pos (li_entries L)\<rparr>)) (\<lambda>_.
             rewrite_log X))"

section \<open>The invariant of the store\<close>

text \<open>
  What is relied on of the codec: what it encodes it decodes to the same value, and an encoded
  entry is one non-empty line.
\<close>

definition log_codec_ok :: "log_codec \<Rightarrow> bool" where
  "log_codec_ok X \<longleftrightarrow>
     (\<forall>e l. entry_to_string X e = Inr l \<longrightarrow> entry_from_str X l = Inr e \<and> line_text l) \<and>
     (\<forall>s t. snap_to_string X s = Inr t \<longrightarrow> snap_from_str X t = Inr s)"

definition entry_line :: "log_codec \<Rightarrow> raft_log_entry \<Rightarrow> string" where
  "entry_line X e = (case entry_to_string X e of Inl _ \<Rightarrow> [] | Inr l \<Rightarrow> l)"

definition log_text :: "log_codec \<Rightarrow> raft_log_entry list \<Rightarrow> string" where
  "log_text X es = concat (map (\<lambda>l. l @ [CHR 0x0A]) (map (entry_line X) es))"

definition encodable :: "log_codec \<Rightarrow> raft_log_entry list \<Rightarrow> bool" where
  "encodable X es \<longleftrightarrow> (\<forall>e\<in>set es. is_ok (entry_to_string X e))"

definition valid_base :: "path \<Rightarrow> bool" where
  "valid_base base \<longleftrightarrow> base \<noteq> [] \<and> last base \<noteq> [] \<and> last base \<noteq> ''..''"

definition log_paths :: "path \<Rightarrow> raft_log \<Rightarrow> bool" where
  "log_paths base L \<longleftrightarrow> valid_base base \<and> li_log_path L = with_extension base ''log'' \<and>
     li_snap_path L = with_extension base ''snap''"

definition base_follows :: "log_codec \<Rightarrow> string option \<Rightarrow> u64 \<Rightarrow> bool" where
  "base_follows X snap base =
     (case snap of
        None \<Rightarrow> base = 1
      | Some t \<Rightarrow> (case snap_from_str X t of
                   Inl _ \<Rightarrow> False
                 | Inr s \<Rightarrow> base = rs_last_included_index s + 1))"

text \<open>The disk holds exactly the entries in memory, and the snapshot the base index follows.\<close>

definition synced :: "log_codec \<Rightarrow> log_world \<Rightarrow> bool" where
  "synced X w \<longleftrightarrow> (case w of (L, d) \<Rightarrow>
     encodable X (li_entries L) \<and>
     (files d (li_log_path L) = Some (log_text X (li_entries L)) \<or>
      files d (li_log_path L) = None \<and> li_entries L = []) \<and>
     base_follows X (files d (li_snap_path L)) (li_base_index L))"

definition contiguous :: "raft_log \<Rightarrow> bool" where
  "contiguous L \<longleftrightarrow>
     (\<forall>i < length (li_entries L). le_index (li_entries L ! i) = li_base_index L + of_nat i)"

definition no_overflow :: "raft_log \<Rightarrow> bool" where
  "no_overflow L \<longleftrightarrow> 0 < unat (li_base_index L) \<and>
     unat (li_base_index L) + length (li_entries L) < 2 ^ 64"

lemma on_disk_eq:
  "on_disk m (L, d) = (r, w) \<longleftrightarrow> (\<exists>d'. m d = (r, d') \<and> w = (L, d'))"
  by (auto simp: on_disk_def split: prod.split)

lemma on_log_eq [simp]: "on_log f (L, d) = (Inr (), (f L, d))"
  by (simp add: on_log_def)

lemma log_lock_Inr: "log_lock (L, d) = (Inr x, w) \<longleftrightarrow> \<not> li_poisoned L \<and> x = L \<and> w = (L, d)"
  by (auto simp: log_lock_def)

lemmas log_run = sbind_Inr on_disk_eq log_lock_Inr Let_def

lemma log_text_simps [simp]:
  "log_text X [] = []"
  "log_text X (es @ [e]) = log_text X es @ entry_line X e @ [CHR 0x0A]"
  by (simp_all add: log_text_def)

lemma write_entries_ok:
  "write_entries X p es d = (Inr (), d') \<Longrightarrow> files d p \<noteq> None \<Longrightarrow>
     encodable X es \<and> files d' = (files d)(p \<mapsto> content p d @ log_text X es)"
proof (induction es arbitrary: d)
  case Nil
  then show ?case by (auto simp: encodable_def content_def fun_upd_idem)
next
  case (Cons e es)
  then obtain l d1 where "entry_to_string X e = Inr l" and w: "write_all p (l @ [CHR 0x0A]) d = (Inr (), d1)"
    and rest: "write_entries X p es d1 = (Inr (), d')"
    by (auto simp: sbind_Inr)
  moreover from w have "files d1 = (files d)(p \<mapsto> content p d @ l @ [CHR 0x0A])"
    by (rule fs_ops_files)
  ultimately show ?case
    using Cons.IH [OF rest]
    by (auto simp: encodable_def content_def log_text_def entry_line_def fun_eq_iff)
qed

lemma rewrite_log_ok:
  assumes "rewrite_log X (L, d) = (Inr (), w)"
  shows "\<exists>d'. w = (L, d') \<and> encodable X (li_entries L) \<and>
           files d' = (files d)(li_log_path L \<mapsto> log_text X (li_entries L))"
proof -
  from assms obtain d1 d2 where "w = (L, d2)" and c: "fs_create (li_log_path L) d = (Inr (), d1)"
    and we: "write_entries X (li_log_path L) (li_entries L) d1 = (Inr (), d2)"
    by (auto simp: rewrite_log_def log_run)
  moreover from c have "files d1 = (files d)(li_log_path L \<mapsto> [])"
    by (rule fs_ops_files)
  ultimately show ?thesis
    using write_entries_ok [OF we] by (auto simp: content_def)
qed

lemma store_snapshot_ok:
  assumes "store_snapshot X p s d = (Inr (), d')"
  shows "\<exists>t. snap_to_string X s = Inr t \<and>
           files d' = ((files d)(with_extension p ''snap.tmp'' := None))(p \<mapsto> t)"
proof -
  from assms obtain t d1 where t: "snap_to_string X s = Inr t"
    and w: "fs_write (with_extension p ''snap.tmp'') t d = (Inr (), d1)"
    and r: "fs_rename (with_extension p ''snap.tmp'') p d1 = (Inr (), d')"
    by (auto simp: store_snapshot_def log_run)
  from fs_ops_files(2) [OF w] fs_rename_files [OF r] t show ?thesis by auto
qed

text \<open>The three paths of a store are different files.\<close>

lemma file_stem_ne:
  assumes "f \<noteq> []"
  shows "file_stem f \<noteq> []"
proof -
  have "(if length bk \<le> 1 then f else rev (tl bk)) \<noteq> []" for bk :: string
    using assms by (cases bk) auto
  then show ?thesis by (simp only: file_stem_def Let_def not_False_eq_True)
qed

lemma file_stem_snap: "s \<noteq> [] \<Longrightarrow> file_stem (s @ ''.snap'') = s"
  by (auto simp: file_stem_def)

lemma with_extension_last:
  "valid_base base \<Longrightarrow> with_extension base ext = butlast base @ [file_stem (last base) @ ''.'' @ ext]"
  by (simp add: with_extension_def valid_base_def)

lemma paths_distinct:
  assumes "log_paths base L"
  shows "li_log_path L \<noteq> li_snap_path L"
    and "with_extension (li_snap_path L) ''snap.tmp'' \<noteq> li_snap_path L"
    and "with_extension (li_snap_path L) ''snap.tmp'' \<noteq> li_log_path L"
proof -
  let ?s = "file_stem (last base)"
  have s: "?s \<noteq> []" using assms by (simp add: log_paths_def valid_base_def file_stem_ne)
  have snap: "li_snap_path L = butlast base @ [?s @ ''.snap'']"
    and log: "li_log_path L = butlast base @ [?s @ ''.log'']"
    using assms by (simp_all add: log_paths_def with_extension_last)
  have "with_extension (li_snap_path L) ''snap.tmp'' = butlast base @ [?s @ ''.snap.tmp'']"
    using s file_stem_snap [OF s] by (auto simp: with_extension_def snap)
  then show "li_log_path L \<noteq> li_snap_path L"
    and "with_extension (li_snap_path L) ''snap.tmp'' \<noteq> li_snap_path L"
    and "with_extension (li_snap_path L) ''snap.tmp'' \<noteq> li_log_path L"
    by (simp_all add: snap log)
qed

section \<open>Every operation keeps the invariant\<close>

lemma append_cases:
  assumes "log_append X now trm c (L, d) = (Inr e, (L', d'))"
  shows "\<not> li_poisoned L \<and> L' = L\<lparr>li_entries := li_entries L @ [e]\<rparr> \<and>
    e = \<lparr>le_index = li_base_index L + of_nat (length (li_entries L)), le_term = trm,
         le_timestamp = now, le_command = c\<rparr> \<and>
    (\<exists>l. entry_to_string X e = Inr l \<and>
       files d' = (files d)(li_log_path L \<mapsto> content (li_log_path L) d @ l @ [CHR 0x0A]))"
  using assms by (auto simp: log_append_def log_run fs_ops_files content_def)

lemma append_synced:
  assumes "log_append X now trm c (L, d) = (Inr e, (L', d'))" and "synced X (L, d)"
    and "log_paths base L"
  shows "synced X (L', d')"
  using append_cases [OF assms(1)] assms(2) paths_distinct [OF assms(3)]
  by (auto simp: synced_def encodable_def content_def entry_line_def log_text_def)

lemma append_contiguous:
  assumes "log_append X now trm c (L, d) = (Inr e, (L', d'))" and "contiguous L"
  shows "contiguous L'"
  using append_cases [OF assms(1)] assms(2)
  by (auto simp: contiguous_def nth_append less_Suc_eq)

lemma unat_end_index:
  assumes "no_overflow L"
  shows "unat (end_index L) = unat (li_base_index L) + length (li_entries L) - 1"
proof (cases "li_entries L = []")
  case True
  with assms show ?thesis
    by (auto simp: end_index_def saturating_sub1_def no_overflow_def unat_gt_0 unat_minus_one)
next
  case False
  have sum: "unat (li_base_index L + of_nat (length (li_entries L))) =
      unat (li_base_index L) + length (li_entries L)"
    using assms by (simp add: no_overflow_def unat_word_ariths unat_of_nat)
  then have "li_base_index L + of_nat (length (li_entries L)) \<noteq> 0"
    using False by (metis add_is_0 length_0_conv unat_0)
  with False sum show ?thesis
    by (simp add: end_index_def unat_minus_one)
qed

lemma snapshot_drops_all:
  assumes "no_overflow L"
  shows "drop (min (if li_base_index L \<le> end_index L then unat (end_index L - li_base_index L + 1) else 0)
                 (length (li_entries L))) (li_entries L) = []"
proof (cases "li_entries L = []")
  case False
  have u: "unat (end_index L) = unat (li_base_index L) + length (li_entries L) - 1"
    using unat_end_index [OF assms] .
  have le: "li_base_index L \<le> end_index L"
    using u False by (cases "li_entries L") (simp_all add: word_le_nat_alt)
  have "unat (end_index L - li_base_index L + 1) = length (li_entries L)"
    using u le False assms
    by (cases "li_entries L")
      (simp_all add: no_overflow_def unat_sub word_le_nat_alt unat_word_ariths(1))
  with le show ?thesis by simp
qed simp

lemma create_snapshot_cases:
  assumes "create_snapshot X s trm (L, d) = (Inr sn, (L', d'))" and "no_overflow L"
  shows "\<not> li_poisoned L \<and>
    L' = L\<lparr>li_entries := [], li_base_index := end_index L + 1\<rparr> \<and>
    sn = \<lparr>rs_state = s, rs_last_included_index = end_index L, rs_last_included_term = trm\<rparr> \<and>
    (\<exists>t. snap_to_string X sn = Inr t \<and>
       files d' = (((files d)(with_extension (li_snap_path L) ''snap.tmp'' := None))
                     (li_snap_path L \<mapsto> t))(li_log_path L \<mapsto> []))"
proof -
  note drop = snapshot_drops_all [OF assms(2)]
  from assms(1) obtain d1 w where pois: "\<not> li_poisoned L"
    and st: "store_snapshot X (li_snap_path L) \<lparr>rs_state = s, rs_last_included_index = end_index L,
               rs_last_included_term = trm\<rparr> d = (Inr (), d1)"
    and rw: "rewrite_log X (L\<lparr>li_entries := [], li_base_index := end_index L + 1\<rparr>, d1) = (Inr (), w)"
    and fin: "w = (L', d')" "sn = \<lparr>rs_state = s, rs_last_included_index = end_index L,
               rs_last_included_term = trm\<rparr>"
    by (auto simp: create_snapshot_def log_run drop simp del: drop_eq_Nil)
  show ?thesis
    using pois fin store_snapshot_ok [OF st] rewrite_log_ok [OF rw] by auto
qed

lemma synced_snapshot:
  assumes "log_codec_ok X" and "log_paths base L" and "snap_to_string X sn = Inr t"
    and "files d' = (((files d)(with_extension (li_snap_path L) ''snap.tmp'' := None))
                     (li_snap_path L \<mapsto> t))(li_log_path L \<mapsto> [])"
  shows "synced X (L\<lparr>li_entries := [], li_base_index := rs_last_included_index sn + 1\<rparr>, d')"
  using assms paths_distinct [OF assms(2)]
  by (auto simp: synced_def encodable_def base_follows_def log_codec_ok_def)

lemma install_snapshot_cases:
  assumes "install_snapshot X sn (L, d) = (Inr (), (L', d'))"
  shows "\<not> li_poisoned L \<and>
    L' = L\<lparr>li_entries := [], li_base_index := rs_last_included_index sn + 1\<rparr> \<and>
    (\<exists>t. snap_to_string X sn = Inr t \<and>
       files d' = (((files d)(with_extension (li_snap_path L) ''snap.tmp'' := None))
                     (li_snap_path L \<mapsto> t))(li_log_path L \<mapsto> []))"
  using assms by (auto simp: install_snapshot_def log_run fs_ops_files dest!: store_snapshot_ok)

definition truncate_pos :: "raft_log \<Rightarrow> u64 \<Rightarrow> nat" where
  "truncate_pos L i = (if li_base_index L \<le> i then unat (i - li_base_index L) else 0)"

lemma truncate_cases:
  assumes "log_truncate X i (L, d) = (Inr (), (L', d'))"
  shows "\<not> li_poisoned L \<and> L' = L\<lparr>li_entries := take (truncate_pos L i) (li_entries L)\<rparr> \<and>
    (files d' = files d \<and> length (li_entries L) \<le> truncate_pos L i \<or>
     encodable X (li_entries L') \<and>
     files d' = (files d)(li_log_path L \<mapsto> log_text X (li_entries L')))"
proof (cases "length (li_entries L) \<le> truncate_pos L i")
  case True
  with assms show ?thesis
    by (auto simp: log_truncate_def log_run truncate_pos_def)
next
  case False
  with assms obtain w where "\<not> li_poisoned L"
    and rw: "rewrite_log X (L\<lparr>li_entries := take (truncate_pos L i) (li_entries L)\<rparr>, d) = (Inr (), w)"
    and "w = (L', d')"
    by (auto simp: log_truncate_def log_run truncate_pos_def split: if_splits)
  then show ?thesis using rewrite_log_ok [OF rw] by auto
qed

text \<open>
  The steps of a store: the operations that return without an error. A store starts on a disk
  that holds neither of its files.
\<close>

inductive log_step :: "log_codec \<Rightarrow> log_world \<Rightarrow> log_world \<Rightarrow> bool" for X where
  append: "log_append X now trm c w = (Inr e, w') \<Longrightarrow> log_step X w w'"
| snapshot: "\<lbrakk>create_snapshot X s trm w = (Inr sn, w'); no_overflow (fst w)\<rbrakk> \<Longrightarrow> log_step X w w'"
| install: "install_snapshot X sn w = (Inr (), w') \<Longrightarrow> log_step X w w'"
| truncate: "log_truncate X i w = (Inr (), w') \<Longrightarrow> log_step X w w'"

definition log_init :: "log_codec \<Rightarrow> path \<Rightarrow> log_world \<Rightarrow> bool" where
  "log_init X base w \<longleftrightarrow> valid_base base \<and>
     (\<exists>d. log_open X base d = (Inr (fst w), snd w) \<and>
          files d (with_extension base ''log'') = None \<and> files d (with_extension base ''snap'') = None)"

definition log_inv :: "log_codec \<Rightarrow> path \<Rightarrow> log_world \<Rightarrow> bool" where
  "log_inv X base w \<longleftrightarrow>
     log_paths base (fst w) \<and> \<not> li_poisoned (fst w) \<and> contiguous (fst w) \<and> synced X w"

lemma log_init_inv: "log_init X base w \<Longrightarrow> log_inv X base w"
  by (cases w) (auto simp: log_init_def log_inv_def log_open_def load_base_def load_entries_def
      fs_exists_def sbind_def slift_def log_paths_def contiguous_def synced_def encodable_def
      base_follows_def Let_def)

lemma log_step_inv:
  assumes X: "log_codec_ok X" and inv: "log_inv X base w" and st: "log_step X w w'"
  shows "log_inv X base w'"
proof -
  obtain L d where w: "w = (L, d)" by fastforce
  obtain L' d' where w': "w' = (L', d')" by fastforce
  have paths: "log_paths base L" and inv': "contiguous L" "synced X (L, d)" "\<not> li_poisoned L"
    using inv by (simp_all add: log_inv_def w)
  from st show ?thesis
  proof cases
    case (append now trm c e)
    then have run: "log_append X now trm c (L, d) = (Inr e, (L', d'))" by (simp add: w w')
    show ?thesis
      using append_synced [OF run inv'(2) paths] append_contiguous [OF run inv'(1)] append_cases [OF run]
        paths inv' by (simp add: log_inv_def w' log_paths_def)
  next
    case (snapshot s trm sn)
    then have run: "create_snapshot X s trm (L, d) = (Inr sn, (L', d'))" "no_overflow L"
      by (simp_all add: w w')
    show ?thesis
      using create_snapshot_cases [OF run] synced_snapshot [OF X paths, of sn] paths inv'
      by (auto simp: log_inv_def w' log_paths_def contiguous_def)
  next
    case (install sn)
    then have run: "install_snapshot X sn (L, d) = (Inr (), (L', d'))" by (simp add: w w')
    show ?thesis
      using install_snapshot_cases [OF run] synced_snapshot [OF X paths, of sn] paths inv'
      by (auto simp: log_inv_def w' log_paths_def contiguous_def)
  next
    case (truncate i)
    then have run: "log_truncate X i (L, d) = (Inr (), (L', d'))" by (simp add: w w')
    show ?thesis
      using truncate_cases [OF run] paths inv' paths_distinct [OF paths]
      by (auto simp: log_inv_def w' log_paths_def contiguous_def synced_def)
  qed
qed

text \<open>
  The codec is a parameter of the store, so its law enters the transition system: a store whose
  codec breaks the law takes no step.
\<close>

interpretation log_store: inductive_invariant "log_init X base"
    "\<lambda>w w'. log_codec_ok X \<and> log_step X w w'" "log_inv X base" for X base
  by unfold_locales (auto intro: log_init_inv log_step_inv)

abbreviation log_reachable :: "log_codec \<Rightarrow> path \<Rightarrow> log_world \<Rightarrow> bool" where
  "log_reachable X base \<equiv> reachable (log_init X base) (\<lambda>w w'. log_codec_ok X \<and> log_step X w w')"

section \<open>What a caller of the store may rely on\<close>

text \<open>What a log file is read as, and what opening the store makes of its two files.\<close>

definition load_text :: "log_codec \<Rightarrow> string \<Rightarrow> raft_log_entry list result" where
  "load_text X bytes = try_map (entry_from_str X) (filter (\<lambda>l. l \<noteq> []) (lines_of bytes))"

lemma load_text_Nil [simp]: "load_text X [] = Inr []"
  by (simp add: load_text_def lines_of_def)

lemma reopen_text:
  assumes "log_paths base L" and "reliable d" and "base_follows X (files d (li_snap_path L)) b"
    and "files d (li_log_path L) = Some bytes \<or> files d (li_log_path L) = None \<and> bytes = []"
  shows "fst (log_open X base d) =
    (case load_text X bytes of
       Inl e \<Rightarrow> Inl e
     | Inr es \<Rightarrow> Inr (L\<lparr>li_entries := es, li_base_index := b, li_poisoned := False\<rparr>))"
proof -
  have paths: "li_log_path L = with_extension base ''log''" "li_snap_path L = with_extension base ''snap''"
    using assms(1) by (simp_all add: log_paths_def)
  have rel': "reliable (d\<lparr>ops := n\<rparr>)" for n using assms(2) by (simp add: reliable_def)
  obtain n where lb: "load_base X (li_snap_path L) d = (Inr b, d\<lparr>ops := n\<rparr>)"
  proof (cases "files d (li_snap_path L)")
    case None
    with assms(3) have "load_base X (li_snap_path L) d = (Inr b, d\<lparr>ops := ops d\<rparr>)"
      by (simp add: load_base_def fs_exists_def base_follows_def)
    then show ?thesis by (rule that)
  next
    case (Some t)
    with assms(2,3) show ?thesis
      by (auto simp: load_base_def fs_exists_def base_follows_def sbind_def slift_def fs_read_def fs_op_reliable
          intro: that split: sum.splits)
  qed
  have "fst (load_entries X (li_log_path L) (d\<lparr>ops := n\<rparr>)) = load_text X bytes"
    using assms(4) rel' [of n]
    by (auto simp: load_entries_def load_text_def [of X bytes] fs_exists_def sbind_def slift_def fs_read_def
        fs_op_reliable lines_of_def)
  then obtain d2 where "load_entries X (li_log_path L) (d\<lparr>ops := n\<rparr>) = (load_text X bytes, d2)"
    by (metis prod.collapse)
  with lb show ?thesis
    by (cases L) (simp add: log_open_def sbind_def slift_def Let_def split: sum.split flip: paths)
qed

lemma decodable:
  assumes "log_codec_ok X" and "encodable X es"
  shows "\<forall>e\<in>set es. entry_from_str X (entry_line X e) = Inr e \<and> line_text (entry_line X e)"
  using assms by (auto simp: log_codec_ok_def encodable_def entry_line_def is_ok_def split: sum.splits)

lemma try_map_lines:
  "\<forall>e\<in>set es. entry_from_str X (entry_line X e) = Inr e \<Longrightarrow>
     try_map (entry_from_str X) (map (entry_line X) es) = Inr es"
  by (induction es) auto

lemma filter_lines:
  "\<forall>e\<in>set es. line_text (entry_line X e) \<Longrightarrow>
     filter (\<lambda>l. l \<noteq> []) (map (entry_line X) es) = map (entry_line X) es"
  by (auto simp: filter_id_conv line_text_def)

lemma load_log_text:
  assumes "log_codec_ok X" and "encodable X es"
  shows "load_text X (log_text X es) = Inr es"
proof -
  note dec = decodable [OF assms]
  have "lines_of (log_text X es) = map (entry_line X) es"
    unfolding log_text_def using dec by (intro lines_of_concat) auto
  then show ?thesis using dec by (simp add: load_text_def filter_lines try_map_lines)
qed

lemma synced_reopen:
  assumes X: "log_codec_ok X" and inv: "log_inv X base (L, d)" and rel: "reliable d"
  shows "fst (log_open X base d) = Inr L"
proof -
  have "log_paths base L" "base_follows X (files d (li_snap_path L)) (li_base_index L)" "encodable X (li_entries L)"
    "files d (li_log_path L) = Some (log_text X (li_entries L)) \<or>
     files d (li_log_path L) = None \<and> log_text X (li_entries L) = []" "\<not> li_poisoned L"
    using inv by (auto simp: log_inv_def synced_def)
  with reopen_text [OF this(1) rel this(2,4)] X show ?thesis
    by (cases L) (simp add: load_log_text)
qed

lemma contiguous_get:
  assumes "contiguous L" and "no_overflow L" and "\<not> li_poisoned L"
  shows "log_get L i = (if unat (li_base_index L) \<le> unat i \<and>
                           unat i < unat (li_base_index L) + length (li_entries L)
                        then Some (li_entries L ! (unat i - unat (li_base_index L))) else None)"
  using assms by (auto simp: log_get_def word_less_nat_alt unat_sub word_le_nat_alt Let_def)

lemma contiguous_get_index:
  assumes "contiguous L" and "no_overflow L" and "\<not> li_poisoned L" and "log_get L i = Some e"
  shows "le_index e = i"
proof -
  let ?k = "unat i - unat (li_base_index L)"
  have k: "unat (li_base_index L) \<le> unat i" "?k < length (li_entries L)" "e = li_entries L ! ?k"
    using assms by (auto simp: contiguous_get split: if_splits)
  have "le_index e = li_base_index L + of_nat ?k"
    using assms(1) k by (simp add: contiguous_def)
  also have "\<dots> = of_nat (unat (li_base_index L) + ?k)" by simp
  also have "\<dots> = i" using k(1) by simp
  finally show ?thesis .
qed

section \<open>A sample run\<close>

text \<open>
  A codec that can encode one entry and one snapshot, a fresh store, and the store after the
  entry was appended: the input on which the properties above are applied.
\<close>

definition sample_entry :: raft_log_entry where
  "sample_entry = \<lparr>le_index = 1, le_term = 7, le_timestamp = 0, le_command = DeregisterJob ''shop''\<rparr>"

definition sample_snap :: raft_snapshot where
  "sample_snap = \<lparr>rs_state = state_new, rs_last_included_index = 1, rs_last_included_term = 7\<rparr>"

definition sample_codec :: log_codec where
  "sample_codec =
     \<lparr>entry_to_string = (\<lambda>e. if e = sample_entry then Inr ''{entry}'' else Inl (Serialize [])),
      entry_from_str = (\<lambda>t. if t = ''{entry}'' then Inr sample_entry else Inl (Serialize [])),
      snap_to_string = (\<lambda>s. if s = sample_snap then Inr ''{snap}'' else Inl (Serialize [])),
      snap_from_str = (\<lambda>t. if t = ''{snap}'' then Inr sample_snap else Inl (Serialize []))\<rparr>"

definition fresh_disk :: disk where
  "fresh_disk = \<lparr>files = Map.empty, faults = (\<lambda>_. None), ops = 0\<rparr>"

definition fresh_log :: raft_log where
  "fresh_log = \<lparr>li_entries = [], li_base_index = 1, li_log_path = [''raft.log''],
                li_snap_path = [''raft.snap''], li_poisoned = False\<rparr>"

definition used_log :: raft_log where
  "used_log = fresh_log\<lparr>li_entries := [sample_entry]\<rparr>"

definition used_disk :: disk where
  "used_disk = \<lparr>files = [[''raft.log''] \<mapsto> ''{entry}'' @ [CHR 0x0A]], faults = (\<lambda>_. None), ops = 2\<rparr>"

lemmas sample_log_defs = sample_codec_def sample_entry_def sample_snap_def fresh_disk_def fresh_log_def
  used_log_def used_disk_def

lemma sample_codec_ok: "log_codec_ok sample_codec"
  by (auto simp: log_codec_ok_def sample_codec_def line_text_def split: if_splits)

lemma with_extension_raft: "with_extension [''raft''] ext = [''raft.'' @ ext]"
  by (simp add: with_extension_def file_stem_def)

lemma sample_open: "log_open sample_codec [''raft''] fresh_disk = (Inr fresh_log, fresh_disk)"
  by (simp add: log_open_def load_base_def load_entries_def fs_exists_def sbind_def slift_def
      with_extension_raft fresh_disk_def fresh_log_def Let_def)

lemma sample_append:
  "log_append sample_codec 0 7 (DeregisterJob ''shop'') (fresh_log, fresh_disk) =
     (Inr sample_entry, (used_log, used_disk))"
  by (simp add: log_append_def log_lock_def sbind_def slift_def on_disk_def Let_def sample_log_defs
      fs_open_append_def write_all_def fs_op_def content_def)

lemma sample_log_reachable: "log_reachable sample_codec [''raft''] (used_log, used_disk)"
proof (rule reach_step)
  show "log_reachable sample_codec [''raft''] (fresh_log, fresh_disk)"
    using sample_open
    by (intro reach_init) (auto simp: log_init_def valid_base_def fresh_disk_def intro!: exI [of _ fresh_disk])
  show "log_codec_ok sample_codec \<and> log_step sample_codec (fresh_log, fresh_disk) (used_log, used_disk)"
    using sample_codec_ok sample_append by (auto intro: log_step.append)
qed

lemma sample_log_facts:
  "reliable used_disk" "contiguous used_log" "no_overflow used_log" "contiguous fresh_log" "no_overflow fresh_log"
  by (simp_all add: reliable_def contiguous_def no_overflow_def sample_log_defs)

section \<open>Properties\<close>

text \<open>C15. Whatever sequence of successful appends, snapshots, installed snapshots and truncations
  led to a store, opening its base path again on a disk that does not fail gives back the same
  entries, the same base index and the same paths: nothing is lost at a restart and nothing
  comes back that was truncated or compacted away.\<close>

theorem reopen_restores:
  assumes "log_codec_ok X" and "log_reachable X base (L, d)" and "reliable d"
  shows "fst (log_open X base d) = Inr L"
  using assms log_store.reachable_inv by (intro synced_reopen)

theorem reopen_restores_witness:
  "fst (log_open sample_codec [''raft''] used_disk) = Inr used_log \<and> log_len used_log = 1"
  using reopen_restores [OF sample_codec_ok sample_log_reachable sample_log_facts(1)]
  by (simp add: log_len_def used_log_def fresh_log_def)

text \<open>In a reachable store whose indices have not run out of 64 bits, looking up an index
  gives an entry exactly for the indices from the base index on for which there is an entry,
  and the entry it gives carries that index.\<close>

theorem log_get_exact:
  assumes "log_reachable X base (L, d)" and "no_overflow L"
  shows "(log_get L i \<noteq> None \<longleftrightarrow>
           unat (li_base_index L) \<le> unat i \<and> unat i < unat (li_base_index L) + log_len L) \<and>
         (case log_get L i of None \<Rightarrow> True | Some e \<Rightarrow> le_index e = i \<and> e \<in> set (li_entries L))"
proof -
  have inv: "contiguous L" "\<not> li_poisoned L"
    using log_store.reachable_inv [OF assms(1)] by (simp_all add: log_inv_def)
  have "e \<in> set (li_entries L)" if "log_get L i = Some e" for e
    using that by (auto simp: log_get_def Let_def split: if_splits)
  then show ?thesis
    using inv assms(2) contiguous_get_index [OF inv(1) assms(2) inv(2), of i]
    by (auto simp: contiguous_get log_len_def split: option.split)
qed

theorem log_get_exact_witness: "log_get used_log 1 \<noteq> None \<and> log_get used_log 2 = None"
  using log_get_exact [OF sample_log_reachable sample_log_facts(3), of 1]
    log_get_exact [OF sample_log_reachable sample_log_facts(3), of 2]
  by (auto simp: used_log_def fresh_log_def log_len_def)

text \<open>An append that succeeds takes the index after the last one, keeps every earlier entry
  under its index and is found under its own; one that fails leaves the entries in memory as
  they were.\<close>

theorem append_behaviour:
  assumes "contiguous L" and "no_overflow L" and "Suc (unat (li_base_index L) + length (li_entries L)) < 2 ^ 64"
  shows "case log_append X now trm c (L, d) of
      (Inr e, (L', d')) \<Rightarrow>
        le_index e = end_index L + 1 \<and> last_index L' = le_index e \<and> last_term L' = trm \<and>
        log_get L' (le_index e) = Some e \<and>
        (\<forall>i. unat i < unat (le_index e) \<longrightarrow> log_get L' i = log_get L i)
    | (Inl _, (L', d')) \<Rightarrow> L' = L"
proof (cases "fst (log_append X now trm c (L, d))")
  case (Inl err)
  then show ?thesis
    by (auto simp: log_append_def Let_def sbind_def slift_def on_disk_def log_lock_def
        split: prod.splits sum.splits)
next
  case (Inr e)
  obtain L' d' where run: "log_append X now trm c (L, d) = (Inr e, (L', d'))"
    using Inr by (metis prod.collapse)
  note L' = append_cases [OF run]
  have cont: "contiguous L'" by (rule append_contiguous [OF run assms(1)])
  have ovf: "no_overflow L'" using L' assms by (simp add: no_overflow_def)
  have e: "unat (le_index e) = unat (li_base_index L) + length (li_entries L)"
    using L' assms(2) by (simp add: no_overflow_def unat_word_ariths unat_of_nat)
  have "unat (end_index L + 1) = unat (le_index e)"
    using e unat_end_index [OF assms(2)] assms(2)
    by (simp add: no_overflow_def unat_word_ariths(1))
  then have idx: "le_index e = end_index L + 1" by (simp add: word_unat_eq_iff)
  have "log_get L' (le_index e) = Some e"
    using L' cont ovf e by (simp add: contiguous_get)
  moreover have "log_get L' i = log_get L i" if "unat i < unat (le_index e)" for i
    using that L' cont ovf e assms by (auto simp: contiguous_get nth_append)
  ultimately show ?thesis
    using run L' idx e by (simp add: last_index_def last_term_def end_index_def algebra_simps)
qed

theorem append_behaviour_witness:
  "le_index sample_entry = end_index fresh_log + 1 \<and> log_get used_log 1 = Some sample_entry"
proof -
  have "Suc (unat (li_base_index fresh_log) + length (li_entries fresh_log)) < 2 ^ 64"
    by (simp add: fresh_log_def)
  from append_behaviour [OF sample_log_facts(4,5) this, where X = sample_codec and now = 0 and
      trm = 7 and c = "DeregisterJob ''shop''" and d = fresh_disk]
  show ?thesis
    unfolding sample_append by (simp add: sample_entry_def)
qed

text \<open>A snapshot that succeeds covers exactly the log so far: it records the last index, leaves
  no entry in memory, and the next append continues after it.\<close>

theorem create_snapshot_compacts:
  assumes "create_snapshot X s trm (L, d) = (Inr sn, (L', d'))" and "no_overflow L"
  shows "rs_state sn = s \<and> rs_last_included_index sn = last_index L \<and> log_is_empty L' \<and>
    unat (last_index L) = unat (li_base_index L) + length (li_entries L) - 1 \<and>
    last_index L' = last_index L"
proof -
  note cs = create_snapshot_cases [OF assms]
  have "unat (end_index L) < 2 ^ 64 - 1"
    using unat_end_index [OF assms(2)] assms(2) unfolding no_overflow_def by linarith
  then have "unat (end_index L + 1) = Suc (unat (end_index L))"
    by (simp add: unat_word_ariths(1))
  then have "end_index L + 1 \<noteq> 0" by auto
  then have "end_index (L\<lparr>li_entries := [], li_base_index := end_index L + 1\<rparr>) = end_index L"
    unfolding end_index_def [of "L\<lparr>li_entries := [], li_base_index := end_index L + 1\<rparr>"]
    by (simp add: saturating_sub1_def)
  with cs unat_end_index [OF assms(2)] show ?thesis
    by (auto simp: last_index_def log_is_empty_def log_len_def)
qed

theorem create_snapshot_compacts_witness:
  "\<exists>L' d'. create_snapshot sample_codec state_new 7 (used_log, used_disk) = (Inr sample_snap, (L', d')) \<and>
     log_is_empty L' \<and> last_index L' = 1"
proof -
  obtain L' d' where run:
    "create_snapshot sample_codec state_new 7 (used_log, used_disk) = (Inr sample_snap, (L', d'))"
    by (simp add: create_snapshot_def log_lock_def sbind_def slift_def on_disk_def Let_def sample_log_defs
        store_snapshot_def rewrite_log_def fs_defs fs_op_def content_def end_index_def with_extension_def
        file_stem_def)
  have "last_index used_log = 1" by (simp add: last_index_def end_index_def sample_log_defs)
  with run create_snapshot_compacts [OF run sample_log_facts(3)] show ?thesis by auto
qed

text \<open>A truncation that succeeds keeps exactly the entries whose index is below the given one,
  in their order.\<close>

theorem truncate_keeps_below:
  assumes "log_truncate X i (L, d) = (Inr (), (L', d'))" and "contiguous L" and "no_overflow L"
  shows "li_entries L' = filter (\<lambda>e. unat (le_index e) < unat i) (li_entries L)"
proof -
  have idx: "unat (le_index (li_entries L ! k)) = unat (li_base_index L) + k"
    if "k < length (li_entries L)" for k
    using that assms(2,3) by (simp add: contiguous_def no_overflow_def unat_word_ariths unat_of_nat)
  have pos: "truncate_pos L i = unat i - unat (li_base_index L)"
    by (simp add: truncate_pos_def word_le_nat_alt unat_sub)
  have "filter (\<lambda>e. unat (le_index e) < unat i) (take n (li_entries L)) =
      take (min n (truncate_pos L i)) (li_entries L)" if "n \<le> length (li_entries L)" for n
    using that
  proof (induction n)
    case (Suc n)
    then show ?case
      using idx [of n]
      by (cases "n < unat i - unat (li_base_index L)") (auto simp: take_Suc_conv_app_nth pos min_def)
  qed simp
  from this [of "length (li_entries L)"] truncate_cases [OF assms(1)] show ?thesis
    by (simp add: min_def)
qed

theorem truncate_keeps_below_witness:
  "\<exists>L' d'. log_truncate sample_codec 1 (used_log, used_disk) = (Inr (), (L', d')) \<and> li_entries L' = []"
proof -
  obtain L' d' where run: "log_truncate sample_codec 1 (used_log, used_disk) = (Inr (), (L', d'))"
    by (simp add: log_truncate_def log_lock_def sbind_def slift_def on_disk_def Let_def sample_log_defs
        rewrite_log_def fs_defs fs_op_def)
  from truncate_keeps_below [OF run sample_log_facts(2,3)] run show ?thesis
    by (simp add: used_log_def sample_entry_def)
qed

end
