(* ===== verification/Client_State.thy ===== *)
theory Client_State
  imports Runner
begin

text \<open>
  \<open>src/src/client_state.rs\<close>: the client's allocations and task states in a SQLite database.
  The \<open>rusqlite\<close> crate is a parameter: executing one of the statements the source issues, and
  querying the allocations. What the statements mean in SQL is the definition \<open>sql_exec\<close> on the
  two tables, which enters the theorems through the hypothesis \<open>sqlite_ok\<close>.
\<close>

section \<open>Rows and statements\<close>

record alloc_row =
  row_id :: string
  row_eval_id :: string
  row_node_id :: string
  row_job_id :: string
  row_task_group :: string
  row_desired_status :: string
  row_client_status :: string
  row_cpu_mhz :: int
  row_memory_mb :: int
  row_network_mbps :: int

datatype sql =
    CreateTables
  | InsertAlloc alloc_row
  | InsertTaskState string string string int
  | DeleteTaskStates string
  | DeleteAlloc string

text \<open>The database handle: its result and the database afterwards.\<close>

record 'd sqlite =
  db_open :: "string \<Rightarrow> string + 'd"
  db_execute :: "sql \<Rightarrow> 'd \<Rightarrow> (string + unit) \<times> 'd"
  db_select_allocs :: "'d \<Rightarrow> string + alloc_row list"

text \<open>\<open>?\<close> on a \<open>rusqlite\<close> result converts its error to \<open>Error::Database\<close>.\<close>

definition execute :: "'d sqlite \<Rightarrow> sql \<Rightarrow> 'd \<Rightarrow> unit result \<times> 'd" where
  "execute X st d =
     (case db_execute X st d of (Inl e, d') \<Rightarrow> (Inl (Database e), d') | (Inr _, d') \<Rightarrow> (Inr (), d'))"

section \<open>Operations\<close>

definition client_state_open :: "'d sqlite \<Rightarrow> string \<Rightarrow> 'd result" where
  "client_state_open X path =
     (case db_open X path of
        Inl e \<Rightarrow> Inl (Database e)
      | Inr d \<Rightarrow> (case execute X CreateTables d of (Inl e, _) \<Rightarrow> Inl e | (Inr _, d') \<Rightarrow> Inr d'))"

definition alloc_to_row :: "allocation \<Rightarrow> alloc_row" where
  "alloc_to_row a =
     \<lparr>row_id = al_id a, row_eval_id = al_eval_id a, row_node_id = al_node_id a,
      row_job_id = al_job_id a, row_task_group = al_task_group a,
      row_desired_status = desired_status_as_str (al_desired_status a),
      row_client_status = client_status_as_str (al_client_status a),
      row_cpu_mhz = sint (cpu_mhz (al_resources a)), row_memory_mb = sint (memory_mb (al_resources a)),
      row_network_mbps = sint (network_mbps (al_resources a))\<rparr>"

definition cs_upsert_alloc :: "'d sqlite \<Rightarrow> allocation \<Rightarrow> 'd \<Rightarrow> unit result \<times> 'd" where
  "cs_upsert_alloc X a = execute X (InsertAlloc (alloc_to_row a))"

definition parse_desired_status :: "string \<Rightarrow> desired_status" where
  "parse_desired_status s =
     (if s = ''stop'' then DStop else if s = ''evict'' then DEvict else DRun)"

definition parse_client_status :: "string \<Rightarrow> client_status" where
  "parse_client_status s =
     (if s = ''running'' then CRunning else if s = ''complete'' then CComplete
      else if s = ''failed'' then CFailed else if s = ''lost'' then CLost else CPending)"

text \<open>\<open>row.get\<close> into an \<open>i32\<close> fails outside its range.\<close>

definition get_i32 :: "int \<Rightarrow> i32 result" where
  "get_i32 i =
     (if - 2147483648 \<le> i \<and> i \<le> 2147483647 then Inr (word_of_int i)
      else Inl (Database (''Integer '' @ show_int i @ '' out of range'')))"

definition row_to_alloc :: "alloc_row \<Rightarrow> allocation result" where
  "row_to_alloc r =
     and_then (get_i32 (row_cpu_mhz r)) (\<lambda>cpu.
     and_then (get_i32 (row_memory_mb r)) (\<lambda>mem.
     and_then (get_i32 (row_network_mbps r)) (\<lambda>net.
     Inr \<lparr>al_id = row_id r, al_eval_id = row_eval_id r, al_node_id = row_node_id r,
          al_job_id = row_job_id r, al_task_group = row_task_group r,
          al_desired_status = parse_desired_status (row_desired_status r),
          al_client_status = parse_client_status (row_client_status r),
          al_resources = \<lparr>cpu_mhz = cpu, memory_mb = mem, network_mbps = net\<rparr>\<rparr>)))"

definition cs_list_allocs :: "'d sqlite \<Rightarrow> 'd \<Rightarrow> allocation list result" where
  "cs_list_allocs X d =
     (case db_select_allocs X d of
        Inl e \<Rightarrow> Inl (Database e)
      | Inr rows \<Rightarrow> try_map row_to_alloc rows)"

fun task_state_str :: "task_state \<Rightarrow> string" where
  "task_state_str TPending = ''pending''"
| "task_state_str TRunning = ''running''"
| "task_state_str TExited = ''exited''"
| "task_state_str TFailed = ''failed''"
| "task_state_str TUnknown = ''unknown''"

definition set_task_state ::
    "'d sqlite \<Rightarrow> alloc_id \<Rightarrow> string \<Rightarrow> task_state \<Rightarrow> u32 \<Rightarrow> 'd \<Rightarrow> unit result \<times> 'd" where
  "set_task_state X aid name st restarts =
     execute X (InsertTaskState aid name (task_state_str st) (uint restarts))"

definition cs_delete_alloc :: "'d sqlite \<Rightarrow> alloc_id \<Rightarrow> 'd \<Rightarrow> unit result \<times> 'd" where
  "cs_delete_alloc X aid =
     sbind (execute X (DeleteTaskStates aid)) (\<lambda>_. execute X (DeleteAlloc aid))"

section \<open>What the statements mean\<close>

text \<open>
  The two tables by primary key. An insert with \<open>ON CONFLICT DO UPDATE\<close> replaces the row of a
  present key. With foreign keys on, a task state needs its allocation, and an allocation that
  task states refer to cannot be deleted.
\<close>

record tables =
  t_allocs :: "(string, alloc_row) hashmap"
  t_tasks :: "(string \<times> string, string \<times> int) hashmap"

fun sql_exec :: "sql \<Rightarrow> tables \<Rightarrow> string + tables" where
  "sql_exec CreateTables t = Inr t"
| "sql_exec (InsertAlloc r) t = Inr (t\<lparr>t_allocs := hm_insert (row_id r) r (t_allocs t)\<rparr>)"
| "sql_exec (InsertTaskState aid name st n) t =
     (if aid \<in> set (hm_keys (t_allocs t))
      then Inr (t\<lparr>t_tasks := hm_insert (aid, name) (st, n) (t_tasks t)\<rparr>)
      else Inl ''FOREIGN KEY constraint failed'')"
| "sql_exec (DeleteTaskStates aid) t =
     Inr (t\<lparr>t_tasks := filter (\<lambda>e. fst (fst e) \<noteq> aid) (t_tasks t)\<rparr>)"
| "sql_exec (DeleteAlloc aid) t =
     (if \<exists>e\<in>set (t_tasks t). fst (fst e) = aid then Inl ''FOREIGN KEY constraint failed''
      else Inr (t\<lparr>t_allocs := hm_remove aid (t_allocs t)\<rparr>))"

text \<open>
  The database implements the statements: one that succeeds has its SQL effect, one that fails
  changes no table, and a query returns every row once, in some order. \<open>faultless\<close> is a database
  that fails only where SQL does.
\<close>

definition sqlite_ok :: "'d sqlite \<Rightarrow> ('d \<Rightarrow> tables) \<Rightarrow> bool" where
  "sqlite_ok X tbl \<longleftrightarrow>
     (\<forall>st d. case db_execute X st d of
               (Inr _, d') \<Rightarrow> sql_exec st (tbl d) = Inr (tbl d')
             | (Inl _, d') \<Rightarrow> tbl d' = tbl d) \<and>
     (\<forall>d rows. db_select_allocs X d = Inr rows \<longrightarrow> mset rows = mset (hm_values (t_allocs (tbl d))))"

definition faultless :: "'d sqlite \<Rightarrow> ('d \<Rightarrow> tables) \<Rightarrow> bool" where
  "faultless X tbl \<longleftrightarrow>
     (\<forall>st d. is_ok (sql_exec st (tbl d)) \<longrightarrow> is_ok (fst (db_execute X st d))) \<and>
     (\<forall>d. is_ok (db_select_allocs X d))"

section \<open>Reading back\<close>

lemma parse_status_as_str [simp]:
  "parse_desired_status (desired_status_as_str s) = s"
  "parse_client_status (client_status_as_str c) = c"
  by (cases s; simp add: parse_desired_status_def) (cases c; simp add: parse_client_status_def)

lemma get_i32_sint [simp]: "get_i32 (sint (w :: i32)) = Inr w"
  using sint_i32_bounds [of w] by (simp add: get_i32_def)

lemma row_to_alloc_to_row [simp]: "row_to_alloc (alloc_to_row a) = Inr a"
  by (simp add: row_to_alloc_def alloc_to_row_def)

lemma row_id_alloc [simp]: "row_id (alloc_to_row a) = al_id a"
  by (simp add: alloc_to_row_def)

text \<open>
  The tables a client writes: distinct keys, every row the image of an allocation under its id,
  and every task state under a stored allocation.
\<close>

definition tables_ok :: "tables \<Rightarrow> bool" where
  "tables_ok t \<longleftrightarrow> hm_wf (t_allocs t) \<and>
     (\<forall>(k, r)\<in>set (t_allocs t). \<exists>a. r = alloc_to_row a \<and> al_id a = k) \<and>
     (\<forall>e\<in>set (t_tasks t). fst (fst e) \<in> set (hm_keys (t_allocs t)))"

text \<open>What the client has stored: the allocation under an id.\<close>

definition stored :: "tables \<Rightarrow> alloc_id \<Rightarrow> allocation option" where
  "stored t i = map_option (\<lambda>r. projr (row_to_alloc r)) (hm_get (t_allocs t) i)"

datatype cs_op = Upsert allocation | SetTask alloc_id string task_state u32 | Remove alloc_id

fun cs_apply :: "'d sqlite \<Rightarrow> cs_op \<Rightarrow> 'd \<Rightarrow> unit result \<times> 'd" where
  "cs_apply X (Upsert a) = cs_upsert_alloc X a"
| "cs_apply X (SetTask i n s c) = set_task_state X i n s c"
| "cs_apply X (Remove i) = cs_delete_alloc X i"

fun op_effect :: "cs_op \<Rightarrow> (alloc_id \<Rightarrow> allocation option) \<Rightarrow> (alloc_id \<Rightarrow> allocation option)" where
  "op_effect (Upsert a) m = m(al_id a \<mapsto> a)"
| "op_effect (SetTask i n s c) m = m"
| "op_effect (Remove i) m = m(i := None)"

text \<open>The calls a client makes, each whatever the one before returned.\<close>

fun cs_run :: "'d sqlite \<Rightarrow> cs_op list \<Rightarrow> 'd \<Rightarrow> 'd" where
  "cs_run X [] d = d"
| "cs_run X (op # ops) d = cs_run X ops (snd (cs_apply X op d))"

lemma execute_ok:
  assumes "sqlite_ok X tbl"
  shows "case execute X st d of
      (Inr _, d') \<Rightarrow> sql_exec st (tbl d) = Inr (tbl d') | (Inl _, d') \<Rightarrow> tbl d' = tbl d"
  using assms unfolding sqlite_ok_def execute_def by (fastforce split: prod.splits sum.splits)

lemma execute_faultless:
  assumes "faultless X tbl" "is_ok (sql_exec st (tbl d))"
  shows "fst (execute X st d) = Inr ()"
proof -
  from assms have "is_ok (fst (db_execute X st d))" by (simp add: faultless_def)
  then show ?thesis
    by (cases "db_execute X st d"; cases "fst (db_execute X st d)") (auto simp: execute_def)
qed

lemma execute_cases:
  fixes st :: sql and d :: 'd
  assumes "sqlite_ok X tbl" "faultless X tbl"
  obtains (effect) t where "sql_exec st (tbl d) = Inr t" "fst (execute X st d) = Inr ()"
      "tbl (snd (execute X st d)) = t"
  | (refused) e e' where "sql_exec st (tbl d) = Inl e'" "fst (execute X st d) = Inl e"
      "tbl (snd (execute X st d)) = tbl d"
proof (cases "execute X st d")
  case (Pair res d')
  show thesis
  proof (cases res)
    case (Inl e)
    with Pair have "\<not> is_ok (sql_exec st (tbl d))"
      using execute_faultless [OF assms(2)] by fastforce
    then obtain e' where "sql_exec st (tbl d) = Inl e'" by (cases "sql_exec st (tbl d)") auto
    with Pair Inl execute_ok [OF assms(1), where st = st and d = d] refused show thesis by auto
  next
    case (Inr u)
    with Pair execute_ok [OF assms(1), where st = st and d = d] effect show thesis by auto
  qed
qed

lemma stored_simps:
  "hm_wf (t_allocs t) \<Longrightarrow> stored (t\<lparr>t_allocs := hm_insert (al_id a) (alloc_to_row a) (t_allocs t)\<rparr>) = (stored t)(al_id a \<mapsto> a)"
  "stored (t\<lparr>t_allocs := hm_remove i (t_allocs t)\<rparr>) = (stored t)(i := None)"
  "stored (t\<lparr>t_tasks := ts\<rparr>) = stored t"
  by (auto simp: stored_def)

lemma tables_ok_insert_alloc:
  "tables_ok t \<Longrightarrow> tables_ok (t\<lparr>t_allocs := hm_insert (al_id a) (alloc_to_row a) (t_allocs t)\<rparr>)"
proof -
  assume *: "tables_ok t"
  then have "\<forall>(k, r)\<in>set (hm_insert (al_id a) (alloc_to_row a) (t_allocs t)).
      \<exists>b. r = alloc_to_row b \<and> al_id b = k"
    by (auto simp: tables_ok_def set_hm_insert)
  with * show ?thesis
    by (simp add: tables_ok_def distinct_update hm_keys_insert)
qed

lemma tables_ok_insert_task:
  "\<lbrakk>tables_ok t; aid \<in> set (hm_keys (t_allocs t))\<rbrakk> \<Longrightarrow>
     tables_ok (t\<lparr>t_tasks := hm_insert (aid, n) v (t_tasks t)\<rparr>)"
proof -
  assume *: "tables_ok t" "aid \<in> set (hm_keys (t_allocs t))"
  have "fst ` set (hm_insert (aid, n) v (t_tasks t)) = insert (aid, n) (fst ` set (t_tasks t))"
    by (rule hm_keys_insert)
  then have "\<forall>k\<in>fst ` set (hm_insert (aid, n) v (t_tasks t)). fst k \<in> set (hm_keys (t_allocs t))"
    using * by (auto simp: tables_ok_def)
  with * show ?thesis by (auto simp: tables_ok_def)
qed

lemma tables_ok_delete:
  "tables_ok t \<Longrightarrow>
     tables_ok (t\<lparr>t_tasks := filter (\<lambda>e. fst (fst e) \<noteq> aid) (t_tasks t),
                 t_allocs := hm_remove aid (t_allocs t)\<rparr>)"
  by (fastforce simp: tables_ok_def distinct_delete set_hm_remove image_iff)

text \<open>The task states of an allocation are deleted first, so deleting it meets no foreign key.\<close>

lemma cs_delete_effect:
  assumes X: "sqlite_ok X tbl" "faultless X tbl" and t: "tables_ok (tbl d)"
  shows "\<exists>d'. cs_delete_alloc X i d = (Inr (), d') \<and> tables_ok (tbl d') \<and>
     stored (tbl d') = (stored (tbl d))(i := None)"
proof -
  let ?d1 = "snd (execute X (DeleteTaskStates i) d)"
  have d1: "execute X (DeleteTaskStates i) d = (Inr (), ?d1)"
    "tbl ?d1 = (tbl d)\<lparr>t_tasks := filter (\<lambda>e. fst (fst e) \<noteq> i) (t_tasks (tbl d))\<rparr>"
    using X by (cases rule: execute_cases [where st = "DeleteTaskStates i" and d = d];
        auto intro: prod_eqI)+
  let ?d2 = "snd (execute X (DeleteAlloc i) ?d1)"
  have d2: "execute X (DeleteAlloc i) ?d1 = (Inr (), ?d2)"
    "tbl ?d2 = (tbl ?d1)\<lparr>t_allocs := hm_remove i (t_allocs (tbl ?d1))\<rparr>"
    using X by (cases rule: execute_cases [where st = "DeleteAlloc i" and d = ?d1];
        auto simp: d1(2) intro: prod_eqI split: if_splits)+
  have "cs_delete_alloc X i d = (Inr (), ?d2)"
    unfolding cs_delete_alloc_def sbind_def
    by (subst d1(1)) (simp only: prod.case sum.case, rule d2(1))
  moreover have "tables_ok (tbl ?d2)" "stored (tbl ?d2) = (stored (tbl d))(i := None)"
    using tables_ok_delete [OF t, of i] unfolding d2(2) d1(2) by (auto simp: stored_def)
  ultimately show ?thesis by blast
qed

text \<open>One call: what it does to the stored allocations, and when it is refused.\<close>

lemma cs_apply_effect:
  assumes X: "sqlite_ok X tbl" "faultless X tbl" and t: "tables_ok (tbl d)"
  shows "tables_ok (tbl (snd (cs_apply X op d))) \<and>
     stored (tbl (snd (cs_apply X op d))) = op_effect op (stored (tbl d)) \<and>
     (is_ok (fst (cs_apply X op d)) \<longleftrightarrow> (\<forall>i n s c. op = SetTask i n s c \<longrightarrow> stored (tbl d) i \<noteq> None))"
proof (cases op)
  case (Upsert a)
  show ?thesis
    using X
  proof (cases rule: execute_cases [where st = "InsertAlloc (alloc_to_row a)" and d = d])
    case (effect t')
    with Upsert t show ?thesis
      by (auto simp: cs_upsert_alloc_def stored_simps tables_ok_insert_alloc tables_ok_def [of "tbl d"]
          dest!: sym [of _ t'])
  qed (use t Upsert in simp_all)
next
  case (SetTask i n s c)
  have known: "i \<in> set (hm_keys (t_allocs (tbl d))) \<longleftrightarrow> stored (tbl d) i \<noteq> None"
    by (auto simp: stored_def map_of_eq_None_iff)
  show ?thesis
    using X
  proof (cases rule: execute_cases [where st = "InsertTaskState i n (task_state_str s) (uint c)" and d = d])
    case (effect t')
    then have key: "i \<in> set (hm_keys (t_allocs (tbl d)))"
      and t': "t' = (tbl d)\<lparr>t_tasks := hm_insert (i, n) (task_state_str s, uint c) (t_tasks (tbl d))\<rparr>"
      by (auto split: if_splits)
    with tables_ok_insert_task [OF t key] have "tables_ok t'" "stored t' = stored (tbl d)"
      by (simp_all add: stored_simps)
    with effect(2,3) SetTask key known show ?thesis
      by (simp add: set_task_state_def)
  next
    case (refused e e')
    with SetTask t known show ?thesis
      by (auto simp: set_task_state_def split: if_splits)
  qed
next
  case (Remove i)
  with cs_delete_effect [OF assms, of i] show ?thesis by auto
qed

lemma cs_run_effect:
  assumes "sqlite_ok X tbl" "faultless X tbl" "tables_ok (tbl d)"
  shows "tables_ok (tbl (cs_run X ops d)) \<and>
     stored (tbl (cs_run X ops d)) = fold op_effect ops (stored (tbl d))"
  using assms(3)
proof (induction ops arbitrary: d)
  case (Cons op ops)
  with cs_apply_effect [OF assms(1,2) Cons.prems, of op] show ?case by simp
qed simp

lemma cs_list_allocs_stored:
  assumes "sqlite_ok X tbl" "faultless X tbl" "tables_ok (tbl d)"
  shows "\<exists>as. cs_list_allocs X d = Inr as \<and> distinct (map al_id as) \<and>
     (\<forall>a. a \<in> set as \<longleftrightarrow> stored (tbl d) (al_id a) = Some a)"
proof -
  let ?A = "t_allocs (tbl d)"
  let ?g = "\<lambda>r. projr (row_to_alloc r)"
  obtain rows where rows: "db_select_allocs X d = Inr rows" "mset rows = mset (hm_values ?A)"
    using assms(1,2) by (cases "db_select_allocs X d") (auto simp: sqlite_ok_def faultless_def dest: spec [of _ d])
  have img: "\<forall>(k, r)\<in>set ?A. row_to_alloc r = Inr (?g r) \<and> al_id (?g r) = k"
    using assms(3) by (fastforce simp: tables_ok_def)
  have set_rows: "set rows = snd ` set ?A"
    using rows(2) by (metis list.set_map set_mset_mset)
  have "\<forall>r\<in>set rows. row_to_alloc r = Inr (?g r)"
    using img set_rows by auto
  then have list: "cs_list_allocs X d = Inr (map ?g rows)"
    using rows(1) by (simp add: cs_list_allocs_def try_map_ok)
  have "mset (map (\<lambda>r. al_id (?g r)) rows) = mset (map (\<lambda>r. al_id (?g r)) (hm_values ?A))"
    using rows(2) by (metis mset_map)
  also have "map (\<lambda>r. al_id (?g r)) (hm_values ?A) = hm_keys ?A"
    using img by auto
  finally have "distinct (map al_id (map ?g rows))"
    using assms(3) by (metis (no_types, lifting) comp_apply list.map_comp list.map_cong0 mset_eq_imp_distinct_iff tables_ok_def)
  moreover have "a \<in> set (map ?g rows) \<longleftrightarrow> stored (tbl d) (al_id a) = Some a" for a
  proof -
    have "a \<in> ?g ` snd ` set ?A \<longleftrightarrow> (\<exists>r. (al_id a, r) \<in> set ?A \<and> ?g r = a)"
      using img by force
    also have "\<dots> \<longleftrightarrow> stored (tbl d) (al_id a) = Some a"
      using assms(3) by (auto simp: stored_def tables_ok_def)
    finally show ?thesis by (simp add: set_rows)
  qed
  ultimately show ?thesis using list by blast
qed

text \<open>C26. The client's database keeps what it is told. After any sequence of upserts, deletions and task
  updates, reading the allocations succeeds and returns, each once, exactly the allocations of the
  last upsert of every id not deleted since, with every field as it was given. No call fails but
  the update of a task whose allocation is not stored; in particular deleting an allocation is
  never refused because of its task states.\<close>

theorem client_state_refines:
  assumes "sqlite_ok X tbl" "faultless X tbl" "tables_ok (tbl d)"
  shows "(\<exists>as. cs_list_allocs X (cs_run X ops d) = Inr as \<and> distinct (map al_id as) \<and>
            (\<forall>a. a \<in> set as \<longleftrightarrow> fold op_effect ops (stored (tbl d)) (al_id a) = Some a)) \<and>
         (is_ok (fst (cs_apply X op (cs_run X ops d))) \<longleftrightarrow>
            (\<forall>i n s c. op = SetTask i n s c \<longrightarrow> fold op_effect ops (stored (tbl d)) i \<noteq> None))"
  using cs_run_effect [OF assms, of ops] cs_list_allocs_stored [OF assms(1,2), of "cs_run X ops d"]
    cs_apply_effect [OF assms(1,2), of "cs_run X ops d" op]
  by auto

text \<open>A database that is its two tables.\<close>

definition memory_db :: "tables sqlite" where
  "memory_db =
     \<lparr>db_open = (\<lambda>_. Inr \<lparr>t_allocs = [], t_tasks = []\<rparr>),
      db_execute = (\<lambda>st t. case sql_exec st t of Inl e \<Rightarrow> (Inl e, t) | Inr t' \<Rightarrow> (Inr (), t')),
      db_select_allocs = (\<lambda>t. Inr (hm_values (t_allocs t)))\<rparr>"

lemma memory_db_ok: "sqlite_ok memory_db (\<lambda>t. t)" "faultless memory_db (\<lambda>t. t)"
  by (auto simp: sqlite_ok_def faultless_def memory_db_def is_ok_def split: sum.splits)

lemma client_state_refines_witness:
  "\<exists>as. cs_list_allocs memory_db
          (cs_run memory_db [Upsert sample_alloc, SetTask ''a1'' ''web'' TRunning 0, Remove ''a1''] \<lparr>t_allocs = [], t_tasks = []\<rparr>)
        = Inr as \<and> (\<forall>a. a \<in> set as \<longleftrightarrow> fold op_effect
            [Upsert sample_alloc, SetTask ''a1'' ''web'' TRunning 0, Remove ''a1''] Map.empty (al_id a) = Some a)"
proof -
  have "tables_ok \<lparr>t_allocs = [], t_tasks = []\<rparr>" by (simp add: tables_ok_def)
  moreover have "stored \<lparr>t_allocs = [], t_tasks = []\<rparr> = Map.empty"
    by (auto simp: stored_def)
  ultimately show ?thesis
    using client_state_refines [OF memory_db_ok, of "\<lparr>t_allocs = [], t_tasks = []\<rparr>"] by metis
qed

end
