(* ===== verification/Conformance_Log.thy ===== *)
theory Conformance_Log
  imports Conformance Raft_Log Client_State
begin

text \<open>
  The unit tests of \<open>src/src/raft_log.rs\<close> and \<open>client_state.rs\<close>, run on the model: the log on an
  empty disk that does not fail, with a codec that writes the entries the tests append, the client
  database in memory.
\<close>

section \<open>The log on disk\<close>

definition make_cmd :: command where
  "make_cmd = UpsertJob (job_default\<lparr>jb_name := ''redis'', jb_priority := 50\<rparr>)"

definition made :: "u64 \<Rightarrow> u64 \<Rightarrow> raft_log_entry" where
  "made i t = \<lparr>le_index = i, le_term = t, le_timestamp = 0, le_command = make_cmd\<rparr>"

definition empty_snap :: "u64 \<Rightarrow> u64 \<Rightarrow> raft_snapshot" where
  "empty_snap i t = \<lparr>rs_state = state_new, rs_last_included_index = i, rs_last_included_term = t\<rparr>"

text \<open>An index and a term below ten are a digit each.\<close>

definition two_digits :: "u64 \<Rightarrow> u64 \<Rightarrow> string result" where
  "two_digits i t =
     (if i < 10 \<and> t < 10 then Inr [char_of (48 + unat i), char_of (48 + unat t)] else Inl (Serialize []))"

definition from_digits :: "(u64 \<Rightarrow> u64 \<Rightarrow> 'a) \<Rightarrow> string \<Rightarrow> 'a result" where
  "from_digits f txt =
     (case txt of
        [a, b] \<Rightarrow> Inr (f (of_nat (of_char a - 48)) (of_nat (of_char b - 48)))
      | _ \<Rightarrow> Inl (Serialize []))"

definition digit_codec :: log_codec where
  "digit_codec =
     \<lparr>entry_to_string = (\<lambda>e. two_digits (le_index e) (le_term e)),
      entry_from_str = from_digits made,
      snap_to_string = (\<lambda>s. two_digits (rs_last_included_index s) (rs_last_included_term s)),
      snap_from_str = from_digits empty_snap\<rparr>"

abbreviation appended :: "u64 \<Rightarrow> log_world step" where
  "appended t \<equiv> unwrapped (log_append digit_codec 0 t make_cmd) any"

abbreviation log_shows :: "(raft_log \<Rightarrow> bool) \<Rightarrow> log_world step" where
  "log_shows P \<equiv> assert_that (\<lambda>(L, d). P L)"

text \<open>Opening the store; the tests that open it again go on with the second handle.\<close>

definition opened :: "disk \<Rightarrow> log_world option" where
  "opened d = (case log_open digit_codec [''raft''] d of (Inl _, _) \<Rightarrow> None | (Inr L, d') \<Rightarrow> Some (L, d'))"

abbreviation reopened :: "log_world step" where
  "reopened \<equiv> \<lambda>(L, d). opened d"

definition passes_on_disk :: "log_world step list \<Rightarrow> bool" where
  "passes_on_disk ts \<longleftrightarrow> Option.bind (opened fresh_disk) (run_steps ts) \<noteq> None"

definition new_store_has_empty_log :: "log_world step list" where
  "new_store_has_empty_log =
     [log_shows log_is_empty, log_shows (\<lambda>L. log_len L = 0), log_shows (\<lambda>L. last_index L = 0),
      log_shows (\<lambda>L. last_term L = 0)]"

definition append_increases_len :: "log_world step list" where
  "append_increases_len = [appended 1, log_shows (\<lambda>L. log_len L = 1), log_shows (\<lambda>L. \<not> log_is_empty L)]"

definition get_returns_entry :: "log_world step list" where
  "get_returns_entry =
     [unwrapped (log_append digit_codec 0 1 make_cmd) (\<lambda>e. le_index e = 1),
      log_shows (\<lambda>L. map_option (\<lambda>e. (le_index e, le_term e)) (log_get L 1) = Some (1, 1))]"

definition get_missing_returns_none :: "log_world step list" where
  "get_missing_returns_none = [log_shows (\<lambda>L. log_get L 42 = None)]"

definition entries_from_returns_suffix :: "log_world step list" where
  "entries_from_returns_suffix =
     [appended 1, appended 1, appended 2, log_shows (\<lambda>L. map le_index (entries_from L 2) = [2, 3])]"

definition last_term_returns_last :: "log_world step list" where
  "last_term_returns_last = [appended 1, appended 5, log_shows (\<lambda>L. last_term L = 5)]"

definition create_and_install_snapshot :: "log_world step list" where
  "create_and_install_snapshot =
     [appended 1, appended 1,
      unwrapped (create_snapshot digit_codec state_new 1) (\<lambda>s. 2 \<le> rs_last_included_index s),
      log_shows log_is_empty, reopened, log_shows log_is_empty]"

definition persistence_round_trip :: "log_world step list" where
  "persistence_round_trip =
     [appended 1, appended 1, appended 2, reopened, log_shows (\<lambda>L. log_len L = 3), log_shows (\<lambda>L. last_term L = 2)]"

definition truncate_removes_from_index :: "log_world step list" where
  "truncate_removes_from_index =
     [appended 1, appended 1, appended 1, unwrapped (log_truncate digit_codec 2) any,
      log_shows (\<lambda>L. log_len L = 1), log_shows (\<lambda>L. log_get L 2 = None), log_shows (\<lambda>L. log_get L 1 \<noteq> None)]"

lemma log_tests:
  "list_all passes_on_disk
     [new_store_has_empty_log, append_increases_len, get_returns_entry, get_missing_returns_none,
      entries_from_returns_suffix, last_term_returns_last, create_and_install_snapshot, persistence_round_trip,
      truncate_removes_from_index]"
  by code_simp

section \<open>The client database\<close>

definition test_alloc :: "string \<Rightarrow> allocation" where
  "test_alloc i =
     \<lparr>al_id = i, al_eval_id = ''e1'', al_node_id = ''n1'', al_job_id = ''redis'', al_task_group = ''cache'',
      al_desired_status = DRun, al_client_status = CRunning, al_resources = resources_default\<rparr>"

abbreviation cs_saved :: "allocation \<Rightarrow> tables step" where
  "cs_saved a \<equiv> unwrapped (cs_upsert_alloc memory_db a) any"

abbreviation cs_lists :: "(allocation list \<Rightarrow> bool) \<Rightarrow> tables step" where
  "cs_lists P \<equiv> assert_that (\<lambda>t. case cs_list_allocs memory_db t of Inl _ \<Rightarrow> False | Inr as \<Rightarrow> P as)"

definition passes_in_memory :: "tables step list \<Rightarrow> bool" where
  "passes_in_memory ts = (case client_state_open memory_db '':memory:'' of Inl _ \<Rightarrow> False | Inr t \<Rightarrow> passes t ts)"

definition open_in_memory_succeeds :: "tables step list" where
  "open_in_memory_succeeds = [cs_lists (\<lambda>as. as = [])]"

definition upsert_then_list_includes_alloc :: "tables step list" where
  "upsert_then_list_includes_alloc = [cs_saved (test_alloc ''a1''), cs_lists (\<lambda>as. map al_id as = [''a1''])]"

definition upsert_replaces_existing :: "tables step list" where
  "upsert_replaces_existing =
     [cs_saved (test_alloc ''a1''), cs_saved ((test_alloc ''a1'')\<lparr>al_client_status := CComplete\<rparr>),
      cs_lists (\<lambda>as. map al_client_status as = [CComplete])]"

definition set_task_state_round_trips :: "tables step list" where
  "set_task_state_round_trips =
     [cs_saved (test_alloc ''a1''), unwrapped (set_task_state memory_db ''a1'' ''web'' TRunning 0) any,
      assert_that (\<lambda>t. length (filter (\<lambda>(k, st, n). k = (''a1'', ''web'') \<and> st = ''running'') (t_tasks t)) = 1)]"

definition delete_alloc_removes_it :: "tables step list" where
  "delete_alloc_removes_it =
     [cs_saved (test_alloc ''a1''), unwrapped (cs_delete_alloc memory_db ''a1'') any, cs_lists (\<lambda>as. as = [])]"

lemma client_state_tests:
  "list_all passes_in_memory
     [open_in_memory_succeeds, upsert_then_list_includes_alloc, upsert_replaces_existing, set_task_state_round_trips,
      delete_alloc_removes_it]"
  by code_simp

end
