(* ===== verification/Cluster_Ops.thy ===== *)
theory Cluster_Ops
  imports Nomad_Error
begin

text \<open>
  The smaller services of a cluster: access control (\<open>src/src/acl.rs\<close>), namespaces
  (\<open>namespace.rs\<close>), secure variables and their keyring (\<open>variables.rs\<close>), deployments
  (\<open>deployment.rs\<close>), node drains (\<open>drain.rs\<close>), the in-memory metrics sink (\<open>metrics.rs\<close>)
  and the fingerprinter (\<open>fingerprint.rs\<close>).
\<close>

unbundle bit_operations_syntax

section \<open>Access control\<close>

datatype capability = Read | Write | Deny

text \<open>The derived order of the enum: \<open>Read < Write < Deny\<close>.\<close>

fun cap_rank :: "capability \<Rightarrow> nat" where
  "cap_rank Read = 0"
| "cap_rank Write = 1"
| "cap_rank Deny = 2"

lemma cap_rank_inj: "cap_rank a = cap_rank b \<Longrightarrow> a = b"
  by (cases a; cases b) simp_all

instantiation capability :: linorder
begin

definition less_eq_capability :: "capability \<Rightarrow> capability \<Rightarrow> bool" where
  "less_eq_capability a b \<longleftrightarrow> cap_rank a \<le> cap_rank b"

definition less_capability :: "capability \<Rightarrow> capability \<Rightarrow> bool" where
  "less_capability a b \<longleftrightarrow> cap_rank a < cap_rank b"

instance
  by standard
    (auto simp: less_eq_capability_def less_capability_def intro: cap_rank_inj)

end

record policy =
  pl_name :: string
  pl_rules :: "(string, capability) hashmap"

record token =
  tok_accessor :: string
  tok_secret :: string
  tok_policies :: "string list"
  tok_management :: bool

definition token_validate :: "token \<Rightarrow> unit result" where
  "token_validate t =
     and_then (guard_err (tok_accessor t = []) (Config ''token accessor cannot be empty'')) (\<lambda>_.
     and_then (guard_err (tok_secret t = []) (Config ''token secret cannot be empty'')) (\<lambda>_.
     guard_err (\<not> tok_management t \<and> tok_policies t = [])
       (Config ''non-management token requires at least one policy'')))"

text \<open>The loop over the policies of \<open>Token::allows\<close>.\<close>

fun allows_loop :: "token \<Rightarrow> string \<Rightarrow> capability \<Rightarrow> policy list \<Rightarrow> bool" where
  "allows_loop t resource cap [] = False"
| "allows_loop t resource cap (p # ps) =
     (if pl_name p \<notin> set (tok_policies t) then allows_loop t resource cap ps
      else case hm_get (pl_rules p) resource of
             Some Deny \<Rightarrow> False
           | Some grant \<Rightarrow> if grant \<ge> cap then True else allows_loop t resource cap ps
           | None \<Rightarrow> allows_loop t resource cap ps)"

definition token_allows :: "token \<Rightarrow> string \<Rightarrow> capability \<Rightarrow> policy list \<Rightarrow> bool" where
  "token_allows t resource cap policies =
     (if tok_management t then True else allows_loop t resource cap policies)"

interpretation tokenv: validator token_validate
  "\<lambda>t. tok_accessor t \<noteq> [] \<and> tok_secret t \<noteq> [] \<and> (tok_management t \<or> tok_policies t \<noteq> [])"
  by unfold_locales (auto simp: token_validate_def res_simps)

text \<open>What an attached policy says of a resource, and when that settles the question.\<close>

definition rule_of :: "token \<Rightarrow> string \<Rightarrow> policy \<Rightarrow> capability option" where
  "rule_of t resource p =
     (if pl_name p \<in> set (tok_policies t) then hm_get (pl_rules p) resource else None)"

definition decides :: "capability \<Rightarrow> capability option \<Rightarrow> bool" where
  "decides cap r \<longleftrightarrow> (\<exists>g. r = Some g \<and> (g = Deny \<or> cap \<le> g))"

lemma allows_loop_Cons:
  "allows_loop t resource cap (p # ps) =
     (if decides cap (rule_of t resource p) then rule_of t resource p \<noteq> Some Deny
      else allows_loop t resource cap ps)"
  by (auto simp: decides_def rule_of_def split: option.splits capability.splits)

declare allows_loop.simps(2) [simp del]

lemma allows_loop_granted:
  assumes "\<forall>q\<in>set before. \<not> decides cap (rule_of t resource q)"
    and "rule_of t resource p = Some g" "g \<noteq> Deny" "cap \<le> g"
  shows "allows_loop t resource cap (before @ p # after)"
  using assms by (induction before) (auto simp: allows_loop_Cons decides_def)

lemma allows_loop_split:
  "allows_loop t resource cap ps \<Longrightarrow>
     \<exists>before p after. ps = before @ p # after \<and>
       (\<exists>g. rule_of t resource p = Some g \<and> g \<noteq> Deny \<and> cap \<le> g) \<and>
       (\<forall>q\<in>set before. \<not> decides cap (rule_of t resource q))"
proof (induction ps)
  case Nil
  then show ?case by simp
next
  case (Cons p ps)
  show ?case
  proof (cases "decides cap (rule_of t resource p)")
    case True
    with Cons.prems have "\<exists>g. rule_of t resource p = Some g \<and> g \<noteq> Deny \<and> cap \<le> g"
      by (auto simp: allows_loop_Cons decides_def)
    then show ?thesis by (intro exI [of _ "[]"] exI [of _ p] exI [of _ ps]) simp
  next
    case False
    with Cons obtain before q after where "ps = before @ q # after"
      "\<exists>g. rule_of t resource q = Some g \<and> g \<noteq> Deny \<and> cap \<le> g"
      "\<forall>q\<in>set before. \<not> decides cap (rule_of t resource q)"
      by (auto simp: allows_loop_Cons)
    with False show ?thesis
      by (intro exI [of _ "p # before"] exI [of _ q] exI [of _ after]) simp
  qed
qed

text \<open>Authorization. A management token is allowed everything. For any other token the first
  attached policy, in the order given, whose rule for the resource denies or grants at least the
  capability settles the question; a token with no such policy is refused.\<close>

theorem allows_first_decisive:
  "token_allows t resource cap ps \<longleftrightarrow>
     tok_management t \<or>
     (\<exists>before p after g. ps = before @ p # after \<and>
        rule_of t resource p = Some g \<and> g \<noteq> Deny \<and> cap \<le> g \<and>
        (\<forall>q\<in>set before. \<not> decides cap (rule_of t resource q)))"
  using allows_loop_granted [of _ cap t resource] allows_loop_split [of t resource cap ps]
  by (auto simp: token_allows_def)

lemma allows_first_decisive_witness:
  "token_allows \<lparr>tok_accessor = ''a'', tok_secret = ''s'', tok_policies = [''dev''], tok_management = False\<rparr>
     ''ns'' Read [\<lparr>pl_name = ''dev'', pl_rules = [(''ns'', Write)]\<rparr>]"
  by (subst allows_first_decisive)
    (fastforce simp: rule_of_def less_eq_capability_def Cons_eq_append_conv)

text \<open>An explicit denial does not always win: there are a token and two attached policies, the first
  granting and the second denying the same resource, such that access is granted, and exchanging
  the two policies refuses it.\<close>

theorem deny_depends_on_order:
  "\<exists>t resource grant deny.
     \<not> tok_management t \<and> pl_name grant \<in> set (tok_policies t) \<and> pl_name deny \<in> set (tok_policies t) \<and>
     hm_get (pl_rules deny) resource = Some Deny \<and>
     token_allows t resource Read [grant, deny] \<and> \<not> token_allows t resource Read [deny, grant]"
proof -
  let ?t = "\<lparr>tok_accessor = ''a'', tok_secret = ''s'', tok_policies = [''p'', ''q''], tok_management = False\<rparr>"
  let ?grant = "\<lparr>pl_name = ''p'', pl_rules = [(''ns'', Write)]\<rparr>"
  let ?deny = "\<lparr>pl_name = ''q'', pl_rules = [(''ns'', Deny)]\<rparr>"
  have "token_allows ?t ''ns'' Read [?grant, ?deny]" "\<not> token_allows ?t ''ns'' Read [?deny, ?grant]"
    by (simp_all add: token_allows_def allows_loop.simps less_eq_capability_def)
  then show ?thesis
    by (intro exI [of _ ?t] exI [of _ "''ns''"] exI [of _ ?grant] exI [of _ ?deny]) simp
qed

section \<open>Namespaces\<close>

record namespace =
  ns_name :: string
  ns_description :: string

definition is_ascii_lowercase :: "char \<Rightarrow> bool" where
  "is_ascii_lowercase c \<longleftrightarrow> 97 \<le> (of_char c :: nat) \<and> (of_char c :: nat) \<le> 122"

definition namespace_validate :: "namespace \<Rightarrow> unit result" where
  "namespace_validate n =
     and_then (guard_err (ns_name n = []) (Config ''namespace name cannot be empty'')) (\<lambda>_.
     guard_err (\<not> list_all (\<lambda>c. is_ascii_lowercase c \<or> is_digit c \<or> c = CHR ''-'') (ns_name n))
       (Config (''namespace '' @ quoted (ns_name n)
                  @ '' contains invalid characters (only [a-z0-9-] allowed)'')))"

interpretation namespacev: validator namespace_validate
  "\<lambda>n. ns_name n \<noteq> [] \<and>
       (\<forall>c\<in>set (ns_name n). is_ascii_lowercase c \<or> is_digit c \<or> c = CHR ''-'')"
  by unfold_locales (auto simp: namespace_validate_def res_simps list_all_iff)

section \<open>Secure variables\<close>

definition STUB_KEY :: "u8 list" where
  "STUB_KEY = map (\<lambda>c. of_nat (of_char c)) ''nomad-rs-stub-key-00000000000000000000''"

record var =
  va_namespace :: string
  va_path :: string
  va_items :: "(string, string) hashmap"

definition variable_validate :: "var \<Rightarrow> unit result" where
  "variable_validate v =
     and_then (guard_err (va_namespace v = []) (Config ''variable namespace cannot be empty'')) (\<lambda>_.
     and_then (guard_err (va_path v = []) (Config ''variable path cannot be empty'')) (\<lambda>_.
     guard_err (va_items v = []) (Config ''variable must have at least one item'')))"

interpretation variablev: validator variable_validate
  "\<lambda>v. va_namespace v \<noteq> [] \<and> va_path v \<noteq> [] \<and> va_items v \<noteq> []"
  by unfold_locales (auto simp: variable_validate_def res_simps)

definition key_byte :: u8 where
  "key_byte = (case STUB_KEY of [] \<Rightarrow> 0xAB | k # _ \<Rightarrow> k)"

definition encrypt :: "u8 list \<Rightarrow> u8 list result" where
  "encrypt plaintext = Inr (map (\<lambda>b. b XOR key_byte) plaintext)"

definition decrypt :: "u8 list \<Rightarrow> u8 list result" where
  "decrypt ciphertext = Inr (map (\<lambda>b. b XOR key_byte) ciphertext)"

lemma xor_key_twice [simp]: "(b XOR k) XOR k = (b :: u8)"
  by (simp add: xor.assoc)

text \<open>The keyring is a bijection on byte strings of each length: every plaintext is sealed to a text of
  its own length and comes back unchanged, no byte of it survives in place, and any byte string
  at all is unsealed without an error.\<close>

theorem keyring_roundtrip:
  "\<exists>c. encrypt plain = Inr c \<and> length c = length plain \<and> decrypt c = Inr plain \<and>
       list_all2 (\<lambda>p q. p \<noteq> q) plain c \<and>
       (\<exists>p. decrypt plain = Inr p \<and> encrypt p = Inr plain)"
proof -
  have key: "key_byte = 0x6E"
    by (simp add: key_byte_def STUB_KEY_def)
  have "b XOR 0x6E \<noteq> b" for b :: u8
  proof
    assume "b XOR 0x6E = b"
    then have "b XOR (b XOR 0x6E) = b XOR b" by simp
    then show False by (simp add: xor.assoc [symmetric])
  qed
  then show ?thesis
    by (auto simp: encrypt_def decrypt_def comp_def list_all2_map2 key
        intro!: list.rel_refl_strong dest: sym)
qed

section \<open>Deployments\<close>

datatype deployment_status = DepRunning | DepSuccessful | DepFailed | DepCancelled | DepPaused

record deployment =
  dp_id :: string
  dp_job_id :: string
  dp_status :: deployment_status
  dp_desired_canaries :: u32
  dp_placed :: u32
  dp_healthy :: u32

definition deployment_validate :: "deployment \<Rightarrow> unit result" where
  "deployment_validate d =
     and_then (guard_err (dp_id d = []) (Config ''deployment id cannot be empty'')) (\<lambda>_.
     and_then (guard_err (dp_job_id d = []) (Config ''deployment job_id cannot be empty'')) (\<lambda>_.
     guard_err (dp_healthy d > dp_placed d)
       (Config (''healthy ('' @ show_nat (unat (dp_healthy d)) @ '') exceeds placed (''
                  @ show_nat (unat (dp_placed d)) @ '')''))))"

definition is_promotable :: "deployment \<Rightarrow> bool" where
  "is_promotable d \<longleftrightarrow> dp_desired_canaries d > 0 \<and> dp_healthy d \<ge> dp_desired_canaries d"

definition deployment_ok :: "deployment \<Rightarrow> bool" where
  "deployment_ok d \<longleftrightarrow> dp_id d \<noteq> [] \<and> dp_job_id d \<noteq> [] \<and> dp_healthy d \<le> dp_placed d"

interpretation deploymentv: validator deployment_validate deployment_ok
  by unfold_locales (auto simp: deployment_validate_def deployment_ok_def res_simps)

text \<open>A valid deployment is promotable only when it has placed every canary.\<close>

lemma promotable_placed:
  "\<lbrakk>deployment_validate d = Inr (); is_promotable d\<rbrakk> \<Longrightarrow> dp_desired_canaries d \<le> dp_placed d"
  by (auto simp: deploymentv.validate_iff deployment_ok_def is_promotable_def)

section \<open>Node drains\<close>

record drain_spec =
  ds_deadline_secs :: u64
  ds_force :: bool
  ds_ignore_system_jobs :: bool

definition drain_validate :: "drain_spec \<Rightarrow> unit result" where
  "drain_validate d =
     guard_err (\<not> ds_force d \<and> ds_deadline_secs d = 0)
       (Config ''non-forced drain requires a positive deadline'')"

interpretation drainv: validator drain_validate "\<lambda>d. ds_force d \<or> 0 < ds_deadline_secs d"
  by unfold_locales (auto simp: drain_validate_def word_gt_0)

record drain_prog =
  remaining :: u32
  drain_complete :: bool

definition drain_progress :: "u32 \<Rightarrow> u32 \<Rightarrow> drain_prog" where
  "drain_progress n_all migrated =
     \<lparr>remaining = (if migrated \<le> n_all then n_all - migrated else 0),
      drain_complete = (migrated \<ge> n_all)\<rparr>"

text \<open>A drain is complete exactly when nothing remains, and the rest is exact and never wraps.\<close>

lemma drain_progress_remaining: "unat (remaining (drain_progress n m)) = unat n - unat m"
  by (simp add: drain_progress_def unat_sub word_le_nat_alt)

lemma drain_progress_complete:
  "drain_complete (drain_progress n m) \<longleftrightarrow> remaining (drain_progress n m) = 0"
  by (auto simp: drain_progress_def)

section \<open>Metrics\<close>

datatype metric_kind = Counter | Gauge | Timer

text \<open>The sink stores a sample and never computes with it: the value is its 64 bits.\<close>

record metric =
  me_key :: string
  me_value :: "64 word"
  me_kind :: metric_kind

record in_memory_sink =
  sink_samples :: "metric list"
  sink_poisoned :: bool

definition emit :: "metric \<Rightarrow> in_memory_sink \<Rightarrow> unit result \<times> in_memory_sink" where
  "emit m s =
     (if sink_poisoned s then (Inl (Runtime ''metrics mutex poisoned''), s)
      else (Inr (), s\<lparr>sink_samples := sink_samples s @ [m]\<rparr>))"

definition sink_drain :: "in_memory_sink \<Rightarrow> metric list \<times> in_memory_sink" where
  "sink_drain s = (if sink_poisoned s then ([], s) else (sink_samples s, s\<lparr>sink_samples := []\<rparr>))"

lemma emit_all_drain:
  "\<not> sink_poisoned s \<Longrightarrow>
     fst (sink_drain (fold (\<lambda>m s. snd (emit m s)) ms s)) = sink_samples s @ ms \<and>
     sink_samples (snd (sink_drain (fold (\<lambda>m s. snd (emit m s)) ms s))) = []"
  by (induction ms arbitrary: s) (auto simp: emit_def sink_drain_def)

section \<open>Fingerprinting\<close>

definition cpu_fingerprinter_name :: string where
  "cpu_fingerprinter_name = ''cpu''"

definition cpu_detect :: "(string, string) hashmap result" where
  "cpu_detect = Inr (hm_insert ''cpu.totalcompute'' ''4000'' [])"

end
