(* ===== verification/Conformance_Blocks.thy ===== *)
theory Conformance_Blocks
  imports Job_Blocks Cluster_Ops
begin

text \<open>
  The unit tests of the optional job blocks and of the smaller services of a cluster, run on the
  model. The tests of the cron specifications belong to the \<open>cron\<close> crate and are left out.
\<close>

section \<open>Services\<close>

definition http_check :: service_check where
  "http_check =
     \<lparr>sc_name = ''alive'', sc_check_type = Http, sc_interval_secs = 10, sc_timeout_secs = 2, sc_path = Some ''/health''\<rparr>"

definition web_service :: service where
  "web_service =
     \<lparr>sv_name = ''web'', sv_port_label = ''http'', sv_provider = NomadProvider, sv_tags = [''v1''], sv_checks = [http_check]\<rparr>"

definition valid_service_passes :: bool where
  "valid_service_passes \<longleftrightarrow> is_ok (service_validate web_service)"

definition service_rejects_empty_name :: bool where
  "service_rejects_empty_name \<longleftrightarrow> \<not> is_ok (service_validate (web_service\<lparr>sv_name := []\<rparr>))"

definition http_check_passes :: bool where
  "http_check_passes \<longleftrightarrow> is_ok (service_check_validate http_check)"

definition http_check_requires_path :: bool where
  "http_check_requires_path \<longleftrightarrow> \<not> is_ok (service_check_validate (http_check\<lparr>sc_path := None\<rparr>))"

definition check_rejects_timeout_ge_interval :: bool where
  "check_rejects_timeout_ge_interval \<longleftrightarrow> \<not> is_ok (service_check_validate (http_check\<lparr>sc_timeout_secs := 10, sc_interval_secs := 10\<rparr>))"

definition check_rejects_zero_interval :: bool where
  "check_rejects_zero_interval \<longleftrightarrow> \<not> is_ok (service_check_validate (http_check\<lparr>sc_interval_secs := 0\<rparr>))"

lemma service_tests:
  "list_all id
     [valid_service_passes, service_rejects_empty_name, http_check_passes, http_check_requires_path,
      check_rejects_timeout_ge_interval, check_rejects_zero_interval]"
  by code_simp

section \<open>Restart and reschedule policies\<close>

definition restart_3 :: restart_policy where
  "restart_3 =
     \<lparr>rp_attempts = 3, rp_interval_secs = 300, rp_delay_secs = 15, rp_mode = RFail\<rparr>"

definition reschedule_5 :: reschedule_policy where
  "reschedule_5 =
     \<lparr>rs_attempts = 5, rs_interval_secs = 3600, rs_delay_secs = 30, rs_delay_function = Exponential,
      rs_max_delay_secs = 3600, rs_unlimited = False\<rparr>"

definition valid_restart_passes :: bool where
  "valid_restart_passes \<longleftrightarrow> is_ok (restart_validate restart_3)"

definition restart_rejects_delay_above_interval :: bool where
  "restart_rejects_delay_above_interval \<longleftrightarrow> \<not> is_ok (restart_validate (restart_3\<lparr>rp_delay_secs := 400\<rparr>))"

definition valid_reschedule_passes :: bool where
  "valid_reschedule_passes \<longleftrightarrow> is_ok (reschedule_validate reschedule_5)"

definition reschedule_rejects_cap_not_above_delay :: bool where
  "reschedule_rejects_cap_not_above_delay \<longleftrightarrow> \<not> is_ok (reschedule_validate (reschedule_5\<lparr>rs_delay_secs := 3600, rs_max_delay_secs := 3600\<rparr>))"

definition bounded_reschedule_rejects_zero_attempts :: bool where
  "bounded_reschedule_rejects_zero_attempts \<longleftrightarrow> \<not> is_ok (reschedule_validate (reschedule_5\<lparr>rs_unlimited := False, rs_attempts := 0\<rparr>))"

lemma reschedule_tests:
  "list_all id
     [valid_restart_passes, restart_rejects_delay_above_interval, valid_reschedule_passes,
      reschedule_rejects_cap_not_above_delay, bounded_reschedule_rejects_zero_attempts]"
  by code_simp

section \<open>Volumes\<close>

definition data_request :: volume_request where
  "data_request =
     \<lparr>vr_name = ''data'', vr_volume_type = VHost, vr_source = ''host-data'', vr_read_only = False\<rparr>"

definition data_mount :: volume_mount where
  "data_mount =
     \<lparr>vm_volume = ''data'', vm_destination = ''/var/data'', vm_read_only = False\<rparr>"

definition valid_request_passes :: bool where
  "valid_request_passes \<longleftrightarrow> is_ok (volume_request_validate data_request)"

definition request_rejects_empty_source :: bool where
  "request_rejects_empty_source \<longleftrightarrow> \<not> is_ok (volume_request_validate (data_request\<lparr>vr_source := []\<rparr>))"

definition valid_mount_passes :: bool where
  "valid_mount_passes \<longleftrightarrow> is_ok (volume_mount_validate data_mount)"

definition mount_rejects_relative_destination :: bool where
  "mount_rejects_relative_destination \<longleftrightarrow> \<not> is_ok (volume_mount_validate (data_mount\<lparr>vm_destination := ''var/data''\<rparr>))"

definition mount_rejects_empty_volume :: bool where
  "mount_rejects_empty_volume \<longleftrightarrow> \<not> is_ok (volume_mount_validate (data_mount\<lparr>vm_volume := []\<rparr>))"

lemma volume_tests:
  "list_all id
     [valid_request_passes, request_rejects_empty_source, valid_mount_passes,
      mount_rejects_relative_destination, mount_rejects_empty_volume]"
  by code_simp

section \<open>Rolling updates\<close>

definition one_by_one :: update_strategy where
  "one_by_one =
     \<lparr>us_max_parallel = 1, us_canary = 0, us_health_check = Checks, us_min_healthy_secs = 10,
      us_healthy_deadline_secs = 300, us_auto_revert = True, us_auto_promote = False\<rparr>"

definition valid_strategy_passes :: bool where
  "valid_strategy_passes \<longleftrightarrow> is_ok (update_validate one_by_one)"

definition rejects_zero_max_parallel :: bool where
  "rejects_zero_max_parallel \<longleftrightarrow> \<not> is_ok (update_validate (one_by_one\<lparr>us_max_parallel := 0\<rparr>))"

definition rejects_deadline_not_after_min_healthy :: bool where
  "rejects_deadline_not_after_min_healthy \<longleftrightarrow> \<not> is_ok (update_validate (one_by_one\<lparr>us_min_healthy_secs := 300, us_healthy_deadline_secs := 300\<rparr>))"

definition detects_canary :: bool where
  "detects_canary \<longleftrightarrow> uses_canary (one_by_one\<lparr>us_canary := 2\<rparr>)"

definition no_canary_by_default :: bool where
  "no_canary_by_default \<longleftrightarrow> \<not> uses_canary one_by_one"

lemma update_tests:
  "list_all id
     [valid_strategy_passes, rejects_zero_max_parallel, rejects_deadline_not_after_min_healthy,
      detects_canary, no_canary_by_default]"
  by code_simp

section \<open>Templates\<close>

definition embedded_template :: template where
  "embedded_template =
     \<lparr>tp_source = None, tp_embedded = Some ''{{ key \"x\" }}'', tp_destination = ''local/config'',
      tp_change_mode = Restart, tp_change_signal = None\<rparr>"

definition valid_template_passes :: bool where
  "valid_template_passes \<longleftrightarrow> is_ok (template_validate embedded_template)"

definition rejects_empty_destination :: bool where
  "rejects_empty_destination \<longleftrightarrow> \<not> is_ok (template_validate (embedded_template\<lparr>tp_destination := []\<rparr>))"

definition rejects_both_sources :: bool where
  "rejects_both_sources \<longleftrightarrow> \<not> is_ok (template_validate (embedded_template\<lparr>tp_source := Some ''local/in.tpl''\<rparr>))"

definition rejects_neither_source :: bool where
  "rejects_neither_source \<longleftrightarrow> \<not> is_ok (template_validate (embedded_template\<lparr>tp_embedded := None\<rparr>))"

definition signal_mode_requires_signal :: bool where
  "signal_mode_requires_signal \<longleftrightarrow> \<not> is_ok (template_validate (embedded_template\<lparr>tp_change_mode := Signal, tp_change_signal := None\<rparr>))"

lemma template_tests:
  "list_all id
     [valid_template_passes, rejects_empty_destination, rejects_both_sources, rejects_neither_source,
      signal_mode_requires_signal]"
  by code_simp

section \<open>Networks\<close>

definition bridge_net :: network_resource where
  "bridge_net =
     \<lparr>nr_mode = NMBridge, nr_reserved_ports = [\<lparr>pt_label = ''http'', pt_static_value = Some 8080, pt_to = Some 80\<rparr>],
      nr_dynamic_ports = [\<lparr>pt_label = ''metrics'', pt_static_value = None, pt_to = Some 9000\<rparr>]\<rparr>"

text \<open>The tests change the first port of one of the two lists.\<close>

definition first_port :: "(port \<Rightarrow> port) \<Rightarrow> port list \<Rightarrow> port list" where
  "first_port f ps = (case ps of [] \<Rightarrow> [] | p # qs \<Rightarrow> f p # qs)"

definition valid_network_passes :: bool where
  "valid_network_passes \<longleftrightarrow> is_ok (network_validate bridge_net)"

definition rejects_empty_label :: bool where
  "rejects_empty_label \<longleftrightarrow> 
     \<not> is_ok (network_validate (bridge_net\<lparr>nr_reserved_ports := first_port (\<lambda>p. p\<lparr>pt_label := []\<rparr>) (nr_reserved_ports bridge_net)\<rparr>))"

definition rejects_duplicate_labels :: bool where
  "rejects_duplicate_labels \<longleftrightarrow> 
     \<not> is_ok (network_validate (bridge_net\<lparr>nr_dynamic_ports := first_port (\<lambda>p. p\<lparr>pt_label := ''http''\<rparr>) (nr_dynamic_ports bridge_net)\<rparr>))"

definition rejects_reserved_without_static_value :: bool where
  "rejects_reserved_without_static_value \<longleftrightarrow> 
     \<not> is_ok (network_validate (bridge_net\<lparr>nr_reserved_ports := first_port (\<lambda>p. p\<lparr>pt_static_value := None\<rparr>) (nr_reserved_ports bridge_net)\<rparr>))"

lemma network_tests:
  "list_all id
     [valid_network_passes, rejects_empty_label, rejects_duplicate_labels,
      rejects_reserved_without_static_value]"
  by code_simp

section \<open>Artifacts\<close>

definition app_artifact :: artifact where
  "app_artifact =
     \<lparr>af_source = ''https://example.com/app.tar.gz'', af_destination = ''local/app'',
      af_checksum = Some ''sha256:abc123''\<rparr>"

definition valid_artifact_passes :: bool where
  "valid_artifact_passes \<longleftrightarrow> is_ok (artifact_validate app_artifact)"

definition rejects_empty_source :: bool where
  "rejects_empty_source \<longleftrightarrow> \<not> is_ok (artifact_validate (app_artifact\<lparr>af_source := []\<rparr>))"

definition rejects_malformed_checksum :: bool where
  "rejects_malformed_checksum \<longleftrightarrow> \<not> is_ok (artifact_validate (app_artifact\<lparr>af_checksum := Some ''deadbeef''\<rparr>))"

definition getter_fetches_artifact :: bool where
  "getter_fetches_artifact \<longleftrightarrow> is_ok (url_getter_get app_artifact ''/tmp/alloc/task'')"

lemma artifact_tests:
  "list_all id
     [valid_artifact_passes, rejects_empty_source, rejects_malformed_checksum, getter_fetches_artifact]"
  by code_simp

section \<open>Scaling and dispatch\<close>

definition one_to_ten :: scaling_policy where
  "one_to_ten =
     \<lparr>sl_min = 1, sl_max = 10, sl_enabled = True\<rparr>"

definition valid_policy_passes :: bool where
  "valid_policy_passes \<longleftrightarrow> is_ok (scaling_validate one_to_ten)"

definition rejects_min_above_max :: bool where
  "rejects_min_above_max \<longleftrightarrow> \<not> is_ok (scaling_validate (one_to_ten\<lparr>sl_min := 20\<rparr>))"

definition clamps_above_max_to_max :: bool where
  "clamps_above_max_to_max \<longleftrightarrow> scaling_clamp one_to_ten 99 = Some 10"

definition clamps_below_min_to_min :: bool where
  "clamps_below_min_to_min \<longleftrightarrow> scaling_clamp one_to_ten 0 = Some 1"

definition leaves_in_range_untouched :: bool where
  "leaves_in_range_untouched \<longleftrightarrow> scaling_clamp one_to_ten 5 = Some 5"

lemma scaling_tests:
  "list_all id
     [valid_policy_passes, rejects_min_above_max, clamps_above_max_to_max, clamps_below_min_to_min,
      leaves_in_range_untouched]"
  by code_simp

definition region_template :: parameterized_job where
  "region_template =
     \<lparr>pz_meta_required = [''region''], pz_meta_optional = [''note''], pz_payload = Forbidden\<rparr>"

definition eu_request :: dispatch_request where
  "eu_request =
     \<lparr>dr_meta = [(''region'', ''eu'')], dr_payload = None\<rparr>"

definition valid_dispatch_passes :: bool where
  "valid_dispatch_passes \<longleftrightarrow> is_ok (validate_dispatch region_template eu_request)"

definition missing_required_meta_errors :: bool where
  "missing_required_meta_errors \<longleftrightarrow> \<not> is_ok (validate_dispatch region_template (eu_request\<lparr>dr_meta := []\<rparr>))"

definition forbidden_payload_errors :: bool where
  "forbidden_payload_errors \<longleftrightarrow> \<not> is_ok (validate_dispatch region_template (eu_request\<lparr>dr_payload := Some [1, 2, 3]\<rparr>))"

lemma dispatch_tests:
  "list_all id
     [valid_dispatch_passes, missing_required_meta_errors, forbidden_payload_errors]"
  by code_simp

section \<open>Access control\<close>

definition dev_policy :: policy where
  "dev_policy =
     \<lparr>pl_name = ''dev'', pl_rules = [(''namespace:default'', Write)]\<rparr>"

definition dev_token :: token where
  "dev_token =
     \<lparr>tok_accessor = ''acc-1'', tok_secret = ''sec-1'', tok_policies = [''dev''], tok_management = False\<rparr>"

definition management_token :: token where
  "management_token =
     \<lparr>tok_accessor = ''acc-0'', tok_secret = ''sec-0'', tok_policies = [], tok_management = True\<rparr>"

definition valid_token_passes :: bool where
  "valid_token_passes \<longleftrightarrow> is_ok (token_validate dev_token)"

definition non_management_without_policies_errors :: bool where
  "non_management_without_policies_errors \<longleftrightarrow> \<not> is_ok (token_validate (dev_token\<lparr>tok_policies := []\<rparr>))"

definition management_token_allows_anything :: bool where
  "management_token_allows_anything \<longleftrightarrow> token_allows management_token ''namespace:prod'' Write []"

definition policy_grants_write :: bool where
  "policy_grants_write \<longleftrightarrow> token_allows dev_token ''namespace:default'' Write [dev_policy]"

definition missing_grant_denies :: bool where
  "missing_grant_denies \<longleftrightarrow> \<not> token_allows dev_token ''namespace:other'' Write [dev_policy]"

lemma acl_tests:
  "list_all id
     [valid_token_passes, non_management_without_policies_errors, management_token_allows_anything,
      policy_grants_write, missing_grant_denies]"
  by code_simp

section \<open>Namespaces and variables\<close>

definition default_namespace_passes :: bool where
  "default_namespace_passes \<longleftrightarrow> is_ok (namespace_validate \<lparr>ns_name = ''default'', ns_description = []\<rparr>)"

definition rejects_empty_name :: bool where
  "rejects_empty_name \<longleftrightarrow> \<not> is_ok (namespace_validate \<lparr>ns_name = [], ns_description = []\<rparr>)"

definition rejects_invalid_characters :: bool where
  "rejects_invalid_characters \<longleftrightarrow> \<not> is_ok (namespace_validate \<lparr>ns_name = ''Prod Env'', ns_description = []\<rparr>)"

lemma namespace_tests:
  "list_all id
     [default_namespace_passes, rejects_empty_name, rejects_invalid_characters]"
  by code_simp

definition redis_variable :: var where
  "redis_variable =
     \<lparr>va_namespace = ''default'', va_path = ''nomad/jobs/redis'', va_items = [(''password'', ''s3cret'')]\<rparr>"

definition valid_variable_passes :: bool where
  "valid_variable_passes \<longleftrightarrow> is_ok (variable_validate redis_variable)"

definition rejects_empty_path :: bool where
  "rejects_empty_path \<longleftrightarrow> \<not> is_ok (variable_validate (redis_variable\<lparr>va_path := []\<rparr>))"

definition rejects_no_items :: bool where
  "rejects_no_items \<longleftrightarrow> \<not> is_ok (variable_validate (redis_variable\<lparr>va_items := []\<rparr>))"

definition encrypt_then_decrypt_round_trips :: bool where
  "encrypt_then_decrypt_round_trips \<longleftrightarrow> 
     (let hello = map (\<lambda>c. of_nat (of_char c)) ''hello'' in and_then (encrypt hello) decrypt = Inr hello)"

lemma variable_tests:
  "list_all id
     [valid_variable_passes, rejects_empty_path, rejects_no_items, encrypt_then_decrypt_round_trips]"
  by code_simp

section \<open>Deployments and drains\<close>

definition canary_deployment :: deployment where
  "canary_deployment =
     \<lparr>dp_id = ''d1'', dp_job_id = ''redis'', dp_status = DepRunning, dp_desired_canaries = 2, dp_placed = 2,
      dp_healthy = 2\<rparr>"

definition valid_deployment_passes :: bool where
  "valid_deployment_passes \<longleftrightarrow> is_ok (deployment_validate canary_deployment)"

definition rejects_healthy_above_placed :: bool where
  "rejects_healthy_above_placed \<longleftrightarrow> \<not> is_ok (deployment_validate (canary_deployment\<lparr>dp_healthy := 5\<rparr>))"

definition promotable_when_canaries_healthy :: bool where
  "promotable_when_canaries_healthy \<longleftrightarrow> is_promotable canary_deployment"

definition not_promotable_when_canaries_unhealthy :: bool where
  "not_promotable_when_canaries_unhealthy \<longleftrightarrow> \<not> is_promotable (canary_deployment\<lparr>dp_healthy := 1\<rparr>)"

lemma deployment_tests:
  "list_all id
     [valid_deployment_passes, rejects_healthy_above_placed, promotable_when_canaries_healthy,
      not_promotable_when_canaries_unhealthy]"
  by code_simp

definition deadline_drain_passes :: bool where
  "deadline_drain_passes \<longleftrightarrow> is_ok (drain_validate \<lparr>ds_deadline_secs = 60, ds_force = False, ds_ignore_system_jobs = True\<rparr>)"

definition zero_deadline_without_force_errors :: bool where
  "zero_deadline_without_force_errors \<longleftrightarrow> 
     \<not> is_ok (drain_validate \<lparr>ds_deadline_secs = 0, ds_force = False, ds_ignore_system_jobs = True\<rparr>)"

definition forced_drain_needs_no_deadline :: bool where
  "forced_drain_needs_no_deadline \<longleftrightarrow> is_ok (drain_validate \<lparr>ds_deadline_secs = 0, ds_force = True, ds_ignore_system_jobs = True\<rparr>)"

definition progress_complete_when_all_migrated :: bool where
  "progress_complete_when_all_migrated \<longleftrightarrow> drain_progress 5 5 = \<lparr>remaining = 0, drain_complete = True\<rparr>"

definition progress_counts_remaining :: bool where
  "progress_counts_remaining \<longleftrightarrow> drain_progress 5 2 = \<lparr>remaining = 3, drain_complete = False\<rparr>"

lemma node_drain_tests:
  "list_all id
     [deadline_drain_passes, zero_deadline_without_force_errors, forced_drain_needs_no_deadline,
      progress_complete_when_all_migrated, progress_counts_remaining]"
  by code_simp

end
