(* ===== verification/Worker_Loop.thy ===== *)
theory Worker_Loop
  imports Server
begin

text \<open>
  The scheduler worker of \<open>src/src/server.rs\<close> over many turns of its loop: left alone on a leader it
  serves the pending evaluations one after the other, in the order the queue gives them, and its
  state is then the fold of \<open>serve_eval\<close> over them. With the registration of a job over RPC
  (\<open>src/src/rpc.rs\<close>) this is the way of an accepted job to its placements.
\<close>

section \<open>One turn\<close>

lemma dequeue_frame:
  assumes "dequeue now q = (Inr (Some e), q')"
  shows "q_poisoned q' = q_poisoned q \<and> q_blocked q' = q_blocked q \<and>
    hm_remove (ev_id e) (q_in_flight q') = hm_remove (ev_id e) (q_in_flight q)"
  using assms by (auto simp: dequeue_def Let_def hm_remove_insert split: if_splits option.splits)

lemma worker_turn:
  assumes "raft_inv r" and "is_leader r" and "\<not> q_poisoned q" and "seq_ok q" and "pending_evals q = e # es"
    and "in_time T (Suc i) q"
  shows "\<exists>k q'. k \<le> 8 \<and> worker_run X T i k (W_Top, r, q) = (W_Top, serve_eval X e r, q') \<and>
    \<not> q_poisoned q' \<and> seq_ok q' \<and> pending_evals q' = es \<and> q_blocked q' = q_blocked q @ parks X e r \<and>
    q_in_flight q' = hm_remove (ev_id e) (q_in_flight q)"
proof -
  obtain q1 where q1: "dequeue (snd (T (i + 2))) q = (Inr (Some e), q1)" "pending_evals q1 = es" "seq_ok q1"
    using dequeue_pending [OF assms(4,3), of "snd (T (i + 2))"] assms(5) by auto
  note frame = dequeue_frame [OF q1(1)]
  let ?q = "q1\<lparr>q_blocked := q_blocked q1 @ parks X e r, q_in_flight := hm_remove (ev_id e) (q_in_flight q1)\<rparr>"
  obtain k where k: "k \<le> 5" "worker_run X T (i + 3) k (W_Plan e, r, q1) = (W_Top, serve_eval X e r, ?q)"
    using plan_turn [OF assms(1,2), of q1 X T "i + 3" e] assms(3) frame by auto
  have "worker_run X T i 3 (W_Top, r, q) = (W_Plan e, r, q1)"
    using assms(2,3) q1(1) reap_in_time [OF assms(3,6), of "Suc i"] by (simp add: numeral_3_eq_3)
  with k(2) have run: "worker_run X T i (3 + k) (W_Top, r, q) = (W_Top, serve_eval X e r, ?q)"
    by (simp only: worker_run_add)
  from run k(1) assms(3) q1(2,3) frame show ?thesis
    by (intro exI [of _ "3 + k"] exI [of _ ?q]) (simp add: pending_evals_def seq_ok_def)
qed

section \<open>The loop\<close>

fun parks_all :: "'v crates \<Rightarrow> evaluation list \<Rightarrow> raft_node \<Rightarrow> evaluation list" where
  "parks_all X [] r = []"
| "parks_all X (e # es) r = parks X e r @ parks_all X es (serve_eval X e r)"

lemma serve_all_ok:
  "\<lbrakk>raft_inv r; is_leader r\<rbrakk> \<Longrightarrow> raft_inv (fold (serve_eval X) es r) \<and> is_leader (fold (serve_eval X) es r) \<and>
     get_job (raft_state (fold (serve_eval X) es r)) = get_job (raft_state r) \<and>
     prefix (rn_log r) (rn_log (fold (serve_eval X) es r))"
proof (induction es arbitrary: r)
  case (Cons e es)
  note ok = serve_ok [OF Cons.prems, of X e]
  have "prefix (rn_log r) (rn_log (serve_eval X e r))" by (simp add: ok(5))
  with Cons.IH [OF ok(2,3)] ok(4) show ?case by (auto intro: prefix_order.trans)
qed simp

lemma worker_loop:
  assumes "raft_inv r" and "is_leader r" and "\<not> q_poisoned q" and "seq_ok q" and "in_time T (Suc i) q"
  shows "\<exists>k q'. k \<le> 8 * length (pending_evals q) \<and>
    worker_run X T i k (W_Top, r, q) = (W_Top, fold (serve_eval X) (pending_evals q) r, q') \<and>
    pending_evals q' = [] \<and> \<not> q_poisoned q' \<and> seq_ok q' \<and>
    q_blocked q' = q_blocked q @ parks_all X (pending_evals q) r \<and>
    q_in_flight q' = fold (\<lambda>e. hm_remove (ev_id e)) (pending_evals q) (q_in_flight q)"
  using assms
proof (induction "pending_evals q" arbitrary: r q i)
  case Nil
  from Nil(1) [symmetric] Nil.prems show ?case by (intro exI [of _ 0] exI [of _ q]) simp
next
  case (Cons e es)
  obtain k q1 where t: "k \<le> 8" "worker_run X T i k (W_Top, r, q) = (W_Top, serve_eval X e r, q1)"
    "\<not> q_poisoned q1" "seq_ok q1" "pending_evals q1 = es" "q_blocked q1 = q_blocked q @ parks X e r"
    "q_in_flight q1 = hm_remove (ev_id e) (q_in_flight q)"
    using worker_turn [OF Cons.prems(1-4) Cons.hyps(2) [symmetric] Cons.prems(5), of X] by blast
  have "set (q_in_flight q1) \<subseteq> set (q_in_flight q)" by (auto simp: t(7) AList.delete_eq)
  then have later: "in_time T (Suc (i + k)) q1" by (rule in_time_mono [OF Cons.prems(5)]) simp
  obtain m q2 where l: "m \<le> 8 * length es"
    "worker_run X T (i + k) m (W_Top, serve_eval X e r, q1) = (W_Top, fold (serve_eval X) es (serve_eval X e r), q2)"
    "pending_evals q2 = []" "\<not> q_poisoned q2" "seq_ok q2" "q_blocked q2 = q_blocked q1 @ parks_all X es (serve_eval X e r)"
    "q_in_flight q2 = fold (\<lambda>e. hm_remove (ev_id e)) es (q_in_flight q1)"
    using Cons.hyps(1) [OF t(5) [symmetric] serve_ok(2,3) [OF Cons.prems(1,2), where X = X and e = e] t(3,4) later]
    unfolding t(5) by blast
  have "worker_run X T i (k + m) (W_Top, r, q) = (W_Top, fold (serve_eval X) (e # es) r, q2)"
    using l(2) by (simp only: worker_run_add t(2)) simp
  with t(1,6,7) l(1,3-7) show ?case
    by (intro exI [of _ "k + m"] exI [of _ q2]) (simp flip: Cons.hyps(2))
qed

lemma spec_insert_members: "set (spec_insert e xs) = insert e (set xs)"
  unfolding spec_insert_def by (metis Un_insert_right list.simps(15) set_append takeWhile_dropWhile_id)

lemma fold_spec_insert_members: "set (fold spec_insert es xs) = set es \<union> set xs"
  by (induction es arbitrary: xs) (auto simp: spec_insert_members)

lemma length_spec_insert: "length (spec_insert e xs) = Suc (length xs)"
  unfolding spec_insert_def by (metis add_Suc_right length_Cons length_append takeWhile_dropWhile_id)

lemma length_fold_spec_insert: "length (fold spec_insert es xs) = length es + length xs"
  by (induction es arbitrary: xs) (simp_all add: length_spec_insert)

lemma serve_nodes: "\<lbrakk>raft_inv r; is_leader r\<rbrakk> \<Longrightarrow> list_nodes (raft_state (serve_eval X e r)) = list_nodes (raft_state r)"
  using plan_allocs_ok [OF raft_inv_ok, of r _ X e]
    propose_all_ok [of "pl_allocs (process_eval X e (raft_state r))" r]
  by (fastforce simp: serve_eval_def list_nodes_def)

lemma serve_all_nodes:
  "\<lbrakk>raft_inv r; is_leader r\<rbrakk> \<Longrightarrow> list_nodes (raft_state (fold (serve_eval X) es r)) = list_nodes (raft_state r)"
  by (induction es arbitrary: r) (simp_all add: serve_ok serve_nodes)

lemma parks_all_append: "parks_all X (es @ fs) r = parks_all X es r @ parks_all X fs (fold (serve_eval X) es r)"
  by (induction es arbitrary: r) simp_all

lemma fold_remove_gone:
  "hm_get m k = None \<or> (\<exists>e\<in>set es. ev_id e = k) \<Longrightarrow>
     hm_get (fold (\<lambda>e. hm_remove (ev_id e)) es m) k = None"
  by (induction es arbitrary: m) auto

lemma fold_remove_subset: "set (fold (\<lambda>e. hm_remove (ev_id e)) es m) \<subseteq> set m"
proof (induction es arbitrary: m)
  case (Cons e es)
  have "set (hm_remove (ev_id e) m) \<subseteq> set m" by (auto simp: AList.delete_eq)
  with Cons [of "hm_remove (ev_id e) m"] show ?case by auto
qed simp

lemma worker_idle:
  assumes "is_leader r" and "\<not> q_poisoned q" and "seq_ok q" and "pending_evals q = []" and "in_time T (Suc i) q"
  shows "worker_run X T i (3 * m) (W_Top, r, q) = (W_Top, r, q)"
  using assms(5)
proof (induction m arbitrary: i)
  case (Suc m)
  have "worker_run X T i 3 (W_Top, r, q) = (W_Top, r, q)"
    using assms dequeue_pending [OF assms(3,2), of "snd (T (Suc (Suc i)))"] reap_in_time [OF assms(2) Suc.prems, of "Suc i"]
    by (simp add: numeral_3_eq_3)
  moreover have "in_time T (Suc (i + 3)) q" by (rule in_time_mono [OF Suc.prems]) simp_all
  ultimately show ?case using Suc.IH [of "i + 3"] by (simp only: mult_Suc_right worker_run_add)
qed simp

text \<open>
  What a worker finds when it starts with some deliveries in flight: its first look at them gives up
  on those that have timed out, which is as if they had been reaped before it started.
\<close>

definition found :: "readings \<Rightarrow> eval_queue \<Rightarrow> eval_queue" where
  "found T q = snd (reap_expired (fst (T 1)) VISIBILITY q)"

lemma found_parts:
  assumes "queue_inv q" and "seq_room (length (q_in_flight q)) q" and "in_time T 2 (found T q)"
  shows "\<not> q_poisoned (found T q)" "seq_ok (found T q)" "in_time T 1 (found T q)" "q_blocked (found T q) = q_blocked q"
    "pending_evals (found T q) = fold spec_insert (redelivered (fst (T 1)) VISIBILITY q) (pending_evals q)"
proof -
  note parts = reap_parts [OF assms(1,2), of "fst (T 1)" VISIBILITY, folded found_def]
  show "\<not> q_poisoned (found T q)" "seq_ok (found T q)" using parts(1) by (simp_all add: queue_inv_def)
  show "q_blocked (found T q) = q_blocked q"
    "pending_evals (found T q) = fold spec_insert (redelivered (fst (T 1)) VISIBILITY q) (pending_evals q)"
    by (rule parts(3), rule parts(4))
  have "\<not> is_expired (fst (T k)) VISIBILITY x" if "1 \<le> k" "x \<in> set (q_in_flight (found T q))" for k x
  proof (cases "k = 1")
    case True
    with that(2) show ?thesis by (simp add: parts(2))
  next
    case False
    with that assms(3) show ?thesis by (simp add: in_time_def)
  qed
  then show "in_time T 1 (found T q)" by (simp add: in_time_def)
qed

lemma worker_first_look:
  assumes "queue_inv q" and "seq_room (length (q_in_flight q)) q" and "in_time T 2 (found T q)" and "is_leader r"
    and "2 \<le> k"
  shows "worker_run X T 0 k (W_Top, r, q) = worker_run X T 0 k (W_Top, r, found T q)"
proof -
  note parts = found_parts [OF assms(1-3)]
  have "snd (reap_expired (fst (T 1)) VISIBILITY (found T q)) = found T q"
    using reap_in_time [OF parts(1,3), of 1] by simp
  then have "worker_run X T 0 2 (W_Top, r, q) = worker_run X T 0 2 (W_Top, r, found T q)"
    using assms(4) by (simp add: numeral_2_eq_2 found_def)
  moreover obtain j where "k = 2 + j" using assms(5) le_Suc_ex by blast
  ultimately show ?thesis by (simp only: worker_run_add)
qed

text \<open>The worker serves all it finds, and then idles.\<close>

lemma worker_serves:
  assumes "raft_inv r" and "is_leader r" and "queue_inv q" and "seq_room (length (q_in_flight q)) q"
    and "in_time T 2 (found T q)"
  defines "es \<equiv> pending_evals (found T q)"
  shows "\<exists>k \<le> 8 * length es + 3. \<exists>q'.
    (\<forall>m. worker_run X T 0 (k + 3 * m) (W_Top, r, q) = (W_Top, fold (serve_eval X) es r, q')) \<and>
    pending_evals q' = [] \<and> q_blocked q' = q_blocked q @ parks_all X es r \<and>
    (\<forall>e\<in>set es. hm_get (q_in_flight q') (ev_id e) = None)"
proof -
  note parts = found_parts [OF assms(3-5)]
  have soon: "in_time T (Suc 0) (found T q)" using parts(3) by simp
  obtain k q' where k: "k \<le> 8 * length es" "worker_run X T 0 k (W_Top, r, found T q) = (W_Top, fold (serve_eval X) es r, q')"
    "pending_evals q' = []" "\<not> q_poisoned q'" "seq_ok q'"
    "q_blocked q' = q_blocked (found T q) @ parks_all X es r"
    "q_in_flight q' = fold (\<lambda>e. hm_remove (ev_id e)) es (q_in_flight (found T q))"
    using worker_loop [OF assms(1,2) parts(1,2) soon, of X] unfolding es_def by blast
  have lead: "is_leader (fold (serve_eval X) es r)" using serve_all_ok [OF assms(1,2)] by blast
  have late: "in_time T (Suc (0 + k)) q'"
    by (rule in_time_mono [OF soon]) (simp_all add: k(7) fold_remove_subset)
  have "worker_run X T 0 (k + 3 + 3 * m) (W_Top, r, q) = (W_Top, fold (serve_eval X) es r, q')" for m
  proof -
    have "worker_run X T 0 (k + 3 + 3 * m) (W_Top, r, q) = worker_run X T 0 (k + 3 * Suc m) (W_Top, r, found T q)"
      using worker_first_look [OF assms(3-5,2), of "k + 3 + 3 * m" X] by (simp add: add.assoc)
    also have "\<dots> = worker_run X T (0 + k) (3 * Suc m) (W_Top, fold (serve_eval X) es r, q')"
      by (simp only: worker_run_add k(2))
    also have "\<dots> = (W_Top, fold (serve_eval X) es r, q')" by (rule worker_idle [OF lead k(4,5,3) late])
    finally show ?thesis .
  qed
  with k parts(4) show ?thesis
    by (intro exI [of _ "k + 3"] conjI exI [of _ q']) (auto intro!: fold_remove_gone simp: k(7))
qed

text \<open>The in-process endpoint with one node, and the same after a job was accepted.\<close>

definition lab_endpoint :: endpoint where
  "lab_endpoint = snd (handle 0 0 (Req_NodeRegister sample_node) (endpoint_new queue_new))"

definition lab_accepted :: endpoint where
  "lab_accepted = snd (handle 0 7 (Req_JobRegister sample_job) lab_endpoint)"

lemma lab_ok:
  "raft_inv (ep_raft lab_endpoint)" "is_leader (ep_raft lab_endpoint)" "\<not> q_poisoned (ep_queue lab_endpoint)"
  "q_heap (ep_queue lab_endpoint) = []" "seq_room 1 (ep_queue lab_endpoint)"
proof -
  have "ep_raft (endpoint_new queue_new) = raft_bootstrap ''rpc-local''" by (simp add: endpoint_new_def)
  then have "raft_inv (ep_raft (endpoint_new queue_new))" by (auto simp: raft_init_def intro!: raft_init_inv)
  moreover obtain resp where "handle 0 0 (Req_NodeRegister sample_node) (endpoint_new queue_new) = (resp, lab_endpoint)"
    by (metis lab_endpoint_def prod.collapse)
  ultimately show "raft_inv (ep_raft lab_endpoint)"
    using handle_parts raft_inv_propose by metis
  show "is_leader (ep_raft lab_endpoint)" by code_simp
  show "\<not> q_poisoned (ep_queue lab_endpoint)" by code_simp
  show "q_heap (ep_queue lab_endpoint) = []" by code_simp
  have "q_next_seq (ep_queue lab_endpoint) = 0" by code_simp
  then show "seq_room 1 (ep_queue lab_endpoint)" by (simp add: seq_room_def)
qed

lemma lab_pending: "seq_ok (ep_queue lab_endpoint)" "pending_evals (ep_queue lab_endpoint) = []"
  by (simp_all add: seq_ok_def pending_evals_def lab_ok(4))

lemma sample_job_ok: "job_ok sample_job"
  using jobs.get_wf [OF sample_state_ok, of "''shop''"] by (simp add: get_job_def sample_defs)

lemma lab_accepted_ok:
  "raft_inv (ep_raft lab_accepted)" "is_leader (ep_raft lab_accepted)" "\<not> q_poisoned (ep_queue lab_accepted)"
  "seq_ok (ep_queue lab_accepted)" "pending_evals (ep_queue lab_accepted) = [register_eval 7 sample_job]"
proof -
  from register_on_leader [OF sample_job_ok lab_ok(2,3), of 0 7] obtain ep where
    ep: "handle 0 7 (Req_JobRegister sample_job) lab_endpoint = (Inr (JobRegistered (eval_id_for 7 (jb_name sample_job))), ep)"
      "is_leader (ep_raft ep)" "\<not> q_poisoned (ep_queue ep)"
      "ep_queue ep = push_seq (register_eval 7 sample_job) 0 (ep_queue lab_endpoint)" by metis
  moreover from ep(1) have "lab_accepted = ep" by (simp only: lab_accepted_def snd_conv)
  moreover have "raft_inv (ep_raft ep)" using handle_parts [OF ep(1)] lab_ok(1) raft_inv_propose by auto
  ultimately show "raft_inv (ep_raft lab_accepted)" "is_leader (ep_raft lab_accepted)"
    "\<not> q_poisoned (ep_queue lab_accepted)" "seq_ok (ep_queue lab_accepted)"
    "pending_evals (ep_queue lab_accepted) = [register_eval 7 sample_job]"
    using push_seq_ok [OF lab_pending(1) lab_ok(5)] push_seq_pending [OF lab_pending(1)]
    by (simp_all add: lab_pending(2) spec_insert_def)
qed

lemma lab_plan:
  "map al_id (pl_allocs (process_eval no_crates (register_eval 7 sample_job) (raft_state (ep_raft lab_accepted)))) =
     [''eval-shop-7-0'', ''eval-shop-7-1'']"
  by code_simp

lemma in_map_obtain:
  assumes "map f xs = ys" and "y \<in> set ys"
  obtains x where "x \<in> set xs" "f x = y"
  using assms by auto

section \<open>Properties\<close>

text \<open>C10. The worker implements a fold. Left alone on a leader, with no request and no other worker in
  between, it first puts back the deliveries that have timed out and may be made again, in the order
  in which the map lists them, and then serves exactly the pending evaluations, by descending
  priority and in the order of enqueueing within a priority, within eight of its steps for each and
  three more. Each is planned against the
  state its predecessors left, its placements are committed in order, and it is parked as blocked
  exactly when there are none although its job wants instances; then nothing is pending, none of the
  evaluations served is in flight, and all further turns of the loop change nothing. The clock may
  read anything, provided that no delivery of somebody else times out after the first look.\<close>

theorem worker_serves_all:
  assumes "raft_inv r" and "is_leader r" and "queue_inv q" and "seq_room (length (q_in_flight q)) q"
    and "in_time T 2 (snd (reap_expired (fst (T 1)) VISIBILITY q))"
  defines "es \<equiv> fold spec_insert (redelivered (fst (T 1)) VISIBILITY q) (pending_evals q)"
  shows "\<exists>k \<le> 8 * length es + 3. \<exists>q'.
    (\<forall>m. worker_run X T 0 (k + 3 * m) (W_Top, r, q) = (W_Top, fold (serve_eval X) es r, q')) \<and>
    raft_inv (fold (serve_eval X) es r) \<and> pending_evals q' = [] \<and>
    q_blocked q' = q_blocked q @ parks_all X es r \<and>
    (\<forall>e\<in>set es. hm_get (q_in_flight q') (ev_id e) = None)"
proof -
  have time: "in_time T 2 (found T q)" using assms(5) by (simp only: found_def)
  have "pending_evals (found T q) = es" using found_parts(5) [OF assms(3,4) time] by (simp only: es_def)
  with worker_serves [OF assms(1-4) time, of X] serve_all_ok [OF assms(1,2), of X es] show ?thesis by auto
qed

text \<open>A clock that has run for two minutes when the worker looks: what was in flight is served too.\<close>

definition late_clock :: readings where
  "late_clock = (\<lambda>_. (\<lambda>_. 2 * VISIBILITY, 2 * VISIBILITY))"

definition lab_queue :: eval_queue where
  "lab_queue = snd (dequeue 0 (ep_queue lab_accepted))"

lemma lab_queue_ok:
  "queue_inv lab_queue" "seq_room (length (q_in_flight lab_queue)) lab_queue" "pending_evals lab_queue = []"
  "redelivered (fst (late_clock 1)) VISIBILITY lab_queue = [register_eval 7 sample_job]"
  "in_time late_clock 2 (snd (reap_expired (fst (late_clock 1)) VISIBILITY lab_queue))"
proof -
  have parts: "q_in_flight (ep_queue lab_endpoint) = []" "q_next_seq (ep_queue lab_endpoint) = 0"
    by code_simp+
  let ?e = "register_eval 7 sample_job"
  have "ep_queue lab_accepted = push_seq ?e 0 (ep_queue lab_endpoint)"
    using register_on_leader [OF sample_job_ok lab_ok(2,3), of 0 7] unfolding lab_accepted_def by (metis snd_conv)
  then have q: "lab_queue = (ep_queue lab_endpoint)\<lparr>q_next_seq := 1, q_heap := [],
      q_in_flight := [(ev_id ?e, \<lparr>pe_seq = 0, pe_eval = ?e, pe_dequeues = 1, pe_dequeued_at = Some 0\<rparr>)]\<rparr>"
    using lab_ok(3,4)
    by (simp add: lab_queue_def dequeue_def push_seq_def heap_push_def Let_def parts)
  show inv: "queue_inv lab_queue" and room: "seq_room (length (q_in_flight lab_queue)) lab_queue"
    and "pending_evals lab_queue = []"
    using lab_ok(3) by (simp_all add: q queue_inv_def delivery_ok_def seq_ok_def seq_room_def pending_evals_def)
  have expired: "is_expired (fst (late_clock k)) VISIBILITY (i, pe)" if "pe_dequeued_at pe = Some 0" for k i pe
    using that by (simp add: is_expired_def late_clock_def)
  then show "redelivered (fst (late_clock 1)) VISIBILITY lab_queue = [?e]"
    by (simp add: q redelivered_def)
  have "q_in_flight (snd (reap_expired (fst (late_clock 1)) VISIBILITY lab_queue)) = []"
    unfolding reap_parts(2) [OF inv room] by (simp add: q expired)
  then show "in_time late_clock 2 (snd (reap_expired (fst (late_clock 1)) VISIBILITY lab_queue))"
    by (simp add: in_time_def)
qed

theorem worker_serves_all_witness:
  "\<exists>k r q. k \<le> 11 \<and>
     worker_run no_crates late_clock 0 k (W_Top, ep_raft lab_accepted, lab_queue) = (W_Top, r, q) \<and>
     pending_evals q = [] \<and> raft_inv r \<and> hm_get (q_in_flight q) ''eval-shop-7'' = None"
proof -
  have id: "ev_id (register_eval 7 sample_job) = ''eval-shop-7''" by code_simp
  have ins: "fold spec_insert [e] [] = [e]" for e by (simp add: spec_insert_def)
  obtain k q where k: "k \<le> 8 * length [register_eval 7 sample_job] + 3"
    "\<forall>m. worker_run no_crates late_clock 0 (k + 3 * m) (W_Top, ep_raft lab_accepted, lab_queue) =
       (W_Top, fold (serve_eval no_crates) [register_eval 7 sample_job] (ep_raft lab_accepted), q)"
    "raft_inv (fold (serve_eval no_crates) [register_eval 7 sample_job] (ep_raft lab_accepted))" "pending_evals q = []"
    "hm_get (q_in_flight q) (ev_id (register_eval 7 sample_job)) = None"
    using worker_serves_all [OF lab_accepted_ok(1,2) lab_queue_ok(1,2,5), of no_crates]
    unfolding lab_queue_ok(3,4) ins by auto
  from k(2) [rule_format, of 0] k(1,3-5) show ?thesis
    unfolding id by (intro exI [of _ k] exI [of _ q] exI conjI) simp_all
qed



end
