(* ===== verification/Log_Faults.thy ===== *)
theory Log_Faults
  imports Raft_Log "HOL-Library.Sublist"
begin

text \<open>
  What a disk that fails does to the durable log of \<open>src/src/raft_log.rs\<close>: the state an operation
  leaves behind when it returns an error, and what opening the store makes of the files then. A
  restart finds the files as they are, on a disk that works again.
\<close>

definition restarted :: "disk \<Rightarrow> disk" where
  "restarted d = d\<lparr>faults := (\<lambda>_. None)\<rparr>"

lemma restarted_simps [simp]: "files (restarted d) = files d" "reliable (restarted d)"
  by (simp_all add: restarted_def reliable_def)

definition reopened :: "log_codec \<Rightarrow> path \<Rightarrow> disk \<Rightarrow> raft_log result" where
  "reopened X base d = fst (log_open X base (restarted d))"

text \<open>
  Every encoded entry is a JSON object on one line: it has no control characters, and a line that
  begins with a part of it and ends there, or goes on with another object, is not an entry.
\<close>

definition torn_lines_fail :: "log_codec \<Rightarrow> bool" where
  "torn_lines_fail X \<longleftrightarrow>
     (\<forall>e l. entry_to_string X e = Inr l \<longrightarrow> CHR 0x0D \<notin> set l \<and>
        (\<forall>p q. strict_prefix p l \<and> p \<noteq> [] \<and> (q = [] \<or> (\<exists>e'. entry_to_string X e' = Inr q)) \<longrightarrow>
           \<not> is_ok (entry_from_str X (p @ q))))"

lemma torn_line:
  "\<lbrakk>torn_lines_fail X; entry_to_string X e = Inr l; strict_prefix p l; p \<noteq> []; q = [] \<or> entry_to_string X e' = Inr q\<rbrakk> \<Longrightarrow>
     \<not> is_ok (entry_from_str X (p @ q))"
  unfolding torn_lines_fail_def by blast

section \<open>Torn files\<close>

text \<open>The text of whole lines, then a line \<open>p\<close> that goes on as \<open>q\<close>, then more whole lines.\<close>

lemma split_on_lines_rest:
  "\<forall>l\<in>set ls. c \<notin> set l \<Longrightarrow> split_on c (concat (map (\<lambda>l. l @ [c]) ls) @ rest) = ls @ split_on c rest"
  by (induction ls) (auto simp: split_on_cons)

lemma split_on_none: "c \<notin> set p \<Longrightarrow> split_on c p = [p]"
  by (induction p) auto

lemma lines_of_rest:
  assumes "\<forall>l\<in>set ls. line_text l" and "line_text p"
  shows "lines_of (concat (map (\<lambda>l. l @ [CHR 0x0A]) ls) @ p) = ls @ [p]"
proof -
  have "split_on (CHR 0x0A) (concat (map (\<lambda>l. l @ [CHR 0x0A]) ls) @ p) = ls @ [p]"
    using assms by (simp add: split_on_lines_rest split_on_none line_text_def)
  then show ?thesis
    using assms by (auto simp: lines_of_def line_text_def strip_cr_def intro: map_idI)
qed

lemma try_map_bad: "\<not> is_ok (f y) \<Longrightarrow> \<not> is_ok (try_map f (xs @ y # zs))"
proof (induction xs)
  case Nil
  then show ?case by (cases "f y") simp_all
next
  case (Cons x xs)
  then show ?case by (cases "f x"; cases "try_map f (xs @ y # zs)") simp_all
qed

lemma load_torn:
  assumes X: "log_codec_ok X" "torn_lines_fail X" and es: "encodable X es" "encodable X es'"
    and l: "entry_to_string X e = Inr l" and p: "strict_prefix p l" "p \<noteq> []"
  shows "\<not> is_ok (load_text X (log_text X es @ p @ log_text X es'))"
proof -
  have "CHR 0x0A \<notin> set l" "CHR 0x0D \<notin> set l"
    using X l by (simp_all add: log_codec_ok_def line_text_def torn_lines_fail_def)
  moreover have "set p \<subseteq> set l" using p(1) by (auto simp: strict_prefix_def prefix_def)
  ultimately have pl: "CHR 0x0A \<notin> set p" "CHR 0x0D \<notin> set p" by auto
  show ?thesis
  proof (cases es')
    case Nil
    have "line_text p" using pl p(2) by (metis line_text_def last_in_set)
    then have "lines_of (log_text X es @ p) = map (entry_line X) es @ [p]"
      unfolding log_text_def using decodable [OF X(1) es(1)] by (intro lines_of_rest) auto
    moreover have "\<not> is_ok (entry_from_str X p)" using torn_line [OF X(2) l p, of "[]"] by simp
    ultimately show ?thesis
      using p(2) Nil by (simp add: load_text_def try_map_bad)
  next
    case (Cons e1 es1)
    obtain q where q: "entry_to_string X e1 = Inr q" "entry_line X e1 = q"
      using es(2) Cons by (auto simp: encodable_def is_ok_def entry_line_def split: sum.splits)
    have lq: "line_text q" using X(1) q(1) by (auto simp: log_codec_ok_def)
    have rest: "\<forall>l\<in>set (map (entry_line X) es1). line_text l"
      using decodable [OF X(1)] es(2) Cons by (auto simp: encodable_def)
    have "log_text X es @ p @ log_text X es' =
        concat (map (\<lambda>l. l @ [CHR 0x0A]) (map (entry_line X) es @ (p @ q) # map (entry_line X) es1))"
      by (simp add: log_text_def Cons q(2))
    moreover have "\<forall>l\<in>set (map (entry_line X) es @ (p @ q) # map (entry_line X) es1). line_text l"
      using decodable [OF X(1) es(1)] rest lq pl by (auto simp: line_text_def)
    ultimately have "lines_of (log_text X es @ p @ log_text X es') =
        map (entry_line X) es @ (p @ q) # map (entry_line X) es1"
      by (simp only: lines_of_concat)
    moreover have "\<not> is_ok (entry_from_str X (p @ q))" using torn_line [OF X(2) l p] q(1) by blast
    ultimately show ?thesis
      using p(2) by (simp add: load_text_def try_map_bad)
  qed
qed
section \<open>Appends that fail\<close>

text \<open>The entry an append is about to write.\<close>

definition next_entry :: "raft_log \<Rightarrow> int \<Rightarrow> u64 \<Rightarrow> command \<Rightarrow> raft_log_entry" where
  "next_entry L now trm c =
     \<lparr>le_index = li_base_index L + of_nat (length (li_entries L)), le_term = trm, le_timestamp = now, le_command = c\<rparr>"

lemma append_failed:
  assumes "log_append X now trm c (L, d) = (Inl err, (L', d'))"
  shows "L' = L \<and>
    (files d' = files d \<or>
     (\<exists>l k. entry_to_string X (next_entry L now trm c) = Inr l \<and>
        files d' = (files d)(li_log_path L \<mapsto> content (li_log_path L) d @ take k (l @ [CHR 0x0A]))))"
proof -
  let ?p = "li_log_path L"
  have torn: "\<exists>k. files d2 = (files d)(?p \<mapsto> content ?p d @ take k b)"
    if "fs_open_append ?p d = (Inr (), d1)" and "write_all ?p b d1 = (Inl x, d2)" for b d1 d2 x
    using fs_ops_files(4) [OF that(1)] fs_ops_failed(5) [OF that(2)]
    by (auto simp: content_def fun_upd_idem intro: exI [of _ "0 :: nat"])
  show ?thesis
    using assms
    by (auto simp: log_append_def log_lock_def sbind_Inl sbind_Inr on_disk_eq Let_def next_entry_def
        dest: fs_ops_failed torn simp del: take_append split: if_splits)
qed
lemma log_inv_content:
  "log_inv X base (L, d) \<Longrightarrow> content (li_log_path L) d = log_text X (li_entries L) \<and> encodable X (li_entries L)"
  by (auto simp: log_inv_def synced_def content_def)

text \<open>What opening a store makes of the text of its log when the snapshot is the one it follows.\<close>

lemma reopened_text:
  assumes "log_inv X base (L, d)" and "files d' (li_log_path L) = Some bytes"
    and "files d' (li_snap_path L) = files d (li_snap_path L)"
  shows "reopened X base d' =
    (case load_text X bytes of Inl e \<Rightarrow> Inl e | Inr es \<Rightarrow> Inr (L\<lparr>li_entries := es\<rparr>))"
proof -
  have "log_paths base L" "\<not> li_poisoned L" "base_follows X (files (restarted d') (li_snap_path L)) (li_base_index L)"
    using assms by (auto simp: log_inv_def synced_def)
  with reopen_text [OF this(1) _ this(3), of bytes] assms(2) show ?thesis
    by (cases L) (simp add: reopened_def split: sum.split)
qed

lemma load_last_line:
  assumes "log_codec_ok X" and "encodable X es" and "entry_to_string X e = Inr l"
  shows "load_text X (log_text X es @ l) = Inr (es @ [e])"
proof -
  have "entry_from_str X l = Inr e" "line_text l" using assms(1,3) by (auto simp: log_codec_ok_def)
  moreover have "lines_of (log_text X es @ l) = map (entry_line X) es @ [l]"
    unfolding log_text_def using decodable [OF assms(1,2)] calculation(2) by (intro lines_of_rest) auto
  ultimately show ?thesis
    using decodable [OF assms(1,2)] try_map_lines [of "es @ [e]" X] filter_lines [of "es @ [e]" X] assms(3)
    by (simp add: load_text_def entry_line_def)
qed

lemma failed_append_parts:
  assumes "log_codec_ok X" and "torn_lines_fail X" and "log_reachable X base (L, d)"
    and "log_append X now trm c (L, d) = (Inl err, (L', d'))"
  shows "L' = L \<and>
    (case reopened X base d' of
       Inr L2 \<Rightarrow> L2 = L \<or>
         is_ok (entry_to_string X (next_entry L now trm c)) \<and>
         L2 = L\<lparr>li_entries := li_entries L @ [next_entry L now trm c]\<rparr>
     | Inl _ \<Rightarrow> \<exists>l p. entry_to_string X (next_entry L now trm c) = Inr l \<and> strict_prefix p l \<and> p \<noteq> [] \<and>
         files d' = (files d)(li_log_path L \<mapsto> log_text X (li_entries L) @ p))"
proof -
  have inv: "log_inv X base (L, d)" using assms(3) by (rule log_store.reachable_inv)
  note cont = log_inv_content [OF inv]
  have snap: "li_log_path L \<noteq> li_snap_path L" using inv paths_distinct(1) by (auto simp: log_inv_def)
  have "L' = L" using append_failed [OF assms(4)] by simp
  have "files d' = files d \<or>
     (\<exists>l k. entry_to_string X (next_entry L now trm c) = Inr l \<and>
        files d' = (files d)(li_log_path L \<mapsto> log_text X (li_entries L) @ take k (l @ [CHR 0x0A])))"
    using append_failed [OF assms(4)] cont by simp
  then consider "files d' = files d"
    | l k where "entry_to_string X (next_entry L now trm c) = Inr l"
        "files d' = (files d)(li_log_path L \<mapsto> log_text X (li_entries L) @ take k (l @ [CHR 0x0A]))" by blast
  then show ?thesis
  proof cases
    case 1
    then have "log_inv X base (L, restarted d')" using inv by (simp add: log_inv_def synced_def)
    then have "reopened X base d' = Inr L" using assms(1) by (simp add: reopened_def synced_reopen)
    with \<open>L' = L\<close> show ?thesis by simp
  next
    case (2 l k)
    let ?e = "next_entry L now trm c" and ?es = "li_entries L"
    have read: "reopened X base d' =
        (case load_text X (log_text X ?es @ take k (l @ [CHR 0x0A])) of
           Inl e \<Rightarrow> Inl e | Inr es \<Rightarrow> Inr (L\<lparr>li_entries := es\<rparr>))"
      using 2(2) snap by (intro reopened_text [OF inv]) simp_all
    consider "k = 0" | "0 < k" "k < length l" | "k = length l" | "length l < k" by linarith
    then show ?thesis
    proof cases
      case 1
      with read \<open>L' = L\<close> cont assms(1) show ?thesis by (simp add: load_log_text)
    next
      case part: 2
      then have p: "strict_prefix (take k l) l" "take k l \<noteq> []"
        by (auto simp: strict_prefix_def take_is_prefix)
      have "\<not> is_ok (load_text X (log_text X ?es @ take k l @ log_text X []))"
        using assms(1,2) cont 2(1) p by (intro load_torn) (auto simp: encodable_def)
      with read part \<open>L' = L\<close> 2 p show ?thesis
        by (auto simp: is_ok_def split: sum.splits intro!: exI [of _ "take k l"])
    next
      case 3
      with read \<open>L' = L\<close> load_last_line [OF assms(1) _ 2(1)] cont 2(1) show ?thesis by simp
    next
      case 4
      have "encodable X (?es @ [?e])" using cont 2(1) by (auto simp: encodable_def)
      then have "load_text X (log_text X ?es @ l @ [CHR 0x0A]) = Inr (?es @ [?e])"
        using load_log_text [OF assms(1), of "?es @ [?e]"] 2(1) by (simp add: entry_line_def)
      with read 4 \<open>L' = L\<close> 2(1) show ?thesis by simp
    qed
  qed
qed

text \<open>C16. An append that fails leaves the entries in memory as they were, and a restart after it finds
  one of three things: the store as it was, the store with the entry although its caller was told
  that it failed, or, exactly when a part of the line was written, a log file that cannot be
  opened.\<close>

theorem failed_append_reopens:
  assumes "log_codec_ok X" and "torn_lines_fail X" and "log_reachable X base (L, d)"
    and "log_append X now trm c (L, d) = (Inl err, (L', d'))"
  shows "L' = L \<and>
    (case reopened X base d' of
       Inr L2 \<Rightarrow> L2 = L \<or>
         is_ok (entry_to_string X (next_entry L now trm c)) \<and>
         L2 = L\<lparr>li_entries := li_entries L @ [next_entry L now trm c]\<rparr>
     | Inl _ \<Rightarrow> \<exists>l p. entry_to_string X (next_entry L now trm c) = Inr l \<and> strict_prefix p l \<and> p \<noteq> [] \<and>
         files d' = (files d)(li_log_path L \<mapsto> log_text X (li_entries L) @ p))"
  by (rule failed_append_parts [OF assms])

section \<open>Appends after a torn line\<close>

fun append_run :: "log_codec \<Rightarrow> (int \<times> u64 \<times> command) list \<Rightarrow> log_world \<Rightarrow> log_world option" where
  "append_run X [] w = Some w"
| "append_run X ((now, trm, c) # cs) w =
     (case log_append X now trm c w of (Inl _, _) \<Rightarrow> None | (Inr _, w') \<Rightarrow> append_run X cs w')"

lemma append_run_text:
  "append_run X cs (L, d) = Some (L', d') \<Longrightarrow>
     \<exists>es. map le_command es = map (\<lambda>(_, _, c). c) cs \<and> encodable X es \<and> L' = L\<lparr>li_entries := li_entries L @ es\<rparr> \<and>
       content (li_log_path L) d' = content (li_log_path L) d @ log_text X es \<and>
       (cs \<noteq> [] \<longrightarrow> files d' (li_log_path L) \<noteq> None) \<and>
       (\<forall>p. p \<noteq> li_log_path L \<longrightarrow> files d' p = files d p)"
proof (induction cs arbitrary: L d)
  case Nil
  then show ?case by (cases L) (auto simp: encodable_def)
next
  case (Cons c cs)
  obtain now trm cm where c: "c = (now, trm, cm)" by (cases c) auto
  obtain e L1 d1 where e: "log_append X now trm cm (L, d) = (Inr e, (L1, d1))"
    and rest: "append_run X cs (L1, d1) = Some (L', d')"
    using Cons.prems by (auto simp: c split: prod.splits sum.splits)
  from append_cases [OF e] obtain l where l: "entry_to_string X e = Inr l"
    and L1: "L1 = L\<lparr>li_entries := li_entries L @ [e]\<rparr>"
    and f: "files d1 = (files d)(li_log_path L \<mapsto> content (li_log_path L) d @ l @ [CHR 0x0A])" by blast
  from Cons.IH [OF rest] obtain es where es: "map le_command es = map (\<lambda>(_, _, c). c) cs" "encodable X es"
      "L' = L1\<lparr>li_entries := li_entries L1 @ es\<rparr>"
      "content (li_log_path L) d' = content (li_log_path L) d1 @ log_text X es"
      "cs \<noteq> [] \<longrightarrow> files d' (li_log_path L) \<noteq> None" "\<forall>p. p \<noteq> li_log_path L \<longrightarrow> files d' p = files d1 p"
    by (auto simp: L1)
  have "files d' (li_log_path L) \<noteq> None"
  proof (cases cs)
    case Nil
    with rest f show ?thesis by simp
  qed (use es(5) in simp)
  moreover have "le_command e = cm" using append_cases [OF e] by simp
  ultimately show ?case using es f l L1
    by (intro exI [of _ "e # es"]) (auto simp: c encodable_def content_def log_text_def entry_line_def)
qed

lemma append_run_contiguous:
  "\<lbrakk>append_run X cs (L, d) = Some (L', d'); contiguous L\<rbrakk> \<Longrightarrow> contiguous L'"
proof (induction cs arbitrary: L d)
  case (Cons a cs)
  obtain now trm c e L1 d1 where "log_append X now trm c (L, d) = (Inr e, (L1, d1))"
    and rest: "append_run X cs (L1, d1) = Some (L', d')"
    using Cons.prems(1) by (cases a) (auto split: prod.splits sum.splits)
  from append_contiguous [OF this(1) Cons.prems(2)] show ?case by (rule Cons.IH [OF rest])
qed simp

text \<open>The commands that the codec can write down, and that nothing else stops an append.\<close>

definition writable :: "log_codec \<Rightarrow> int \<times> u64 \<times> command \<Rightarrow> bool" where
  "writable X a \<longleftrightarrow> (case a of (now, trm, c) \<Rightarrow>
     \<forall>i. is_ok (entry_to_string X \<lparr>le_index = i, le_term = trm, le_timestamp = now, le_command = c\<rparr>))"

lemma append_writable:
  assumes "writable X (now, trm, c)" and "\<not> li_poisoned L" and "reliable d"
  shows "\<exists>e L' d'. log_append X now trm c (L, d) = (Inr e, (L', d')) \<and> \<not> li_poisoned L' \<and> reliable d'"
proof -
  have rel: "fs_op good bad d' = good (d'\<lparr>ops := Suc (ops d')\<rparr>)" if "faults d' = (\<lambda>_. None)"
    for good :: "disk \<Rightarrow> unit result \<times> disk" and bad d'
    using that by (simp add: fs_op_def)
  have "faults d = (\<lambda>_. None)" using assms(3) by (simp add: reliable_def)
  with assms(1,2) show ?thesis
    by (auto simp: writable_def is_ok_def log_append_def log_lock_def sbind_def slift_def on_disk_def Let_def
        fs_open_append_def write_all_def rel reliable_def split: sum.splits)
qed

lemma append_run_writable:
  "\<lbrakk>\<forall>a\<in>set cs. writable X a; \<not> li_poisoned L; reliable d\<rbrakk> \<Longrightarrow> append_run X cs (L, d) \<noteq> None"
proof (induction cs arbitrary: L d)
  case (Cons a cs)
  obtain now trm c where a: "a = (now, trm, c)" by (cases a) auto
  with Cons.prems obtain e L1 d1 where "log_append X now trm c (L, d) = (Inr e, (L1, d1))"
    "\<not> li_poisoned L1" "reliable d1"
    using append_writable [of X now trm c L d] by auto
  with Cons.IH [of L1 d1] Cons.prems(1) show ?case by (simp add: a)
qed simp

text \<open>The operations that write the log file anew, and did: a truncation that removes no entry leaves
  the file alone.\<close>

definition writes_anew :: "log_codec \<Rightarrow> log_world \<Rightarrow> log_world \<Rightarrow> bool" where
  "writes_anew X w w' \<longleftrightarrow>
     (\<exists>s t sn. create_snapshot X s t w = (Inr sn, w') \<and> no_overflow (fst w)) \<or>
     (\<exists>sn. install_snapshot X sn w = (Inr (), w')) \<or>
     (\<exists>i. log_truncate X i w = (Inr (), w') \<and> length (li_entries (fst w')) < length (li_entries (fst w)))"

lemma written_anew:
  assumes "log_codec_ok X" and "log_paths base L" and "\<not> li_poisoned L" and "contiguous L"
    and "base_follows X (files d (li_snap_path L)) (li_base_index L)" and "writes_anew X (L, d) (L', d')"
  shows "reopened X base d' = Inr L'"
proof -
  have "log_inv X base (L', restarted d')"
    using assms(6) unfolding writes_anew_def fst_conv
  proof (elim disjE exE conjE)
    fix s t sn assume "create_snapshot X s t (L, d) = (Inr sn, (L', d'))" "no_overflow L"
    from create_snapshot_cases [OF this] synced_snapshot [OF assms(1,2), of sn] assms(2,3) show ?thesis
      by (auto simp: log_inv_def log_paths_def contiguous_def synced_def)
  next
    fix sn assume "install_snapshot X sn (L, d) = (Inr (), (L', d'))"
    from install_snapshot_cases [OF this] synced_snapshot [OF assms(1,2), of sn] assms(2,3) show ?thesis
      by (auto simp: log_inv_def log_paths_def contiguous_def synced_def)
  next
    fix i assume "log_truncate X i (L, d) = (Inr (), (L', d'))" "length (li_entries L') < length (li_entries L)"
    with truncate_cases [OF this(1)] assms(2-5) paths_distinct(1) [OF assms(2)] show ?thesis
      by (auto simp: log_inv_def log_paths_def contiguous_def synced_def)
  qed
  then show ?thesis using assms(1) by (simp add: reopened_def synced_reopen)
qed

text \<open>C17. A torn line cannot be appended away. After an append that failed and left a log that
  cannot be opened, the store goes on: on a disk that works again every append of a command the
  codec can write succeeds. Whatever appends succeed after it, on this disk or on a better one,
  their commands are held in memory in order, and the log still cannot be opened. An operation that
  succeeds and writes the file anew ends this, a snapshot taken (its index within 64 bits) or
  installed or a truncation that removes an entry: then a restart finds what memory holds.\<close>

theorem torn_append_is_permanent:
  assumes "log_codec_ok X" and "torn_lines_fail X" and "log_reachable X base (L, d)"
    and "log_append X now trm c (L, d) = (Inl err, (L1, d1))" and "\<not> is_ok (reopened X base d1)"
  shows "(\<forall>cs. (\<forall>a\<in>set cs. writable X a) \<longrightarrow> append_run X cs (L1, restarted d1) \<noteq> None) \<and>
    (\<forall>d0 cs L2 d2. files d0 = files d1 \<and> append_run X cs (L1, d0) = Some (L2, d2) \<longrightarrow>
       (\<exists>es. li_entries L2 = li_entries L @ es \<and> map le_command es = map (\<lambda>(_, _, c). c) cs) \<and>
       \<not> is_ok (reopened X base d2) \<and>
       (\<forall>L3 d3. writes_anew X (L2, d2) (L3, d3) \<longrightarrow> reopened X base d3 = Inr L3))"
proof -
  have inv: "log_inv X base (L, d)" using assms(3) by (rule log_store.reachable_inv)
  have paths: "log_paths base L" "\<not> li_poisoned L" "contiguous L"
    "base_follows X (files d (li_snap_path L)) (li_base_index L)"
    using inv by (simp_all add: log_inv_def synced_def)
  obtain e where "reopened X base d1 = Inl e" using assms(5) by (cases "reopened X base d1") auto
  then obtain l p where L1: "L1 = L" and l: "entry_to_string X (next_entry L now trm c) = Inr l"
    and p: "strict_prefix p l" "p \<noteq> []" and f: "files d1 = (files d)(li_log_path L \<mapsto> log_text X (li_entries L) @ p)"
    using failed_append_parts [OF assms(1-4)] by auto
  have later: "(\<exists>es. li_entries L2 = li_entries L @ es \<and> map le_command es = map (\<lambda>(_, _, c). c) cs) \<and>
      \<not> is_ok (reopened X base d2) \<and> (\<forall>L3 d3. writes_anew X (L2, d2) (L3, d3) \<longrightarrow> reopened X base d3 = Inr L3)"
    if d0: "files d0 = files d1" and run: "append_run X cs (L1, d0) = Some (L2, d2)" for d0 cs L2 d2
  proof -
    obtain es where es: "map le_command es = map (\<lambda>(_, _, c). c) cs" "encodable X es" "L2 = L\<lparr>li_entries := li_entries L @ es\<rparr>"
      "content (li_log_path L) d2 = (log_text X (li_entries L) @ p) @ log_text X es"
      "cs \<noteq> [] \<longrightarrow> files d2 (li_log_path L) \<noteq> None" "\<forall>p. p \<noteq> li_log_path L \<longrightarrow> files d2 p = files d0 p"
      using append_run_text [OF run] f by (auto simp: L1 d0 content_def)
    have log: "files d2 (li_log_path L) = Some (log_text X (li_entries L) @ p @ log_text X es)"
      using es(4,5) p(2) by (auto simp: content_def split: option.splits)
    have snap: "files d2 (li_snap_path L) = files d (li_snap_path L)"
      using es(6) f paths_distinct(1) [OF paths(1)] by (simp add: d0)
    have "\<not> is_ok (load_text X (log_text X (li_entries L) @ p @ log_text X es))"
      using log_inv_content [OF inv] es(2) l p assms(1,2) by (intro load_torn) auto
    then have "\<not> is_ok (reopened X base d2)"
      using reopened_text [OF inv log snap] by (auto simp: is_ok_def split: sum.splits)
    moreover have "contiguous L2" using append_run_contiguous [OF run] paths(3) by (simp add: L1)
    then have "reopened X base d3 = Inr L3" if "writes_anew X (L2, d2) (L3, d3)" for L3 d3
      using written_anew [OF assms(1) _ _ _ _ that] paths es(3) snap by (simp add: log_paths_def)
    ultimately show ?thesis using es(1,3) by auto
  qed
  have "append_run X cs (L1, restarted d1) \<noteq> None" if "\<forall>a\<in>set cs. writable X a" for cs
    using append_run_writable [OF that] paths(2) by (simp add: L1)
  with later show ?thesis by blast
qed

section \<open>Snapshots that fail\<close>

lemma store_snapshot_failed:
  assumes "store_snapshot X p s d = (Inl err, d')"
  shows "\<forall>f. f \<noteq> with_extension p ''snap.tmp'' \<longrightarrow> files d' f = files d f"
proof -
  have wr: "\<forall>f. f \<noteq> q \<longrightarrow> files d1 f = files d f" if "fs_write q b d = (r, d1)" for q b r d1
  proof (cases r)
    case (Inl x)
    with that fs_ops_failed(6) [of q b d x d1] show ?thesis by auto
  next
    case (Inr u)
    with that fs_ops_files(2) [of q b d d1] show ?thesis by simp
  qed
  from assms show ?thesis
    by (auto simp: store_snapshot_def sbind_Inl Let_def wr dest!: fs_ops_failed(4))
qed

lemma end_index_Suc: "no_overflow L \<Longrightarrow> end_index L + 1 = li_base_index L + of_nat (length (li_entries L))"
  by (auto simp: end_index_def saturating_sub1_def no_overflow_def)

text \<open>C18. A snapshot that fails has either changed nothing that counts, in memory or for a restart, or it
  was put in place and the log was not rewritten: then memory is compacted, but a restart finds
  all the old entries again, under indices that are too high by their number.\<close>

theorem failed_snapshot_outcomes:
  assumes "log_codec_ok X" and "log_reachable X base (L, d)" and "no_overflow L"
    and "create_snapshot X s trm (L, d) = (Inl err, (L', d'))"
  shows "(L' = L \<and> reopened X base d' = Inr L) \<or>
    (\<exists>L2. L' = L\<lparr>li_entries := [], li_base_index := end_index L + 1\<rparr> \<and> reopened X base d' = Inr L2 \<and>
       L2 = L\<lparr>li_base_index := end_index L + 1\<rparr> \<and>
       (\<forall>i e. log_get L2 i = Some e \<longrightarrow> le_index e = i - of_nat (length (li_entries L))))"
proof -
  have inv: "log_inv X base (L, d)" using assms(2) by (rule log_store.reachable_inv)
  have paths: "log_paths base L" "\<not> li_poisoned L" using inv by (simp_all add: log_inv_def)
  let ?sn = "\<lparr>rs_state = s, rs_last_included_index = end_index L, rs_last_included_term = trm\<rparr>"
  let ?L1 = "L\<lparr>li_entries := [], li_base_index := end_index L + 1\<rparr>"
  note distinct = paths_distinct [OF paths(1)]
  consider "L' = L" "store_snapshot X (li_snap_path L) ?sn d = (Inl err, d')"
    | d1 where "L' = ?L1" "store_snapshot X (li_snap_path L) ?sn d = (Inr (), d1)"
        "fs_create (li_log_path L) d1 = (Inl err, d')"
    using assms(4) paths(2)
    by (auto simp: create_snapshot_def log_lock_def sbind_Inl sbind_Inr on_disk_eq Let_def rewrite_log_def
        snapshot_drops_all [OF assms(3)])
  then show ?thesis
  proof cases
    case 1
    then have "files d' (li_log_path L) = files d (li_log_path L)" "files d' (li_snap_path L) = files d (li_snap_path L)"
      using store_snapshot_failed distinct by metis+
    then have "log_inv X base (L, restarted d')" using inv by (simp add: log_inv_def synced_def)
    with 1 assms(1) show ?thesis by (simp add: reopened_def synced_reopen)
  next
    case (2 d1)
    obtain t where t: "snap_to_string X ?sn = Inr t"
      and "files d1 = ((files d)(with_extension (li_snap_path L) ''snap.tmp'' := None))(li_snap_path L \<mapsto> t)"
      using store_snapshot_ok [OF 2(2)] by blast
    with fs_ops_failed(2) [OF 2(3)] distinct have
      "files d' (li_log_path L) = files d (li_log_path L)" "files d' (li_snap_path L) = Some t" by simp_all
    moreover have "snap_from_str X t = Inr ?sn" using assms(1) t by (auto simp: log_codec_ok_def)
    ultimately have "reopened X base d' = Inr (L\<lparr>li_base_index := end_index L + 1\<rparr>)"
      using reopen_text [OF paths(1), of "restarted d'" X "end_index L + 1" "log_text X (li_entries L)"]
        inv paths(2) load_log_text [OF assms(1)]
      by (cases L) (auto simp: reopened_def log_inv_def synced_def base_follows_def)
    moreover have "le_index e = i - of_nat (length (li_entries L))"
      if "log_get (L\<lparr>li_base_index := end_index L + 1\<rparr>) i = Some e" for i e
    proof -
      let ?k = "unat (i - (end_index L + 1))"
      have "?k < length (li_entries L)" "e = li_entries L ! ?k"
        using that by (auto simp: log_get_def Let_def split: if_splits)
      then have "le_index e = li_base_index L + of_nat ?k" using inv by (simp add: log_inv_def contiguous_def)
      then show ?thesis by (simp add: end_index_Suc [OF assms(3)])
    qed
    ultimately show ?thesis using 2(1) by blast
  qed
qed
section \<open>A disk that fills up\<close>

text \<open>The sample store on a disk with faults: the second operation writes three bytes of the line; the
  fifth, which empties the log after a snapshot, fails.\<close>

definition lab_disk :: "(nat \<Rightarrow> (string \<times> nat) option) \<Rightarrow> disk" where
  "lab_disk f = fresh_disk\<lparr>faults := f\<rparr>"

definition full_at :: "nat \<Rightarrow> nat \<Rightarrow> nat \<Rightarrow> (string \<times> nat) option" where
  "full_at n k = (\<lambda>m. if m = n then Some (''disk full'', k) else None)"

lemma sample_torn_lines: "torn_lines_fail sample_codec"
proof -
  have enc: "entry_to_string sample_codec e = Inr l \<longleftrightarrow> e = sample_entry \<and> l = ''{entry}''" for e l
    by (auto simp: sample_codec_def)
  have dec: "is_ok (entry_from_str sample_codec t) \<longleftrightarrow> t = ''{entry}''" for t
    by (simp add: sample_codec_def)
  have "p @ q \<noteq> ''{entry}''" if "strict_prefix p ''{entry}''" "p \<noteq> []" "q = [] \<or> q = ''{entry}''" for p q
  proof
    assume "p @ q = ''{entry}''"
    then have "length (p @ q) = 7" by simp
    with that \<open>p @ q = _\<close> show False by auto
  qed
  then show ?thesis unfolding torn_lines_fail_def enc dec by auto
qed

lemma lab_reachable: "log_reachable sample_codec [''raft''] (fresh_log, lab_disk f)"
proof -
  have "log_open sample_codec [''raft''] (lab_disk f) = (Inr fresh_log, lab_disk f)"
    by (simp add: log_open_def load_base_def load_entries_def fs_exists_def sbind_def slift_def
        with_extension_raft lab_disk_def fresh_disk_def fresh_log_def Let_def)
  then show ?thesis
    by (intro reach_init)
      (auto simp: log_init_def valid_base_def lab_disk_def fresh_disk_def intro!: exI [of _ "lab_disk f"])
qed

definition torn_disk :: disk where
  "torn_disk = \<lparr>files = [[''raft.log''] \<mapsto> ''{en''], faults = full_at 1 4, ops = 2\<rparr>"

lemmas lab_defs = lab_disk_def full_at_def torn_disk_def

lemma lab_append_torn:
  "log_append sample_codec 0 7 (DeregisterJob ''shop'') (fresh_log, lab_disk (full_at 1 4)) =
     (Inl (Io ''disk full''), (fresh_log, torn_disk))"
  by (simp add: log_append_def log_lock_def sbind_def slift_def on_disk_def Let_def sample_log_defs lab_defs
      fs_open_append_def write_all_def fs_op_def content_def)

lemma lab_torn_reopened: "\<not> is_ok (reopened sample_codec [''raft''] torn_disk)"
proof -
  have "load_text sample_codec (log_text sample_codec [] @ ''{en'' @ log_text sample_codec []) = Inl (Serialize [])"
    by (simp add: load_text_def lines_of_def strip_cr_def sample_codec_def)
  then show ?thesis
    by (simp add: reopened_def restarted_def log_open_def load_base_def load_entries_def fs_exists_def sbind_def slift_def
        fs_read_def fs_op_def with_extension_raft torn_disk_def Let_def load_text_def)
qed

lemma failed_append_reopens_witness:
  "\<exists>l p. entry_to_string sample_codec (next_entry fresh_log 0 7 (DeregisterJob ''shop'')) = Inr l \<and>
     strict_prefix p l \<and> p \<noteq> [] \<and> files torn_disk [''raft.log''] = Some p"
  using failed_append_reopens [OF sample_codec_ok sample_torn_lines lab_reachable lab_append_torn]
    lab_torn_reopened
  by (auto simp: fresh_log_def split: sum.splits)

text \<open>One more append on the torn file, the disk works again, and a truncation that removes it.\<close>

lemma lab_append_again:
  "\<exists>d2 d3. append_run sample_codec [(0, 7, DeregisterJob ''shop'')] (fresh_log, torn_disk) = Some (used_log, d2) \<and>
     log_truncate sample_codec 1 (used_log, d2) = (Inr (), (fresh_log, d3))"
  by (simp add: log_append_def log_truncate_def rewrite_log_def log_lock_def sbind_def slift_def on_disk_def
      on_log_def Let_def sample_log_defs lab_defs fs_open_append_def fs_create_def write_all_def fs_op_def content_def)

lemma torn_append_is_permanent_witness:
  "\<exists>d2 d3. append_run sample_codec [(0, 7, DeregisterJob ''shop'')] (fresh_log, torn_disk) = Some (used_log, d2) \<and>
     log_get used_log 1 = Some sample_entry \<and> \<not> is_ok (reopened sample_codec [''raft''] d2) \<and>
     log_truncate sample_codec 1 (used_log, d2) = (Inr (), (fresh_log, d3)) \<and>
     reopened sample_codec [''raft''] d3 = Inr fresh_log"
proof -
  obtain d2 d3 where run: "append_run sample_codec [(0, 7, DeregisterJob ''shop'')] (fresh_log, torn_disk) = Some (used_log, d2)"
    and cut: "log_truncate sample_codec 1 (used_log, d2) = (Inr (), (fresh_log, d3))"
    using lab_append_again by blast
  have "writes_anew sample_codec (used_log, d2) (fresh_log, d3)"
    using cut by (auto simp: writes_anew_def fresh_log_def used_log_def)
  then have "\<not> is_ok (reopened sample_codec [''raft''] d2)" "reopened sample_codec [''raft''] d3 = Inr fresh_log"
    using torn_append_is_permanent [OF sample_codec_ok sample_torn_lines lab_reachable lab_append_torn
        lab_torn_reopened] run by blast+
  moreover have "log_get used_log 1 = Some sample_entry"
    by (simp add: log_get_def used_log_def fresh_log_def)
  ultimately show ?thesis using run cut by blast
qed

lemma lab_used_reachable:
  "log_reachable sample_codec [''raft''] (used_log, used_disk\<lparr>faults := full_at 4 0\<rparr>)"
proof (rule reach_step [OF lab_reachable])
  have "log_append sample_codec 0 7 (DeregisterJob ''shop'') (fresh_log, lab_disk (full_at 4 0)) =
     (Inr sample_entry, (used_log, used_disk\<lparr>faults := full_at 4 0\<rparr>))"
    by (simp add: log_append_def log_lock_def sbind_def slift_def on_disk_def Let_def sample_log_defs lab_defs
        fs_open_append_def write_all_def fs_op_def content_def)
  then show "log_codec_ok sample_codec \<and>
      log_step sample_codec (fresh_log, lab_disk (full_at 4 0)) (used_log, used_disk\<lparr>faults := full_at 4 0\<rparr>)"
    using sample_codec_ok by (auto intro: log_step.append)
qed

text \<open>The entry that was snapshotted is found again under the index 2.\<close>

lemma failed_snapshot_outcomes_witness:
  "\<exists>err L' d'. create_snapshot sample_codec state_new 7 (used_log, used_disk\<lparr>faults := full_at 4 0\<rparr>) =
       (Inl err, (L', d')) \<and> li_entries L' = [] \<and>
     (\<exists>L2. reopened sample_codec [''raft''] d' = Inr L2 \<and> log_get L2 2 = Some sample_entry \<and> le_index sample_entry = 1)"
proof -
  obtain err L' d' where run: "create_snapshot sample_codec state_new 7 (used_log, used_disk\<lparr>faults := full_at 4 0\<rparr>) =
      (Inl err, (L', d'))" and L': "li_entries L' = []"
    by (simp add: create_snapshot_def log_lock_def sbind_def slift_def on_disk_def Let_def sample_log_defs lab_defs
        store_snapshot_def rewrite_log_def fs_defs fs_op_def content_def end_index_def with_extension_def
        file_stem_def)
  have "L' \<noteq> used_log" using L' by (auto simp: used_log_def)
  with failed_snapshot_outcomes [OF sample_codec_ok lab_used_reachable sample_log_facts(3) run]
  have "reopened sample_codec [''raft''] d' = Inr (used_log\<lparr>li_base_index := end_index used_log + 1\<rparr>)" by auto
  moreover have "log_get (used_log\<lparr>li_base_index := end_index used_log + 1\<rparr>) 2 = Some sample_entry"
    by (simp add: log_get_def end_index_def used_log_def fresh_log_def)
  ultimately show ?thesis using run L' by (auto simp: sample_entry_def)
qed

end
