(* ===== verification/Gossip_Views.thy ===== *)
theory Gossip_Views
  imports Membership
begin

text \<open>
  What the gossip of \<open>src/src/membership.rs\<close> is for: members that have heard the same end up with
  the same view of everybody else. The network of \<open>Membership\<close> is run with a record of the
  messages each member has heard.
\<close>

definition heard_wires :: "msg set \<Rightarrow> wire set" where
  "heard_wires M = (\<Union>m\<in>M. set (msg_wires m))"

lemma heard_wires_simps [simp]:
  "heard_wires {} = {}" "heard_wires (insert m M) = set (msg_wires m) \<union> heard_wires M"
  by (simp_all add: heard_wires_def)

text \<open>The newest of the claims about a member, or nothing when there is none.\<close>

definition newest :: "string \<Rightarrow> wire set \<Rightarrow> entry option \<Rightarrow> bool" where
  "newest n W r \<longleftrightarrow>
     (\<forall>e. r = Some e \<longrightarrow> (\<exists>w\<in>W. wr_name w = n \<and> e = wire_entry w)) \<and>
     (\<forall>w\<in>W. wr_name w = n \<longrightarrow> inc_le (Some (wire_entry w)) r)"

lemma newest_none: "newest n {} None"
  by (simp add: newest_def)

lemma newest_claim:
  assumes "newest n W r"
  shows "newest n (set ws \<union> W) (claim n ws r)"
  using assms claim_cases [of n ws r] claim_bounds [of _ ws n r] claim_mono [of r n ws]
  by (fastforce simp: newest_def intro: inc_le_trans)

lemma newest_unique:
  assumes "newest n W r" and "newest n W r'" and "consistent (wire_entry ` {w \<in> W. wr_name w = n})"
  shows "r = r'"
proof (cases r)
  case None
  then show ?thesis using assms(1,2) by (cases r') (force simp: newest_def inc_le_def)+
next
  case (Some e)
  then obtain w where w: "w \<in> W" "wr_name w = n" "e = wire_entry w" using assms(1) by (auto simp: newest_def)
  then obtain e' where e': "r' = Some e'" using assms(2) by (cases r') (auto simp: newest_def inc_le_def)
  then obtain w' where w': "w' \<in> W" "wr_name w' = n" "e' = wire_entry w'" using assms(2) by (auto simp: newest_def)
  have "en_incarnation e \<le> en_incarnation e'" "en_incarnation e' \<le> en_incarnation e"
    using assms(1,2) w w' Some e' by (auto simp: newest_def inc_le_def)
  then have "e = e'" using assms(3) w w' by (auto simp: consistent_def)
  with Some e' show ?thesis by simp
qed

text \<open>True claims never contradict each other.\<close>

lemma true_wires_agree:
  "\<lbrakk>wire_true N v; wire_true N w; wr_name v = wr_name w; wr_incarnation v = wr_incarnation w\<rbrakk> \<Longrightarrow>
     wire_entry v = wire_entry w"
  by (auto simp: wire_true_def wire_entry_def)

lemma true_consistent:
  assumes "\<forall>w\<in>W. wire_true N w"
  shows "consistent (wire_entry ` {w \<in> W. wr_name w = n})"
proof -
  have "wire_entry v = wire_entry w"
    if "v \<in> W" "w \<in> W" "wr_name v = n" "wr_name w = n" "en_incarnation (wire_entry v) = en_incarnation (wire_entry w)" for v w
    using true_wires_agree [of N v w] assms that by (simp add: wire_entry_def)
  then show ?thesis by (auto simp: consistent_def)
qed

section \<open>The network with what was heard\<close>

text \<open>Every delivery is heard; the other steps leave what a member knows of the others alone.\<close>

definition same_views :: "net \<Rightarrow> net \<Rightarrow> bool" where
  "same_views N N' \<longleftrightarrow> (\<forall>n g. nt_nodes N n = Some g \<longrightarrow>
     (\<exists>g'. nt_nodes N' n = Some g' \<and> (\<forall>k. k \<noteq> n \<longrightarrow> hm_get (gm_roster g') k = hm_get (gm_roster g) k)))"

inductive heard_step :: "net \<times> (string \<Rightarrow> msg set) \<Rightarrow> net \<times> (string \<Rightarrow> msg set) \<Rightarrow> bool" where
  hear: "\<lbrakk>nt_nodes N n = Some g; m \<in> nt_msgs N; receive (gm_name g) m (gm_roster g) = (reply, r)\<rbrakk> \<Longrightarrow>
    heard_step (N, H)
      (N\<lparr>nt_nodes := (nt_nodes N)(n \<mapsto> g\<lparr>gm_roster := r\<rparr>), nt_msgs := nt_msgs N \<union> set_option reply\<rparr>,
       H(n := insert m (H n)))"
| quiet: "\<lbrakk>net_step N N'; same_views N N'\<rbrakk> \<Longrightarrow> heard_step (N, H) (N', H)"

definition heard_init :: "net \<times> (string \<Rightarrow> msg set) \<Rightarrow> bool" where
  "heard_init s \<longleftrightarrow> net_init (fst s) \<and> snd s = (\<lambda>_. {})"

definition views_inv :: "net \<times> (string \<Rightarrow> msg set) \<Rightarrow> bool" where
  "views_inv s \<longleftrightarrow> (case s of (N, H) \<Rightarrow> net_inv N \<and> (\<forall>n. H n \<subseteq> nt_msgs N) \<and>
     (\<forall>n. nt_nodes N n = None \<longrightarrow> H n = {}) \<and>
     (\<forall>n g k. nt_nodes N n = Some g \<and> k \<noteq> n \<longrightarrow> newest k (heard_wires (H n)) (hm_get (gm_roster g) k)))"

lemma net_step_msgs: "net_step N N' \<Longrightarrow> nt_msgs N \<subseteq> nt_msgs N'"
  by (induction rule: net_step.induct) auto

lemma net_step_new:
  "\<lbrakk>net_step N N'; nt_nodes N n = None; nt_nodes N' n = Some g; k \<noteq> n\<rbrakk> \<Longrightarrow> hm_get (gm_roster g) k = None"
  by (induction rule: net_step.induct) (auto simp: start_def split: if_splits)

lemma net_step_nodes: "\<lbrakk>net_step N N'; nt_nodes N' n = None\<rbrakk> \<Longrightarrow> nt_nodes N n = None"
  by (induction rule: net_step.induct) (auto split: if_splits)

lemma heard_step_inv:
  assumes "views_inv s" and "heard_step s s'"
  shows "views_inv s'"
  using assms(2)
proof cases
  case (hear N n g m reply r H)
  let ?N = "N\<lparr>nt_nodes := (nt_nodes N)(n \<mapsto> g\<lparr>gm_roster := r\<rparr>), nt_msgs := nt_msgs N \<union> set_option reply\<rparr>"
  have step: "net_step N ?N" using hear(3-5) by (rule net_step.deliver)
  have inv: "net_inv N" "\<forall>k. H k \<subseteq> nt_msgs N" "\<forall>k. nt_nodes N k = None \<longrightarrow> H k = {}"
      "\<forall>k g' j. nt_nodes N k = Some g' \<and> j \<noteq> k \<longrightarrow> newest j (heard_wires (H k)) (hm_get (gm_roster g') j)"
    using assms(1) hear(1) by (simp_all add: views_inv_def)
  have r: "r = merge n (msg_wires m) (gm_roster g)"
    using receive_parts [OF hear(5)] inv(1) hear(3) by (auto simp: net_inv_def)
  have "newest j (heard_wires (insert m (H n))) (hm_get r j)" if "j \<noteq> n" for j
    using newest_claim [of j "heard_wires (H n)" "hm_get (gm_roster g) j" "msg_wires m"] inv(4) hear(3) that
    by (simp add: r merge_get)
  then show ?thesis
    using net_step_inv [OF inv(1) step] inv hear(3,4) by (auto simp: views_inv_def hear(2))
next
  case (quiet N N' H)
  have inv: "net_inv N" "\<forall>k. H k \<subseteq> nt_msgs N" "\<forall>k. nt_nodes N k = None \<longrightarrow> H k = {}"
      "\<forall>k g' j. nt_nodes N k = Some g' \<and> j \<noteq> k \<longrightarrow> newest j (heard_wires (H k)) (hm_get (gm_roster g') j)"
    using assms(1) quiet(1) by (simp_all add: views_inv_def)
  have "newest j (heard_wires (H k)) (hm_get (gm_roster g') j)" if "nt_nodes N' k = Some g'" "j \<noteq> k" for k g' j
  proof (cases "nt_nodes N k")
    case None
    with inv(3) net_step_new [OF quiet(3) None that] show ?thesis by (simp add: newest_none)
  next
    case (Some g)
    with quiet(4) that have "hm_get (gm_roster g') j = hm_get (gm_roster g) j"
      unfolding same_views_def by (metis option.inject)
    with inv(4) Some that show ?thesis by simp
  qed
  then show ?thesis
    using net_step_inv [OF inv(1) quiet(3)] net_step_msgs [OF quiet(3)] net_step_nodes [OF quiet(3)] inv(2,3)
    by (force simp: views_inv_def quiet(2))
qed

interpretation gossip_views: inductive_invariant heard_init heard_step views_inv
proof (unfold_locales, goal_cases)
  case (1 s) then show ?case by (cases s) (simp add: heard_init_def net_init_def views_inv_def net_inv_def)
next
  case (2 s s') then show ?case by (rule heard_step_inv)
qed

text \<open>C20. Gossip converges: in every reachable network, whatever was lost, duplicated or delivered in
  different orders, two members that have heard the same messages hold the same entry for every
  other member, and it is the newest of all claims they have heard about it.\<close>

theorem gossip_converges:
  assumes "reachable heard_init heard_step (N, H)"
    and "nt_nodes N a = Some g" and "nt_nodes N b = Some g'" and "H a = H b" and "n \<noteq> a" and "n \<noteq> b"
  shows "hm_get (gm_roster g) n = hm_get (gm_roster g') n \<and>
    newest n (heard_wires (H a)) (hm_get (gm_roster g) n)"
proof -
  have inv: "views_inv (N, H)" using assms(1) by (rule gossip_views.reachable_inv)
  then have view: "newest k (heard_wires (H m)) (hm_get (gm_roster h) k)" if "nt_nodes N m = Some h" "k \<noteq> m" for m h k
    using that by (simp add: views_inv_def)
  have new: "newest n (heard_wires (H a)) (hm_get (gm_roster g) n)" "newest n (heard_wires (H a)) (hm_get (gm_roster g') n)"
    using view [OF assms(2,5)] view [OF assms(3,6)] by (simp_all add: assms(4))
  have "\<forall>w\<in>heard_wires (H a). wire_true (nt_nodes N) w"
    using inv by (fastforce simp: views_inv_def net_inv_def heard_wires_def)
  then show ?thesis using newest_unique [OF new true_consistent] new(1) by blast
qed

text \<open>Three members; the second and the third hear of the first.\<close>

definition told :: "string \<Rightarrow> gossip" where
  "told n = (start n ''2'')\<lparr>gm_roster := merge n (msg_wires (join_msg (start ''a'' ''1''))) (gm_roster (start n ''2''))\<rparr>"

lemma boot_reachable:
  assumes "reachable heard_init heard_step (N, H)" and "nt_nodes N n = None"
  shows "reachable heard_init heard_step (N\<lparr>nt_nodes := (nt_nodes N)(n \<mapsto> start n addr)\<rparr>, H)"
  using assms(1)
proof (rule reach_step)
  show "heard_step (N, H) (N\<lparr>nt_nodes := (nt_nodes N)(n \<mapsto> start n addr)\<rparr>, H)"
    using net_step.boot [OF assms(2)] assms(2) by (auto intro!: heard_step.quiet simp: same_views_def)
qed

lemma join_reachable:
  assumes "reachable heard_init heard_step (N, H)" and "nt_nodes N n = Some g"
  shows "reachable heard_init heard_step (N\<lparr>nt_msgs := insert (join_msg g) (nt_msgs N)\<rparr>, H)"
  using assms(1)
proof (rule reach_step)
  show "heard_step (N, H) (N\<lparr>nt_msgs := insert (join_msg g) (nt_msgs N)\<rparr>, H)"
    using net_step.join [OF assms(2)] by (auto intro!: heard_step.quiet simp: same_views_def)
qed

lemma hear_reachable:
  assumes "reachable heard_init heard_step (N, H)" and "nt_nodes N n = Some g" and "m \<in> nt_msgs N"
  shows "\<exists>M. nt_msgs N \<subseteq> M \<and> reachable heard_init heard_step
    (\<lparr>nt_nodes = (nt_nodes N)(n \<mapsto> g\<lparr>gm_roster := merge (gm_name g) (msg_wires m) (gm_roster g)\<rparr>), nt_msgs = M\<rparr>,
     H(n := insert m (H n)))"
proof -
  obtain reply r where rc: "receive (gm_name g) m (gm_roster g) = (reply, r)" by fastforce
  have "r = merge (gm_name g) (msg_wires m) (gm_roster g)" using receive_parts [OF rc] by simp
  with reach_step [OF assms(1) heard_step.hear [OF assms(2,3) rc, of H]] show ?thesis
    by (cases N) (auto intro!: exI [of _ "nt_msgs N \<union> set_option reply"])
qed

lemma gossip_converges_witness:
  "hm_get (gm_roster (told ''b'')) ''a'' = hm_get (gm_roster (told ''c'')) ''a'' \<and>
   hm_get (gm_roster (told ''b'')) ''a'' \<noteq> None"
proof -
  let ?m = "join_msg (start ''a'' ''1'')" and ?H = "\<lambda>_ :: string. {} :: msg set"
  let ?f = "[''a'' \<mapsto> start ''a'' ''1'', ''b'' \<mapsto> start ''b'' ''2'', ''c'' \<mapsto> start ''c'' ''2'']"
  have "reachable heard_init heard_step (\<lparr>nt_nodes = Map.empty, nt_msgs = {}\<rparr>, ?H)"
    by (rule reach_init) (simp add: heard_init_def net_init_def)
  from boot_reachable [OF this, of "''a''" "''1''"]
  have "reachable heard_init heard_step (\<lparr>nt_nodes = [''a'' \<mapsto> start ''a'' ''1''], nt_msgs = {}\<rparr>, ?H)" by simp
  from boot_reachable [OF boot_reachable [OF this, of "''b''" "''2''"], of "''c''" "''2''"]
  have "reachable heard_init heard_step (\<lparr>nt_nodes = ?f, nt_msgs = {}\<rparr>, ?H)" by simp
  from join_reachable [OF this, of "''a''" "start ''a'' ''1''"]
  have start: "reachable heard_init heard_step (\<lparr>nt_nodes = ?f, nt_msgs = {?m}\<rparr>, ?H)" by simp
  obtain M where M: "{?m} \<subseteq> M" and
    one: "reachable heard_init heard_step (\<lparr>nt_nodes = ?f(''b'' \<mapsto> told ''b''), nt_msgs = M\<rparr>, ?H(''b'' := {?m}))"
    using hear_reachable [OF start, of "''b''" "start ''b'' ''2''" ?m]
    by (auto simp: told_def start_def [of "''b''"])
  then obtain M' where
    "reachable heard_init heard_step
      (\<lparr>nt_nodes = ?f(''b'' \<mapsto> told ''b'', ''c'' \<mapsto> told ''c''), nt_msgs = M'\<rparr>, ?H(''b'' := {?m}, ''c'' := {?m}))"
    using hear_reachable [OF one, of "''c''" "start ''c'' ''2''" ?m]
    by (auto simp: told_def start_def [of "''c''"])
  from gossip_converges [OF this, of "''b''" "told ''b''" "''c''" "told ''c''" "''a''"]
  have "hm_get (gm_roster (told ''b'')) ''a'' = hm_get (gm_roster (told ''c'')) ''a'' \<and>
      newest ''a'' (set (msg_wires ?m)) (hm_get (gm_roster (told ''b'')) ''a'')" by auto
  then show ?thesis
    by (cases "hm_get (gm_roster (told ''c'')) ''a''")
      (auto simp: newest_def join_msg_def start_def snapshot_def entry_wire_def inc_le_def)
qed

end
