(* ===== verification/Gossip_Restart.thy ===== *)
theory Gossip_Restart
  imports Membership
begin

text \<open>
  What becomes of a member of \<open>src/src/membership.rs\<close> that stops and comes back under its name. Its
  first claim has the incarnation it began with, claims about a member are ignored by that member,
  and an entry is only replaced by one of a higher incarnation: whoever knew it keeps what he knew.
\<close>

section \<open>A second life\<close>

definition restart :: "string \<Rightarrow> string \<Rightarrow> net \<Rightarrow> net" where
  "restart n addr N = N\<lparr>nt_nodes := (nt_nodes N)(n \<mapsto> start n addr)\<rparr>"

text \<open>A step of the network in which the member \<open>n\<close> does not leave.\<close>

definition staying_step :: "string \<Rightarrow> net \<Rightarrow> net \<Rightarrow> bool" where
  "staying_step n N N' \<longleftrightarrow> net_step N N' \<and>
     map_option gm_incarnation (nt_nodes N' n) = map_option gm_incarnation (nt_nodes N n)"

text \<open>Every claim about \<open>n\<close> is one of its first life, at the address \<open>old\<close> and of an incarnation up to
  \<open>last_inc\<close>, or has incarnation 0.\<close>

definition of_first_life :: "string \<Rightarrow> string \<Rightarrow> u64 \<Rightarrow> wire \<Rightarrow> bool" where
  "of_first_life n old last_inc w \<longleftrightarrow> wr_name w = n \<longrightarrow>
     wr_addr w = old \<and> wr_status w = status_at (wr_incarnation w) \<and> wr_incarnation w \<le> last_inc \<or>
     wr_incarnation w = 0"

definition lives_inv :: "string \<Rightarrow> string \<Rightarrow> u64 \<Rightarrow> net \<Rightarrow> bool" where
  "lives_inv n old last_inc N \<longleftrightarrow>
     (\<exists>g. nt_nodes N n = Some g \<and> gm_incarnation g = 0) \<and>
     (\<forall>k g. nt_nodes N k = Some g \<longrightarrow> gm_name g = k \<and> roster_all (of_first_life n old last_inc) (gm_roster g)) \<and>
     (\<forall>m\<in>nt_msgs N. \<forall>w\<in>set (msg_wires m). of_first_life n old last_inc w)"

text \<open>What a member knew of the first life it keeps, or replaces by something newer of that life.\<close>

definition keeps_old :: "string \<Rightarrow> string \<Rightarrow> u64 \<Rightarrow> entry \<Rightarrow> entry \<Rightarrow> bool" where
  "keeps_old n old last_inc e e' \<longleftrightarrow> mb_addr (en_member e') = old \<and>
     mb_status (en_member e') = status_at (en_incarnation e') \<and>
     en_incarnation e \<le> en_incarnation e' \<and> en_incarnation e' \<le> last_inc"

lemma merge_keeps:
  assumes "\<forall>w\<in>set ws. of_first_life n old last_inc w" and "n \<noteq> self" and "hm_get r n = Some e" and "keeps_old n old last_inc e0 e"
  shows "\<exists>e'. hm_get (merge self ws r) n = Some e' \<and> keeps_old n old last_inc e0 e'"
  using assms(1,3,4)
proof (induction ws arbitrary: r e)
  case (Cons w ws)
  have "\<exists>e'. hm_get (merge1 self w r) n = Some e' \<and> keeps_old n old last_inc e0 e'"
  proof (cases "n = wr_name w \<and> en_incarnation e < wr_incarnation w")
    case True
    then have "wr_incarnation w \<noteq> 0" by (auto simp: word_less_nat_alt)
    with True Cons.prems assms(2) show ?thesis
      by (auto simp: merge1_get newer_def of_first_life_def keeps_old_def wire_entry_def)
  next
    case False
    with Cons.prems assms(2) show ?thesis by (auto simp: merge1_get newer_def wire_entry_def)
  qed
  with Cons.IH Cons.prems(1) show ?case by auto
qed auto

lemma start_first_life: "roster_all (of_first_life n old last_inc) (gm_roster (start k addr))"
  by (simp add: roster_all_def start_def of_first_life_def entry_wire_def)

lemma leave_state_roster:
  "\<lbrakk>gm_name g = k; k \<noteq> n; roster_all (of_first_life n old last_inc) (gm_roster g)\<rbrakk> \<Longrightarrow>
     roster_all (of_first_life n old last_inc) (gm_roster (leave_state g)) \<and>
     hm_get (gm_roster (leave_state g)) n = hm_get (gm_roster g) n \<and> gm_name (leave_state g) = k"
  by (auto simp: leave_state_def Let_def of_first_life_def entry_wire_def
      split: option.split dest: roster_all_get intro!: insert_all)

lemma staying_step_keeps:
  assumes inv: "lives_inv n old last_inc N" and st: "staying_step n N N'"
  shows "lives_inv n old last_inc N'"
    and "\<lbrakk>nt_nodes N b = Some g; b \<noteq> n; hm_get (gm_roster g) n = Some e; keeps_old n old last_inc e0 e\<rbrakk> \<Longrightarrow>
      \<exists>g' e'. nt_nodes N' b = Some g' \<and> hm_get (gm_roster g') n = Some e' \<and> keeps_old n old last_inc e0 e'"
proof -
  from inv obtain gn where gn: "nt_nodes N n = Some gn" "gm_incarnation gn = 0"
    and all: "\<And>k g. nt_nodes N k = Some g \<Longrightarrow> gm_name g = k \<and> roster_all (of_first_life n old last_inc) (gm_roster g)"
    and msgs: "\<And>m. m \<in> nt_msgs N \<Longrightarrow> \<forall>w\<in>set (msg_wires m). of_first_life n old last_inc w"
    by (auto simp: lives_inv_def)
  from st have step: "net_step N N'" and same: "map_option gm_incarnation (nt_nodes N' n) = Some 0"
    using gn by (auto simp: staying_step_def)
  have "lives_inv n old last_inc N' \<and>
    (\<forall>b g e. nt_nodes N b = Some g \<and> b \<noteq> n \<and> hm_get (gm_roster g) n = Some e \<and> keeps_old n old last_inc e0 e \<longrightarrow>
      (\<exists>g' e'. nt_nodes N' b = Some g' \<and> hm_get (gm_roster g') n = Some e' \<and> keeps_old n old last_inc e0 e'))" for e0
    using step
  proof cases
    case (boot k addr)
    with gn all msgs start_first_life show ?thesis by (auto simp: lives_inv_def)
  next
    case (join k g)
    have "\<forall>w\<in>set (snapshot (gm_roster g)). of_first_life n old last_inc w"
      using snapshot_all all [OF join(2)] by blast
    with gn all msgs join show ?thesis by (auto simp: lives_inv_def join_msg_def)
  next
    case (deliver k g m reply r)
    have r: "r = merge k (msg_wires m) (gm_roster g)" "\<forall>m'\<in>set_option reply. msg_wires m' = snapshot r"
      using receive_parts [OF deliver(4)] all [OF deliver(2)] by auto
    have ok: "roster_all (of_first_life n old last_inc) r"
      unfolding r(1) using merge_all all [OF deliver(2)] msgs [OF deliver(3)] by blast
    with gn all msgs r(2) snapshot_all [OF ok] deliver(1,2) have "lives_inv n old last_inc N'"
      by (auto simp: lives_inv_def)
    with merge_keeps [OF msgs [OF deliver(3)]] deliver(1,2) show ?thesis by (auto simp: r(1))
  next
    case (leave k g)
    have "k \<noteq> n"
    proof
      assume "k = n"
      with leave same gn have "gm_incarnation (leave_state g) = 0" "gm_incarnation g = 0" by auto
      then show False by (simp add: leave_state_def Let_def)
    qed
    with leave all [OF leave(2)] leave_state_roster [of g k n old last_inc]
    have lv: "roster_all (of_first_life n old last_inc) (gm_roster (leave_state g))"
      "hm_get (gm_roster (leave_state g)) n = hm_get (gm_roster g) n" "gm_name (leave_state g) = k" by auto
    with gn all msgs snapshot_all [OF lv(1)] leave \<open>k \<noteq> n\<close> show ?thesis
      by (auto simp: lives_inv_def leave_msg_def)
  qed
  then show "lives_inv n old last_inc N'"
    and "\<lbrakk>nt_nodes N b = Some g; b \<noteq> n; hm_get (gm_roster g) n = Some e; keeps_old n old last_inc e0 e\<rbrakk> \<Longrightarrow>
      \<exists>g' e'. nt_nodes N' b = Some g' \<and> hm_get (gm_roster g') n = Some e' \<and> keeps_old n old last_inc e0 e'"
    by blast+
qed

lemma restart_lives:
  assumes "net_inv N" and "nt_nodes N n = Some h"
  shows "lives_inv n (gm_addr h) (gm_incarnation h) (restart n addr N)"
proof -
  have first: "of_first_life n (gm_addr h) (gm_incarnation h) w" if "wire_true (nt_nodes N) w" for w
    using that assms(2) by (auto simp: wire_true_def of_first_life_def)
  have "gm_name g = k \<and> roster_all (of_first_life n (gm_addr h) (gm_incarnation h)) (gm_roster g)" if "nt_nodes N k = Some g" for k g
    using assms(1) that roster_all_mono [of "wire_true (nt_nodes N)" "gm_roster g", OF _ first]
    by (simp add: net_inv_def)
  moreover have "\<forall>m\<in>nt_msgs N. \<forall>w\<in>set (msg_wires m). of_first_life n (gm_addr h) (gm_incarnation h) w"
    using assms(1) first by (auto simp: net_inv_def)
  ultimately show ?thesis
    using start_first_life [of n "gm_addr h" "gm_incarnation h" n addr] by (auto simp: lives_inv_def restart_def)
qed

section \<open>Properties\<close>

text \<open>C21. A member that comes back under its name is not heard: in a reachable network let a member
  restart, at any address, while another one knows it. Then, whatever is sent, lost, duplicated or
  reordered afterwards, as long as the restarted member does not leave, the other one goes on to
  know it at the address of its first life, under an incarnation of that life that is not below the
  one it knew, and in the status of that incarnation: alive at 0, gone after it. So nothing of the
  second life is believed, a late message of the first life can still turn alive into gone, and a
  member that is taken for gone stays gone for ever.\<close>

theorem restarted_member_unheard:
  assumes "reachable net_init net_step N" and "nt_nodes N n = Some h"
    and "nt_nodes N b = Some g" and "b \<noteq> n" and "hm_get (gm_roster g) n = Some e"
    and "(staying_step n)\<^sup>*\<^sup>* (restart n addr N) N'"
  shows "\<exists>g' e'. nt_nodes N' b = Some g' \<and> hm_get (gm_roster g') n = Some e' \<and>
    mb_addr (en_member e') = gm_addr h \<and>
    en_incarnation e \<le> en_incarnation e' \<and> en_incarnation e' \<le> gm_incarnation h \<and>
    mb_status (en_member e') = (if en_incarnation e' = 0 then Alive else Left) \<and>
    (mb_status (en_member e) = Left \<longrightarrow> mb_status (en_member e') = Left)"
proof -
  let ?old = "gm_addr h" and ?last_inc = "gm_incarnation h"
  have inv: "net_inv N" using assms(1) by (rule gossip_net.reachable_inv)
  then have "wire_true (nt_nodes N) (entry_wire e)" "mb_name (en_member e) = n"
    using assms(3,5) roster_all_get [of "wire_true (nt_nodes N)" "gm_roster g" n e] by (auto simp: net_inv_def)
  then have e: "keeps_old n ?old ?last_inc e e" using assms(2) by (auto simp: wire_true_def keeps_old_def entry_wire_def)
  from assms(6) have "lives_inv n ?old ?last_inc N' \<and>
    (\<exists>g' e'. nt_nodes N' b = Some g' \<and> hm_get (gm_roster g') n = Some e' \<and> keeps_old n ?old ?last_inc e e')"
  proof (induction rule: rtranclp_induct)
    case base
    with restart_lives [OF inv assms(2)] assms(3-5) e show ?case by (auto simp: restart_def)
  next
    case (step M M')
    with staying_step_keeps [of n ?old ?last_inc M M'] assms(4) show ?case by metis
  qed
  then obtain g' e' where e': "nt_nodes N' b = Some g'" "hm_get (gm_roster g') n = Some e'" "keeps_old n ?old ?last_inc e e'"
    by blast
  have "mb_status (en_member e') = Left" if "mb_status (en_member e) = Left"
    using that e e'(3) by (auto simp: keeps_old_def status_at_def split: if_splits)
  with e' show ?thesis by (auto simp: keeps_old_def status_at_def)
qed

theorem restarted_member_unheard_witness:
  "\<exists>N' g e. (staying_step ''a'')\<^sup>*\<^sup>* (restart ''a'' ''3'' lab_net) N' \<and> join_msg (start ''a'' ''3'') \<in> nt_msgs N' \<and>
     nt_nodes N' ''b'' = Some g \<and> hm_get (gm_roster g) ''a'' = Some e \<and>
     mb_addr (en_member e) = ''1'' \<and> en_incarnation e = 1 \<and> mb_status (en_member e) = Left"
proof -
  let ?N = "restart ''a'' ''3'' lab_net"
  let ?N' = "?N\<lparr>nt_msgs := insert (join_msg (start ''a'' ''3'')) (nt_msgs ?N)\<rparr>"
  have "nt_nodes ?N ''a'' = Some (start ''a'' ''3'')" by (simp add: restart_def)
  then have run: "(staying_step ''a'')\<^sup>*\<^sup>* ?N ?N'"
    using net_step.join by (intro r_into_rtranclp) (simp add: staying_step_def)
  let ?b = "the (nt_nodes lab_net ''b'')" and ?e = "\<lparr>en_member = \<lparr>mb_name = ''a'', mb_addr = ''1'', mb_status = Left\<rparr>, en_incarnation = 1\<rparr>"
  have "hm_get (gm_roster ?b) ''a'' = Some ?e" by code_simp
  moreover have "nt_nodes lab_net ''a'' = Some gone_a" "nt_nodes lab_net ''b'' = Some ?b" by (simp_all add: lab_net_def)
  moreover have "gm_addr gone_a = ''1''" "gm_incarnation gone_a = 1" by code_simp+
  ultimately obtain g' e' where "nt_nodes ?N' ''b'' = Some g'" "hm_get (gm_roster g') ''a'' = Some e'"
    "mb_addr (en_member e') = ''1''" "1 \<le> en_incarnation e'" "en_incarnation e' \<le> 1" "mb_status (en_member e') = Left"
    using restarted_member_unheard [OF lab_net_reachable, of "''a''" gone_a "''b''" ?b ?e "''3''" ?N'] run by auto
  with run show ?thesis by (intro exI [of _ ?N']) auto
qed

end
