(* ===== verification/Job_Accounts.thy ===== *)
theory Job_Accounts
  imports Server_Types
begin

text \<open>
  What becomes of a job that a client was told is registered, in the concurrent server of
  \<open>Rpc_Server\<close> (\<open>src/src/rpc.rs\<close>, \<open>src/src/server.rs\<close>): the accounts of the queue are kept over
  every interleaving. The cluster is run with two auxiliary records, the operations on its queue
  and its past states, which no step depends on.
\<close>

section \<open>The books\<close>

text \<open>The queue operations of a step of a worker, of a connection, and of an event.\<close>

fun worker_ops :: "(eval_id \<Rightarrow> nat) \<Rightarrow> nat \<Rightarrow> worker_pc \<Rightarrow> queue_op list" where
  "worker_ops clock now W_Reap = [Reap clock VISIBILITY]"
| "worker_ops clock now W_Dequeue = [Dequeue now]"
| "worker_ops clock now (W_Block e) = [Block e]"
| "worker_ops clock now (W_Ack e) = [Ack (ev_id e)]"
| "worker_ops clock now (W_Nack e) = [Nack (ev_id e)]"
| "worker_ops clock now _ = []"

fun handler_ops :: "nat \<Rightarrow> handler_op \<Rightarrow> queue_op" where
  "handler_ops inst (Q_Enqueue e) = Enqueue e"
| "handler_ops inst Q_Unblock = Unblock_All"
| "handler_ops inst Q_Dequeue = Dequeue inst"

fun session_ops :: "nat \<Rightarrow> session_pc \<Rightarrow> queue_op list" where
  "session_ops inst (Queueing req op resp) = [handler_ops inst op]"
| "session_ops inst _ = []"

fun event_ops :: "event \<Rightarrow> cluster \<Rightarrow> queue_op list" where
  "event_ops (Work i clock now) y = worker_ops clock now (wt_pc (cl_tasks y ! i))"
| "event_ops (Session i t) y = session_ops (fst t) (ss_pc (cl_sessions y ! i))"
| "event_ops _ y = []"

type_synonym books = "cluster \<times> queue_op list \<times> (cluster \<times> queue_op list) list"

inductive booked_step :: "bool \<Rightarrow> client_assumption \<Rightarrow> 'v crates \<Rightarrow> codecs \<Rightarrow> books \<Rightarrow> books \<Rightarrow> bool" for waits A X C where
  booked_event: "\<lbrakk>enabled waits ev y; meets A ev y\<rbrakk> \<Longrightarrow>
    booked_step waits A X C (y, qs, past) (cluster_exec X C ev y, qs @ event_ops ev y, past @ [(y, qs)])"

inductive_cases booked_step_elim: "booked_step waits A X C b b'"

definition booked_init :: "books \<Rightarrow> bool" where
  "booked_init b \<longleftrightarrow> cluster_init (fst b) \<and> snd b = ([], [])"

abbreviation supplies :: "queue_op list \<Rightarrow> evaluation set" where
  "supplies qs \<equiv> \<Union>op\<in>set qs. supplied op"

abbreviation cl_raft :: "cluster \<Rightarrow> raft_node" where
  "cl_raft y \<equiv> sv_raft (cl_server y)"

abbreviation cl_queue :: "cluster \<Rightarrow> eval_queue" where
  "cl_queue y \<equiv> sv_queue (cl_server y)"

text \<open>
  A plan was made: in some past state, in which the evaluation had already been given to the
  queue, a worker was about to plan it. An evaluation is served when all of such a plan is in the
  log.
\<close>

definition planned :: "'v crates \<Rightarrow> (cluster \<times> queue_op list) list \<Rightarrow> evaluation \<Rightarrow> plan \<Rightarrow> bool" where
  "planned X past e p \<longleftrightarrow> (\<exists>(y, qs)\<in>set past. e \<in> supplies qs \<and>
     (\<exists>w\<in>set (cl_tasks y). wt_pc w = W_Plan e) \<and> p = process_eval X e (raft_state (cl_raft y)))"

definition served :: "'v crates \<Rightarrow> (cluster \<times> queue_op list) list \<Rightarrow> command list \<Rightarrow> evaluation \<Rightarrow> bool" where
  "served X past cs e \<longleftrightarrow> (\<exists>p. planned X past e p \<and> UpsertAlloc ` set (pl_allocs p) \<subseteq> set cs)"

fun pc_booked ::
    "'v crates \<Rightarrow> queue_op list \<Rightarrow> (cluster \<times> queue_op list) list \<Rightarrow> command list \<Rightarrow> worker_pc \<Rightarrow> bool" where
  "pc_booked X qs past cs (W_Plan e) = (e \<in> supplies qs)"
| "pc_booked X qs past cs (W_Commit e p) = planned X past e p"
| "pc_booked X qs past cs (W_Check e) = served X past cs e"
| "pc_booked X qs past cs (W_Block e) = served X past cs e"
| "pc_booked X qs past cs (W_Ack e) = served X past cs e"
| "pc_booked X qs past cs _ = True"

text \<open>What the answer to a registration promises: its evaluation was enqueued.\<close>

definition eval_of :: "job \<Rightarrow> eval_id \<Rightarrow> evaluation \<Rightarrow> bool" where
  "eval_of j i e \<longleftrightarrow> ev_id e = i \<and> ev_job_id e = jb_name j \<and> ev_priority e = jb_priority j"

definition promised :: "queue_op list \<Rightarrow> request \<times> response \<Rightarrow> bool" where
  "promised qs x \<longleftrightarrow> (\<forall>j i. x = (Req_JobRegister j, JobRegistered i) \<longrightarrow>
     (\<exists>e. Enqueue e \<in> set qs \<and> eval_of j i e))"

fun pc_promised :: "queue_op list \<Rightarrow> session_pc \<Rightarrow> bool" where
  "pc_promised qs (Queueing req op resp) \<longleftrightarrow> (\<forall>j. req = Req_JobRegister j \<longrightarrow>
     (\<exists>e. op = Q_Enqueue e \<and> (\<forall>i. resp = JobRegistered i \<longrightarrow> eval_of j i e)))"
| "pc_promised qs (Answering req resp) = promised qs (req, resp)"
| "pc_promised qs _ = True"

definition session_booked :: "queue_op list \<Rightarrow> session \<Rightarrow> bool" where
  "session_booked qs s \<longleftrightarrow> list_all (promised qs) (ss_served s) \<and> pc_promised qs (ss_pc s)"

definition books_inv :: "'v crates \<Rightarrow> books \<Rightarrow> bool" where
  "books_inv X b \<longleftrightarrow> (case b of (y, qs, past) \<Rightarrow>
     cl_queue y = snd (queue_run qs queue_new) \<and>
     list_all (\<lambda>w. pc_booked X qs past (rn_log (cl_raft y)) (wt_pc w)) (cl_tasks y) \<and>
     list_all (session_booked qs) (cl_sessions y) \<and>
     (\<forall>i. Ack i \<in> set qs \<longrightarrow> (\<exists>e. ev_id e = i \<and> served X past (rn_log (cl_raft y)) e)) \<and>
     list_all (\<lambda>(_, qs'). set qs' \<subseteq> set qs) past)"

section \<open>What is booked stays booked\<close>

lemma planned_mono: "planned X past e p \<Longrightarrow> planned X (past @ later) e p"
  by (auto simp: planned_def)

lemma served_mono: "\<lbrakk>served X past cs e; prefix cs cs'\<rbrakk> \<Longrightarrow> served X (past @ later) cs' e"
  unfolding served_def by (metis planned_mono set_mono_prefix subset_trans)

lemma pc_booked_mono:
  "\<lbrakk>pc_booked X qs past cs pc; prefix cs cs'\<rbrakk> \<Longrightarrow> pc_booked X (qs @ qs') (past @ later) cs' pc"
  by (cases pc) (auto intro: planned_mono served_mono)

lemma promised_mono: "promised qs x \<Longrightarrow> promised (qs @ qs') x"
  by (fastforce simp: promised_def)

lemma session_booked_mono: "session_booked qs s \<Longrightarrow> session_booked (qs @ qs') s"
  by (cases "ss_pc s") (auto simp: session_booked_def list_all_iff intro: promised_mono)

section \<open>Workers\<close>

lemma held_new: "held queue_new = {}"
  by (simp add: held_def queue_new_def)

lemma worker_step_ops:
  "worker_step X clock now sd pc (r, q) = (pc', r', q') \<Longrightarrow> q' = snd (queue_run (worker_ops clock now pc) q)"
  by (cases pc) (auto split: if_splits prod.splits sum.splits option.splits)

lemma worker_step_booked:
  assumes run: "worker_step X clock now sd pc (r, q) = (pc', r', q')"
    and w: "w \<in> set (cl_tasks y)" "wt_pc w = pc" and y: "cl_raft y = r" "q = snd (queue_run qs queue_new)"
    and ok: "pc_booked X qs past (rn_log r) pc"
  shows "pc_booked X (qs @ worker_ops clock now pc) (past @ [(y, qs)]) (rn_log r') pc' \<and>
    (\<forall>i. Ack i \<in> set (worker_ops clock now pc) \<longrightarrow>
       (\<exists>e. ev_id e = i \<and> served X (past @ [(y, qs)]) (rn_log r') e))"
proof (cases pc)
  case W_Dequeue
  have "e \<in> supplies qs" if "dequeue now q = (Inr (Some e), q1)" for e q1
    using dequeued_held [OF that] held_run [of qs queue_new] unfolding y(2) held_new by blast
  with run W_Dequeue show ?thesis by (auto split: prod.splits sum.splits option.splits)
next
  case (W_Plan e)
  then have "planned X (past @ [(y, qs)]) e (process_eval X e (raft_state r))"
    using ok w y(1) by (auto simp: planned_def)
  with run W_Plan show ?thesis by auto
next
  case (W_Commit e p)
  obtain res r1 where pa: "propose_all (pl_allocs p) r = (res, r1)" by fastforce
  show ?thesis
  proof (cases res)
    case (Inr u)
    from propose_all_logs [of "pl_allocs p" r r1] pa Inr
    have "rn_log r1 = rn_log r @ map UpsertAlloc (pl_allocs p)" by simp
    moreover have "planned X (past @ [(y, qs)]) e p" using ok W_Commit planned_mono by simp
    ultimately have "served X (past @ [(y, qs)]) (rn_log r1) e" by (auto simp: served_def)
    with run W_Commit pa Inr show ?thesis by auto
  qed (use run W_Commit pa in auto)
next
  case (W_Check e)
  with ok have "served X (past @ [(y, qs)]) (rn_log r) e" using served_mono by fastforce
  with run W_Check show ?thesis by (auto split: if_splits)
next
  case (W_Block e)
  with ok have "served X (past @ [(y, qs)]) (rn_log r) e" using served_mono by fastforce
  with run W_Block show ?thesis by auto
next
  case (W_Ack e)
  with ok have "served X (past @ [(y, qs)]) (rn_log r) e" using served_mono by fastforce
  with run W_Ack show ?thesis by auto
qed (use run in \<open>auto split: if_splits\<close>)

section \<open>Connections\<close>

lemma handler_ops_run: "snd (handle_queue inst op resp q) = snd (queue_run [handler_ops inst op] q)"
  by (cases op) (simp_all del: handle_queue.simps split: prod.split sum.split option.split)

lemma session_move_ops:
  assumes "session_move C t (s, r, q) = (s', r', q')"
  shows "q' = snd (queue_run (session_ops (fst t) (ss_pc s)) q)"
proof (cases "ss_pc s")
  case (Queueing req op resp)
  have "q' = snd (handle_queue (fst t) op resp q)"
    using assms Queueing by (auto simp: session_move_def simp del: handle_queue.simps split: prod.splits sum.splits)
  then show ?thesis unfolding Queueing session_ops.simps handler_ops_run .
qed (use assms in \<open>auto simp: session_move_def split: prod.splits sum.splits option.splits after_commit.splits\<close>)

lemma session_never_acks [simp]: "Ack i \<notin> set (session_ops inst pc)"
proof (cases pc)
  case (Queueing req op resp)
  then show ?thesis by (cases op) simp_all
qed simp_all

lemma handle_commit_promised:
  assumes "handle_commit nanos (Req_JobRegister j) r = (a, r')"
  shows "case a of
      Done res \<Rightarrow> (\<forall>i. res \<noteq> Inr (JobRegistered i))
    | Then_Queue op resp \<Rightarrow> (\<exists>e. op = Q_Enqueue e \<and> (\<forall>i. resp = JobRegistered i \<longrightarrow> eval_of j i e))"
  using assms by (auto simp: commit_then_def eval_of_def split: sum.splits prod.splits if_splits)

lemma handle_queue_answer:
  "handle_queue inst (Q_Enqueue e) resp q = (Inr resp', q') \<Longrightarrow> resp' = resp"
  by (auto split: prod.splits sum.splits)

lemma session_move_booked:
  assumes run: "session_move C t (s, r, q) = (s', r', q')" and ok: "session_booked qs s"
  shows "session_booked (qs @ session_ops (fst t) (ss_pc s)) s'"
proof (cases "ss_pc s")
  case (Handling req)
  obtain a r1 where a: "handle_commit (snd t) req r = (a, r1)" by fastforce
  have served: "ss_served s' = ss_served s" using run Handling a
    by (auto simp: session_move_def split: after_commit.splits sum.splits)
  have "pc_promised qs (ss_pc s')"
  proof (cases "\<exists>j. req = Req_JobRegister j")
    case True
    then obtain j where j: "req = Req_JobRegister j" by blast
    note pr = handle_commit_promised [OF a [unfolded j]]
    show ?thesis
    proof (cases a)
      case (Done res)
      with pr a run Handling show ?thesis
        by (cases res) (auto simp: j session_move_def promised_def simp del: handle_commit.simps)
    next
      case (Then_Queue op resp)
      with pr a run Handling show ?thesis
        by (auto simp: j session_move_def simp del: handle_commit.simps)
    qed
  next
    case False
    with a run Handling show ?thesis
      by (cases a) (auto simp: session_move_def promised_def split: sum.splits)
  qed
  with ok served Handling show ?thesis by (simp add: session_booked_def)
next
  case (Queueing req op resp)
  obtain res q1 where h: "handle_queue (fst t) op resp q = (res, q1)" by fastforce
  have old: "list_all (promised (qs @ [handler_ops (fst t) op])) (ss_served s)"
    using ok by (auto simp: session_booked_def list_all_iff intro: promised_mono)
  have "promised (qs @ [handler_ops (fst t) op]) (req, resp')" if "res = Inr resp'" for resp'
    using ok Queueing h that handle_queue_answer [of "fst t" _ resp q resp' q1]
    by (fastforce simp: session_booked_def promised_def)
  with old run Queueing h show ?thesis
    by (cases res) (auto simp: session_move_def session_booked_def simp del: handle_queue.simps)
next
  case (Answering req resp)
  with run ok show ?thesis
    by (auto simp: session_move_def session_booked_def split: prod.splits sum.splits)
qed (use run ok in \<open>auto simp: session_move_def session_booked_def split: prod.splits sum.splits option.splits\<close>)
section \<open>The books of the whole server\<close>

lemma books_frame:
  assumes "books_inv X (y, qs, past)"
    and "cl_queue y' = snd (queue_run qs' (cl_queue y))" and "prefix (rn_log (cl_raft y)) (rn_log (cl_raft y'))"
    and "list_all (\<lambda>w. pc_booked X (qs @ qs') (past @ [(y, qs)]) (rn_log (cl_raft y')) (wt_pc w)) (cl_tasks y')"
    and "list_all (session_booked (qs @ qs')) (cl_sessions y')"
    and "\<forall>i. Ack i \<in> set qs' \<longrightarrow> (\<exists>e. ev_id e = i \<and> served X (past @ [(y, qs)]) (rn_log (cl_raft y')) e)"
  shows "books_inv X (y', qs @ qs', past @ [(y, qs)])"
proof -
  note old = assms(1) [unfolded books_inv_def prod.case]
  have "\<forall>i. Ack i \<in> set (qs @ qs') \<longrightarrow> (\<exists>e. ev_id e = i \<and> served X (past @ [(y, qs)]) (rn_log (cl_raft y')) e)"
    using assms(6) old served_mono [OF _ assms(3)] by (metis Un_iff set_append)
  moreover have "list_all (\<lambda>(_, qs0). set qs0 \<subseteq> set (qs @ qs')) (past @ [(y, qs)])"
    using old by (auto simp: list_all_iff)
  moreover have "cl_queue y' = snd (queue_run (qs @ qs') queue_new)"
    using assms(2) old by (simp add: queue_run_append)
  ultimately show ?thesis using assms(4,5) by (simp add: books_inv_def)
qed

lemma tasks_booked_mono:
  "\<lbrakk>list_all (\<lambda>w. pc_booked X qs past cs (wt_pc w)) ws; prefix cs cs'\<rbrakk> \<Longrightarrow>
     list_all (\<lambda>w. pc_booked X (qs @ qs') (past @ later) cs' (wt_pc w)) ws"
  by (auto simp: list_all_iff intro: pc_booked_mono)

lemma sessions_booked_mono:
  "list_all (session_booked qs) ss \<Longrightarrow> list_all (session_booked (qs @ qs')) ss"
  by (auto simp: list_all_iff intro: session_booked_mono)

lemma cluster_exec_books:
  assumes inv: "books_inv X (y, qs, past)" and en: "enabled waits ev y"
  shows "books_inv X (cluster_exec X C ev y, qs @ event_ops ev y, past @ [(y, qs)])"
proof -
  let ?r = "cl_raft y" and ?q = "cl_queue y" and ?past = "past @ [(y, qs)]"
  have q: "?q = snd (queue_run qs queue_new)"
    and tasks: "list_all (\<lambda>w. pc_booked X qs past (rn_log ?r) (wt_pc w)) (cl_tasks y)"
    and sess: "list_all (session_booked qs) (cl_sessions y)"
    using inv by (simp_all add: books_inv_def)
  note tasks' = tasks_booked_mono [OF tasks] and sess' = sessions_booked_mono [OF sess]
  show ?thesis
  proof (cases ev)
    case (Work i clock now)
    let ?w = "cl_tasks y ! i"
    obtain w r q1 where run: "task_step X clock now (sv_shutdown (cl_server y)) (?w, ?r, ?q) = (w, r, q1)"
      by (metis prod_cases3)
    then obtain pc where st: "worker_step X clock now (sv_shutdown (cl_server y)) (wt_pc ?w) (?r, ?q) = (pc, r, q1)"
      and w: "wt_pc w = pc \<or> wt_pc w = W_Exit"
      by (auto simp: task_step_def split: prod.splits if_splits)
    have i: "?w \<in> set (cl_tasks y)" "pc_booked X qs past (rn_log ?r) (wt_pc ?w)"
      using en Work tasks by (auto simp: list_all_length)
    note one = worker_step_booked [OF st i(1) refl refl q i(2)]
    then have "pc_booked X (qs @ event_ops ev y) ?past (rn_log r) (wt_pc w)" using w Work by auto
    with tasks' [OF worker_step_log [OF st]]
    have "list_all (\<lambda>w. pc_booked X (qs @ event_ops ev y) ?past (rn_log r) (wt_pc w)) ((cl_tasks y)[i := w])"
      by (intro list_all_update) auto
    then show ?thesis
      using sess' one worker_step_ops [OF st] worker_step_log [OF st] run Work
      by (intro books_frame [OF inv]) simp_all
  next
    case (Session i t)
    let ?s = "cl_sessions y ! i"
    obtain s r q1 where run: "session_move C t (?s, ?r, ?q) = (s, r, q1)"
      by (metis prod_cases3)
    have grows: "prefix (rn_log ?r) (rn_log r)"
      using session_move_cases [OF run] propose_log by auto
    have "session_booked qs ?s" using en Session sess by (auto simp: list_all_length)
    from session_move_booked [OF run this] sess'
    have "list_all (session_booked (qs @ event_ops ev y)) ((cl_sessions y)[i := s])"
      using Session by (intro list_all_update) auto
    moreover have "Ack k \<notin> set (event_ops ev y)" for k
      using Session by simp
    ultimately show ?thesis
      using tasks' [OF grows] session_move_ops [OF run] grows run Session
      by (intro books_frame [OF inv]) simp_all
  next
    case (Accept c)
    with tasks' [of "rn_log ?r" "[]"] sess' [of "[]"] show ?thesis
      by (intro books_frame [OF inv]) (simp_all add: session_booked_def)
  next
    case (Accept_Error e)
    with tasks' [of "rn_log ?r" "[]"] sess' [of "[]"] show ?thesis by (intro books_frame [OF inv]) simp_all
  next
    case (Stop asleep)
    have "list_all (\<lambda>w. pc_booked X (qs @ []) ?past (rn_log ?r) (wt_pc w)) (abort_last asleep (cl_tasks y))"
      using tasks' [of "rn_log ?r" "[]"] abort_last_nth [of _ "cl_tasks y" asleep]
      by (simp add: list_all_length) (metis pc_booked.simps)
    with tasks' [of "rn_log ?r" "[]"] sess' [of "[]"] Stop show ?thesis
      by (intro books_frame [OF inv]) (simp_all add: server_stop_def)
  next
    case Start
    with tasks' [of "rn_log ?r" "[]"] sess' [of "[]"] show ?thesis
      by (intro books_frame [OF inv]) (simp_all add: server_run_def)
  qed
qed

interpretation job_books: inductive_invariant booked_init "booked_step waits A X C" "books_inv X" for waits A X C
proof (unfold_locales, goal_cases)
  case (1 b)
  then show ?case by (cases b) (auto simp: booked_init_def cluster_init_def books_inv_def server_new_def)
next
  case (2 b b')
  from 2(2) show ?case by (rule booked_step_elim) (use 2(1) cluster_exec_books in blast)
qed

text \<open>The records are auxiliary: without them the runs are those of the cluster.\<close>

lemma booked_cluster: "reachable booked_init (booked_step waits A X C) b \<Longrightarrow> reachable cluster_init (cluster_step waits A X C) (fst b)"
proof (induction rule: reachable.induct)
  case (reach_init b)
  then show ?case by (auto simp: booked_init_def intro: reachable.reach_init)
next
  case (reach_step b b')
  from reach_step(2) show ?case
    by (rule booked_step_elim) (use reach_step(3) in \<open>auto intro: reachable.reach_step cluster_event\<close>)
qed

lemma cluster_booked:
  "reachable cluster_init (cluster_step waits A X C) y \<Longrightarrow>
     \<exists>qs past. reachable booked_init (booked_step waits A X C) (y, qs, past)"
proof (induction rule: reachable.induct)
  case (reach_init y)
  then show ?case by (intro exI [of _ "[]"] reachable.reach_init) (simp add: booked_init_def)
next
  case (reach_step y y')
  from reach_step(2) show ?case
    by (rule cluster_step_elim) (use reach_step(3) in \<open>blast intro: reachable.reach_step booked_event\<close>)
qed
section \<open>A run\<close>

lemma started_booked: "\<exists>past. reachable booked_init (booked_step waits A X C) (started, [], past)"
proof -
  let ?y = "\<lparr>cl_server = server_new sample_config, cl_tasks = [], cl_sessions = [], cl_serve_error = None\<rparr>"
  have "reachable booked_init (booked_step waits A X C) (?y, [], [])"
    by (rule reach_init) (auto simp: booked_init_def cluster_init_def)
  from reach_step [OF this booked_event [of waits Start]] show ?thesis
    by (auto simp: started_def all_exited_def server_new_def)
qed

lemma session_booked_reachable:
  assumes "\<exists>past. reachable booked_init (booked_step waits A X C) (with_parts r q (y\<lparr>cl_sessions := [s]\<rparr>), qs, past)"
    and "session_meets A (ss_pc s) (raft_state r)" and "session_move C t (s, r, q) = (s', r', q')"
  shows "\<exists>past. reachable booked_init (booked_step waits A X C)
    (with_parts r' q' (y\<lparr>cl_sessions := [s']\<rparr>), qs @ session_ops (fst t) (ss_pc s), past)"
proof -
  obtain past where "reachable booked_init (booked_step waits A X C) (with_parts r q (y\<lparr>cl_sessions := [s]\<rparr>), qs, past)"
    using assms(1) by blast
  from reach_step [OF this booked_event [of waits "Session 0 t"]] assms(2,3) show ?thesis
    by (auto simp: with_parts_def)
qed

definition job_a :: job where
  "job_a = sample_job\<lparr>jb_name := ''a''\<rparr>"

text \<open>A connection on which the job was registered and the answer has been written.\<close>

lemma registered_booked:
  "\<exists>y s past. reachable booked_init (booked_step waits benign X letters) (y, [Enqueue (register_eval 7 job_a)], past) \<and>
     cl_sessions y = [s] \<and> ss_served s = [(Req_JobRegister job_a, JobRegistered ''eval-a-7'')]"
proof -
  let ?r = "cl_raft started" and ?q = "cl_queue started" and ?req = "Req_JobRegister job_a"
  let ?e = "register_eval 7 job_a" and ?a = "JobRegistered ''eval-a-7''"
  let ?R = "\<lambda>r q s qs. \<exists>past. reachable booked_init (booked_step waits benign X letters)
    (with_parts r q (started\<lparr>cl_sessions := [s]\<rparr>), qs, past)"
  let ?s = "\<lambda>c pc. \<lparr>ss_conn = c, ss_pc = pc, ss_served = []\<rparr>"
  let ?c = "(plain_conn (frame ''a''))\<lparr>cn_in := []\<rparr>"
  have dec: "dec_request letters ''a'' = Inr ?req" "length ''a'' \<le> MAX_FRAME" "enc_response letters ?a = Inr []"
    by (simp_all add: letters_def MAX_FRAME_def job_a_def)
  have 1: "session_move letters (0, 7) (?s (plain_conn (frame ''a'')) Reading, ?r, ?q) = (?s ?c (Handling ?req), ?r, ?q)"
    using read_frame_ok [of "plain_conn (frame ''a'')" "''a''" "[]" "dec_request letters"] dec
    by (simp add: session_move_def plain_conn_def)
  obtain r1 where "handle_commit 7 ?req ?r = (Then_Queue (Q_Enqueue ?e) ?a, r1)"
  proof -
    have "fst (handle_commit 7 ?req ?r) = Then_Queue (Q_Enqueue ?e) ?a" by code_simp
    then show thesis by (intro that [of "snd (handle_commit 7 ?req ?r)"]) (simp add: prod_eq_iff)
  qed
  then have 2: "session_move letters (0, 7) (?s ?c (Handling ?req), ?r, ?q) = (?s ?c (Queueing ?req (Q_Enqueue ?e) ?a), r1, ?q)"
    by (simp add: session_move_def)
  have "\<not> q_poisoned ?q" by code_simp
  then have 3: "session_move letters (0, 7) (?s ?c (Queueing ?req (Q_Enqueue ?e) ?a), r1, ?q) =
      (?s ?c (Answering ?req ?a), r1, snd (enqueue ?e ?q))"
    by (simp add: session_move_def enqueue_def)
  have "write_frame (enc_response letters) ?a ?c = (Inr (), ?c\<lparr>cn_out := cn_out ?c @ frame []\<rparr>)"
    by (rule write_frame_ok) (simp_all add: dec plain_conn_def)
  then have 4: "session_move letters (0, 7) (?s ?c (Answering ?req ?a), r1, snd (enqueue ?e ?q)) =
      ((?s (?c\<lparr>cn_out := cn_out ?c @ frame []\<rparr>) Reading)\<lparr>ss_served := [(?req, ?a)]\<rparr>, r1, snd (enqueue ?e ?q))"
    by (simp add: session_move_def)
  obtain past where "reachable booked_init (booked_step waits benign X letters) (started, [], past)"
    using started_booked by blast
  from reach_step [OF this booked_event [of waits "Accept (plain_conn (frame ''a''))"]]
  have "?R ?r ?q (?s (plain_conn (frame ''a'')) Reading) []"
    by (auto simp: started_def with_parts_def)
  from session_booked_reachable [OF this _ 1] have "?R ?r ?q (?s ?c (Handling ?req)) []" by simp
  from session_booked_reachable [OF this _ 2] have "?R r1 ?q (?s ?c (Queueing ?req (Q_Enqueue ?e) ?a)) []"
    by (simp add: benign_def demand_fits_def ball_dims job_a_def sample_defs)
  from session_booked_reachable [OF this _ 3] have "?R r1 (snd (enqueue ?e ?q)) (?s ?c (Answering ?req ?a)) [Enqueue ?e]" by simp
  from session_booked_reachable [OF this _ 4] show ?thesis by fastforce
qed

section \<open>Properties\<close>

text \<open>C5. A client that was told its job is registered can rely on it: in every state of the concurrent
  server, whatever the clients ask for and whatever the interleaving of connections and workers,
  restarts at any moment included, the job's command is in the committed log and its evaluation,
  under the identifier in the answer, was enqueued and is still held by the queue, or it has been
  acknowledged, and then a worker had planned it after it was enqueued and every placement of that
  plan is in the log; or it was delivered three times. This is so as long as evaluations that were
  given to the queue under one identifier are the same evaluation; the code makes the identifier of
  the job's name and a clock, and does not enforce that it is new.\<close>

theorem accepted_jobs_accounted:
  assumes "reachable booked_init (booked_step waits A X C) (y, qs, past)" and "inj_on ev_id (supplies qs)"
    and "s \<in> set (cl_sessions y)" and "(Req_JobRegister j, JobRegistered i) \<in> set (ss_served s)"
  shows "UpsertJob j \<in> set (rn_log (cl_raft y)) \<and> cl_queue y = snd (queue_run qs queue_new) \<and>
    (\<exists>e. Enqueue e \<in> set qs \<and> ev_id e = i \<and> ev_job_id e = jb_name j \<and> ev_priority e = jb_priority j \<and>
       (e \<in> held (cl_queue y) \<or> Ack i \<in> set qs \<and> served X past (rn_log (cl_raft y)) e \<or>
        3 \<le> deliveries i (fst (queue_run qs queue_new))))"
proof -
  have inv: "books_inv X (y, qs, past)" by (rule job_books.reachable_inv [OF assms(1)])
  then have q: "cl_queue y = snd (queue_run qs queue_new)"
    and sess: "list_all (session_booked qs) (cl_sessions y)"
    and acks: "\<forall>i. Ack i \<in> set qs \<longrightarrow> (\<exists>e. ev_id e = i \<and> served X past (rn_log (cl_raft y)) e)"
    and older: "list_all (\<lambda>(_, qs'). set qs' \<subseteq> set qs) past"
    by (simp_all add: books_inv_def)
  obtain e where e: "Enqueue e \<in> set qs" "eval_of j i e"
    using sess assms(3,4) by (fastforce simp: list_all_iff session_booked_def promised_def)
  then have mem: "e \<in> supplies qs" and id: "ev_id e = i" by (force simp: eval_of_def)+
  have "e \<in> held (cl_queue y) \<or> Ack i \<in> set qs \<or> 3 \<le> deliveries i (fst (queue_run qs queue_new))"
    using run_ledger [OF assms(2), of "fst (queue_run qs queue_new)" "cl_queue y"] mem id
    by (auto simp: q ledger_def accounted_def acked_iff)
  moreover have "served X past (rn_log (cl_raft y)) e" if ack: "Ack i \<in> set qs"
  proof -
    obtain e' where e': "ev_id e' = i" "served X past (rn_log (cl_raft y)) e'" using acks ack by blast
    then have "e' \<in> supplies qs" using older by (fastforce simp: served_def planned_def list_all_iff)
    with e' id mem assms(2) show ?thesis by (metis inj_onD)
  qed
  moreover have "UpsertJob j \<in> set (rn_log (cl_raft y))"
  proof -
    have "answers_inv y" using answering.reachable_inv [OF booked_cluster [OF assms(1)]] by simp
    then have "writes_logged (rn_log (cl_raft y)) s" using assms(3) by (simp add: answers_inv_def list_all_iff)
    with assms(4) show ?thesis by (force simp: writes_logged_def answers_def logged_def)
  qed
  ultimately show ?thesis using q e by (auto simp: eval_of_def)
qed

theorem accepted_jobs_accounted_witness:
  "\<exists>y past. reachable booked_init (booked_step False benign no_crates letters) (y, [Enqueue (register_eval 7 job_a)], past) \<and>
     UpsertJob job_a \<in> set (rn_log (cl_raft y)) \<and> cl_queue y = snd (queue_run [Enqueue (register_eval 7 job_a)] queue_new)"
proof -
  obtain y s past where y: "reachable booked_init (booked_step False benign no_crates letters) (y, [Enqueue (register_eval 7 job_a)], past)"
    "cl_sessions y = [s]" "ss_served s = [(Req_JobRegister job_a, JobRegistered ''eval-a-7'')]"
    using registered_booked by blast
  with accepted_jobs_accounted [OF y(1), of s job_a "''eval-a-7''"] show ?thesis by auto
qed

end
