(* ===== verification/Conformance_Errors.thy ===== *)
theory Conformance_Errors
  imports Conformance_State Tls Cluster_Ops "HOL-Library.Sublist"
begin

text \<open>
  The unit tests of \<open>src/src/error.rs\<close>, \<open>tls.rs\<close>, \<open>fingerprint.rs\<close> and \<open>metrics.rs\<close>, and the one of
  \<open>state.rs\<close> that writes the store to a file, run on the model. The text of an error of a library,
  the crates of TLS and the codec of the store are arguments.
\<close>

section \<open>Errors\<close>

definition test_error_display_io :: bool where
  "test_error_display_io \<longleftrightarrow> (let s = error_display (Io ''file not found'')
     in sublist ''io error'' s \<and> sublist ''file not found'' s)"

definition test_error_display_config :: bool where
  "test_error_display_config \<longleftrightarrow> error_display (Config ''invalid port range'') = ''config error: invalid port range''"

definition test_error_display_runtime :: bool where
  "test_error_display_runtime \<longleftrightarrow>
     error_display (Runtime ''raft leader election failed'') = ''runtime error: raft leader election failed''"

definition test_error_display_serialize :: "string \<Rightarrow> bool" where
  "test_error_display_serialize inner = sublist ''serialisation error'' (error_display (Serialize inner))"

definition test_error_display_validation :: bool where
  "test_error_display_validation \<longleftrightarrow>
     error_display (Validation ''job name cannot be empty'') = ''validation error: job name cannot be empty''"

lemma error_tests:
  "test_error_display_io" "test_error_display_config" "test_error_display_runtime"
  "test_error_display_serialize inner" "test_error_display_validation"
proof -
  show "test_error_display_io" by code_simp
  show "test_error_display_config" by code_simp
  show "test_error_display_runtime" by code_simp
  show "test_error_display_validation" by code_simp
  have "error_display (Serialize inner) = [] @ ''serialisation error'' @ ('': '' @ inner)" by simp
  then show "test_error_display_serialize inner"
    unfolding test_error_display_serialize_def sublist_def by blast
qed

section \<open>TLS\<close>

text \<open>The tests run where none of the files exist.\<close>

definition test_tls_config_validate_empty_paths :: "('c, 'k, 'r, 'v, 'f) tls_crate \<Rightarrow> disk \<Rightarrow> bool" where
  "test_tls_config_validate_empty_paths T d =
     (\<not> is_ok (fst (tls_validate T (tls_new [] ''key.pem'' ''ca.pem'') d)))"

definition test_tls_config_new_and_validate :: "('c, 'k, 'r, 'v, 'f) tls_crate \<Rightarrow> disk \<Rightarrow> bool" where
  "test_tls_config_new_and_validate T d \<longleftrightarrow>
     (let cfg = tls_new ''cert.pem'' ''key.pem'' ''ca.pem''
      in tls_cert_path cfg = ''cert.pem'' \<and> tls_key_path cfg = ''key.pem'' \<and> tls_ca_path cfg = ''ca.pem'' \<and>
         \<not> is_ok (fst (tls_validate T cfg d)))"

definition test_validate_path_empty :: "('c, 'k, 'r, 'v, 'f) tls_crate \<Rightarrow> disk \<Rightarrow> bool" where
  "test_validate_path_empty T d = (\<not> is_ok (fst (validate_path T [] ''test'' d)))"

definition test_validate_path_not_found :: "('c, 'k, 'r, 'v, 'f) tls_crate \<Rightarrow> disk \<Rightarrow> bool" where
  "test_validate_path_not_found T d = (\<not> is_ok (fst (validate_path T ''/nonexistent/cert.pem'' ''test'' d)))"

lemma missing_path:
  "files d (os_path T p) = None \<Longrightarrow> \<not> is_ok (fst (validate_path T p label d))"
  by (auto simp: validate_path_def fs_try_exists_def fs_op_def sbind_def slift_def is_ok_def
      split: option.split sum.split prod.split)

lemma tls_tests:
  "test_tls_config_validate_empty_paths T d" "test_validate_path_empty T d"
  "files d (os_path T ''/nonexistent/cert.pem'') = None \<Longrightarrow> test_validate_path_not_found T d"
  "files d (os_path T ''cert.pem'') = None \<Longrightarrow> test_tls_config_new_and_validate T d"
proof -
  have "trim [] = []" by code_simp
  then have empty: "validate_path T [] label d = (Inl (Validation (label @ '' must not be empty'')), d)" for label
    by (simp add: validate_path_def slift_def)
  then show "test_validate_path_empty T d" "test_tls_config_validate_empty_paths T d"
    by (simp_all add: test_validate_path_empty_def test_tls_config_validate_empty_paths_def tls_validate_def
        tls_new_def sbind_def is_ok_def)
  show "test_validate_path_not_found T d" if "files d (os_path T ''/nonexistent/cert.pem'') = None"
    unfolding test_validate_path_not_found_def by (rule missing_path [OF that])
  show "test_tls_config_new_and_validate T d" if "files d (os_path T ''cert.pem'') = None"
    using missing_path [OF that, of "''cert_path''"]
    by (auto simp: test_tls_config_new_and_validate_def tls_new_def tls_validate_def sbind_def is_ok_def
        split: prod.splits sum.splits)
qed

section \<open>Fingerprints and metrics\<close>

definition cpu_fingerprinter_is_named_cpu :: bool where
  "cpu_fingerprinter_is_named_cpu \<longleftrightarrow> cpu_fingerprinter_name = ''cpu''"

definition cpu_detects_total_compute :: bool where
  "cpu_detects_total_compute =
     (case cpu_detect of Inl _ \<Rightarrow> False | Inr attrs \<Rightarrow> hm_get attrs ''cpu.totalcompute'' \<noteq> None)"

definition emits_a_counter :: "64 word \<Rightarrow> bool" where
  "emits_a_counter one_point_zero =
     is_ok (fst (emit \<lparr>me_key = ''nomad.evals'', me_value = one_point_zero, me_kind = Counter\<rparr>
       \<lparr>sink_samples = [], sink_poisoned = False\<rparr>))"

lemma small_tests: "cpu_fingerprinter_is_named_cpu" "cpu_detects_total_compute" "emits_a_counter x"
  by (simp_all add: cpu_fingerprinter_is_named_cpu_def cpu_fingerprinter_name_def cpu_detects_total_compute_def
      cpu_detect_def emits_a_counter_def emit_def is_ok_def)

section \<open>The store in a file\<close>

definition filled_store :: "state_store option" where
  "filled_store = run_steps
     [st_job (store_job ''redis''), st_node (store_node ''n1''), st_alloc (store_alloc ''a1'' ''n1'' ''redis''),
      unwrapped (upsert_eval (store_eval ''ev1'')) any] state_new"

definition save_round_trips_all_data ::
    "(state_store \<Rightarrow> string result) \<Rightarrow> (string \<Rightarrow> state_store result) \<Rightarrow> path \<Rightarrow> disk \<Rightarrow> bool" where
  "save_round_trips_all_data to_vec from_slice path d =
     (case filled_store of
        None \<Rightarrow> False
      | Some s \<Rightarrow>
          (case state_save to_vec path s d of
             (Inl _, _) \<Rightarrow> False
           | (Inr _, d1) \<Rightarrow>
               (case state_load from_slice path d1 of
                  (Inl _, _) \<Rightarrow> False
                | (Inr loaded, _) \<Rightarrow>
                    length (list_jobs loaded) = 1 \<and> length (list_nodes loaded) = 1 \<and>
                    length (allocs_by_node loaded ''n1'') = 1 \<and> length (list_evals loaded) = 1)))"

lemma save_test:
  assumes "store_codec_ok to_vec from_slice" and "is_ok (to_vec (the filled_store))" and "reliable d"
  shows "save_round_trips_all_data to_vec from_slice path d"
proof -
  let ?s = "the filled_store"
  have some: "filled_store = Some ?s" by code_simp
  have s: "length (list_jobs ?s) = 1" "length (list_nodes ?s) = 1"
    "length (allocs_by_node ?s ''n1'') = 1" "length (list_evals ?s) = 1" "validate_store ?s = Inr ()"
    by code_simp+
  obtain bytes where "to_vec ?s = Inr bytes" using assms(2) by (auto simp: is_ok_def split: sum.splits)
  moreover have "state_ok ?s"
  proof -
    have "list_all (\<lambda>(k, j). k = jb_name j) (st_jobs ?s)" "list_all (\<lambda>(k, n). k = nd_id n) (st_nodes ?s)"
      "list_all (\<lambda>(k, a). k = al_id a) (st_allocs ?s)" "list_all (\<lambda>(k, e). k = ev_id e) (st_evals ?s)"
      "hm_wf (st_jobs ?s)" "hm_wf (st_nodes ?s)" "hm_wf (st_allocs ?s)" "hm_wf (st_evals ?s)"
      by code_simp+
    with validate_store_entries [THEN iffD1, OF s(5)] show ?thesis
      by (auto simp: state_ok_def table_ok_def list_all_iff list_jobs_def list_nodes_def list_allocs_def list_evals_def)
  qed
  ultimately obtain d' where "state_save to_vec path ?s d = (Inr (), d')" "fst (state_load from_slice path d') = Inr ?s"
    using save_then_load [OF assms(1) _ _ assms(3)] by blast
  with s(1-4) show ?thesis
    by (cases "state_load from_slice path d'") (simp add: save_round_trips_all_data_def, subst some, simp)
qed

end
