(* ===== verification/Spec2Isabelle.thy ===== *)
theory Spec2Isabelle
  imports Server_Types Startup Tls Conformance_Config Conformance_Rpc Conformance_Net
    Conformance_Data Conformance_Runner Conformance_Log Conformance_Blocks
    Worker_Loop Log_Faults Gossip_Views Gossip_Restart
    Job_Accounts Conformance_Errors
begin

text \<open>
  A verification development for \<^emph>\<open>nomad-rs\<close>, a workload orchestrator in Rust (\<open>src/src/*.rs\<close>).

  \<^bold>\<open>The program.\<close> An operator registers jobs and client nodes with a server over RPC. The server
  commits every write through a consensus node, which keeps a log of commands and the state store
  they produce, and puts evaluations on a priority queue. A scheduler worker takes evaluations off
  the queue, plans placements of task groups on nodes and commits them as allocations. A client
  runs the tasks of its allocations through drivers and remembers them in a local database. Servers
  find each other by gossip; an HTTP API answers reads.

  \<^bold>\<open>The theories\<close>, in the order in which they build on each other.

  \<^item> \<open>Prelude\<close>, \<open>Rust_Str\<close>: results with the \<open>?\<close> operator (\<open>and_then\<close>, \<open>sbind\<close> for operations that
    change a state), hash maps as association lists, machine integers as words, decimal text, string
    operations of the standard library, and the locale \<open>inductive_invariant\<close> that every state machine
    below interprets. \<open>Disk\<close>: files, with a schedule of faults that may strike any operation and cut
    any write short. \<open>F64\<close>: the floating-point operations of the scores, rounded to 53 bits.
  \<^item> \<open>Nomad_Error\<close> (\<open>error.rs\<close>): the error type, and the locale \<open>validator\<close>: a validation accepts
    exactly the well-formed values. It is interpreted for every \<open>validate\<close> of the crate.
  \<^item> \<open>Constraint\<close>, \<open>Jobspec\<close>, \<open>Entities\<close> (\<open>constraint.rs\<close>, \<open>jobspec.rs\<close>, \<open>id.rs\<close>, \<open>node.rs\<close>,
    \<open>alloc.rs\<close>, \<open>eval.rs\<close>): the data of the cluster. \<open>Job_Blocks\<close> (\<open>reschedule.rs\<close>, \<open>update.rs\<close>,
    \<open>volume.rs\<close>, \<open>network.rs\<close>, \<open>template.rs\<close>, \<open>service.rs\<close>, \<open>artifact.rs\<close>, \<open>scaling.rs\<close>,
    \<open>dispatch.rs\<close>, \<open>periodic.rs\<close>): the optional blocks of a job; the next launch of a periodic job.
  \<^item> \<open>State\<close> (\<open>state.rs\<close>, \<open>fsm.rs\<close>): the four tables, each an interpretation of the locale \<open>table\<close>
    (what a lookup returns after an update, what every update keeps), commands, saving and loading.
  \<^item> \<open>Raft\<close> (\<open>raft.rs\<close>): the consensus node; every reachable log replays to the served state.
    \<open>Raft_Log\<close> (\<open>raft_log.rs\<close>): the durable log; after any sequence of operations that succeed the
    files determine the store, so opening them again restores it, and each operation does to the
    entries what it promises. \<open>Log_Faults\<close>: what an operation that fails leaves in memory and on the
    disk, and what a restart makes of it; a torn line is never repaired by appending, only by an
    operation that writes the file anew, and a snapshot that fails half way moves the old entries to
    other indices.
  \<^item> \<open>Eval_Queue\<close> (\<open>eval_queue.rs\<close>): the queue refines a list in priority and arrival order (locale
    \<open>min_key_heap\<close>), nothing is delivered more often than its cap allows, and nacks, timeouts and
    blocking do what they say. \<open>Queue_Accounts\<close>: no evaluation that was enqueued is lost before it is
    acknowledged or has used up its deliveries.
  \<^item> \<open>Scheduler\<close> (\<open>scheduler.rs\<close>): planning on the fast and on the scored path, both as instances of
    the locale \<open>placer\<close> (a step places on a feasible node and reserves its demand), from which
    follow that no node is oversubscribed, that every placement is justified and that none is missed;
    plan application and queue draining, which terminates.
  \<^item> \<open>Rpc\<close> (\<open>rpc.rs\<close>): the handlers on every branch, frames and their round trip, a served
    connection. \<open>Agent_Config\<close> (\<open>config.rs\<close>, \<open>cli.rs\<close>): layered configuration. \<open>Tls\<close> (\<open>tls.rs\<close>):
    exactly when a TLS configuration is made of the files of a disk, and the error otherwise.
  \<^item> \<open>Server\<close> (\<open>server.rs\<close>, \<open>agent.rs\<close>, \<open>client.rs\<close>): lifecycles, and the worker as a step function at
    the granularity of its locks, interleaved with requests, stops and restarts in \<open>system_step\<close>;
    the safety of the whole server is an invariant of that relation. \<open>Startup\<close> (\<open>logging.rs\<close>,
    \<open>otel.rs\<close>, \<open>main.rs\<close>): the process from its flags to its exit code. \<open>Integration\<close>
    (\<open>integration.rs\<close>): the in-process cluster and its builder. \<open>Worker_Loop\<close>: the worker over many
    turns, left alone, is a fold that serves the pending evaluations in priority order, and with the
    handlers it takes an accepted job to its placements. The clock is a reading per step
    (\<open>readings\<close>); \<open>in_time\<close> says that from some step on no delivery in flight times out.
  \<^item> \<open>Rpc_Server\<close> (\<open>rpc.rs\<close>, \<open>server.rs\<close>): the server with any number of connections and workers, every
    lock a step of its own: \<open>session_step\<close> splits a handler where it releases the consensus node and
    takes the queue, and runs alone as \<open>serve_conn\<close>; \<open>cluster_step\<close> interleaves sessions, workers,
    accepts, stops and starts. Its parameter \<open>A\<close> is what is assumed of the requests when they are
    handled: nothing (\<open>anything\<close>, any other \<open>A\<close> included) in all theorems about that relation but the
    part of the safety theorem about the capacity of the nodes, which needs \<open>benign\<close>. Safety, that an
    answered write is in the log, and with a second worker the lost capacity are about that relation. A
    client's call over a connection is the handler. \<open>Server_Types\<close>: all data of that server stays well formed.
    \<open>Job_Accounts\<close>: the same steps with the books of the queue kept beside them, the operations it
    was given and the plans the workers made; the queue is at every moment the run of its book, and
    from the ledger of \<open>Queue_Accounts\<close> follows what becomes of every job whose registration was
    answered.
  \<^item> \<open>Membership\<close> (\<open>membership.rs\<close>): gossip over a network that may lose, duplicate and reorder;
    rosters only hold what a member said of itself. \<open>Gossip_Views\<close>: members that heard the same
    messages, in any order and number, hold the same newest claims. \<open>Gossip_Restart\<close>: a member that
    comes back under its name is not heard by those that knew it. A member takes a datagram, or announces that it leaves,
    in one step; the code takes the lock of the roster again for the snapshot it sends, and what may
    happen in between is another such step.
  \<^item> \<open>Runner\<close> (\<open>driver.rs\<close>, \<open>taskrunner.rs\<close>, \<open>allocrunner.rs\<close>): drivers over a process table, restarts,
    running an allocation all or nothing, what teardown reaches and what it leaves, status. \<open>Client_State\<close> (\<open>client_state.rs\<close>): the
    client's database refines a map from ids to allocations.
  \<^item> \<open>Cluster_Ops\<close> (\<open>acl.rs\<close>, \<open>namespace.rs\<close>, \<open>variables.rs\<close>, \<open>deployment.rs\<close>, \<open>drain.rs\<close>, \<open>metrics.rs\<close>,
    \<open>fingerprint.rs\<close>) and \<open>Api\<close> (\<open>api.rs\<close>): the smaller services and the HTTP API.
  \<^item> \<open>Conformance\<close> and \<open>Conformance_*\<close>: the unit tests of the source, about three hundred, as
    executable steps over the model's states, and the lemmas that the model passes them. They tie
    the definitions to the behaviour the source's authors wrote down.
  \<^item> This theory: what the API answers about a job, as a function of the committed log.

  \<^bold>\<open>Conventions.\<close> A struct is a record, an enum a datatype, \<open>Result\<close> the sum with \<open>Inl\<close> for \<open>Err\<close>;
  an operation with a mutable receiver returns its result and the new state, the state at an error
  included. Integers keep their width and wrap, as in the release profile. A mutex carries a bit for
  poisoning where the code reacts to it. Clocks are arguments. Crates outside the repository (serde,
  toml, regex, semver, cron, chrono, rusqlite, sockets) are parameters with what they document as named
  hypotheses (\<open>store_codec_ok\<close>, \<open>log_codec_ok\<close>, \<open>codec_for\<close>, \<open>cron_ok\<close>, \<open>sqlite_ok\<close>, \<open>set_once\<close>, \<open>torn_lines_fail\<close>), each shown
  satisfiable by a concrete instance in a witness. The iteration order of a hash map is the order of
  its association list; a codec writes the entries in that order and a decoder inserts them in the
  order of the text, so that it gives back the same list. Loops are structural recursion or terminate by a measure (the length of the
  input of a connection, the remaining deliveries of a queue). The only step counts are those of the
  worker and session machines, which serve for ever: a worker that is left alone is done with the
  evaluations it finds within eight steps for each and three more (\<open>worker_loop\<close>; five from its planning
  on, \<open>worker_finishes\<close>), and a session with its input (\<open>session_is_serve_conn\<close>).

  \<^bold>\<open>Bounds.\<close> What the code does not enforce is a hypothesis, and only of the theorems that need it. That
  no node is oversubscribed needs that no group's demand overflows 32 bits (\<open>demand_fits\<close>), since it
  wraps otherwise (\<open>group_demand_wraps\<close>), and for the whole server also that no node has negative
  resources or shrinks when it is registered again (together \<open>benign\<close>), and that the server is
  started again only when its old worker is gone (the flag \<open>waits\<close> of \<open>cluster_step\<close>). The coarser
  relation \<open>system_step\<close> of \<open>Server\<close> has the requests \<open>benign\<close> throughout; no property rests on it. An
  evaluation is followed by its identifier, so the accounts assume that evaluations with the same
  identifier are the same; the code takes it from the name of the job and a clock. Lookups in the
  durable log assume that the 64-bit indices have not run out, and the order of the queue that its
  64-bit counter has not. In the network of \<open>Membership\<close> no name is started twice (what happens
  otherwise is in \<open>Gossip_Restart\<close>) and no incarnation wraps. A text that is read is UTF-8, or else the
  read fails: \<open>valid_utf8\<close> for the configuration file, part of the decoders for the log and its snapshot.

  \<^bold>\<open>Not modelled.\<close> \<open>lib.rs\<close> declares the modules and has no code. Log output and trace spans are left
  out. The argument parser of \<open>main.rs\<close> is generated by clap, so the flags are an argument; sockets,
  the runtime's task scheduling, the operating system and the crates are the parameters and the
  nondeterminism described above. Of the tests, those of the operands and specifications that other
  crates evaluate, and those that only read back a literal, are left out.
\<close>

section \<open>From a request to an answer\<close>

text \<open>
  What a log of commands says about the job of a name: the job of the last registration under that
  name, unless it was deregistered after it.
\<close>

fun job_after :: "string \<Rightarrow> command \<Rightarrow> job option \<Rightarrow> job option" where
  "job_after name (UpsertJob j) cur = (if jb_name j = name then Some j else cur)"
| "job_after name (DeregisterJob n) cur = (if n = name then None else cur)"
| "job_after name _ cur = cur"

definition last_job :: "string \<Rightarrow> command list \<Rightarrow> job option" where
  "last_job name cs = fold (job_after name) cs None"

lemma get_job_apply:
  assumes "state_apply c s = (Inr (), s')"
  shows "get_job s' name = job_after name c (get_job s name)"
proof (cases c)
  case (UpsertJob j)
  with assms upsert_job_cases [of j s] show ?thesis by (auto simp: get_job_def)
next
  case (DeregisterJob n)
  with assms show ?thesis by (auto simp: delete_job_def get_job_def split: option.splits)
next
  case (UpsertNode n)
  with assms upsert_node_cases [of n s] show ?thesis by (auto simp: get_job_def)
next
  case (UpsertAlloc a)
  with assms upsert_alloc_cases [of a s] show ?thesis by (auto simp: get_job_def)
next
  case (UpsertEval e)
  with assms upsert_eval_cases [of e s] show ?thesis by (auto simp: get_job_def)
qed

lemma get_job_replay: "replay cs s = Some s' \<Longrightarrow> get_job s' name = fold (job_after name) cs (get_job s name)"
proof (induction cs arbitrary: s)
  case (Cons c cs)
  then obtain s1 where "state_apply c s = (Inr (), s1)" "replay cs s1 = Some s'"
    by (auto split: prod.splits sum.splits)
  with Cons.IH show ?case by (simp add: get_job_apply)
qed simp

text \<open>C27. A registered job is served. In every state of the server, whatever its clients ask for and
  however it is restarted, an HTTP API over the served state answers a \<open>GET\<close> of a job's path by the
  last job that was committed under the name, 404 if there is none or it was deregistered after
  that, and 400 for the empty name. The name is the rest of the path after the route, with the
  route taken off as often as the path repeats it: it is the name asked for unless that begins
  with the route itself. A job whose registration was answered on a connection is what is
  served under its name until a later command is committed for that name.\<close>

theorem registered_job_is_served:
  assumes "reachable cluster_init (cluster_step waits A X C) y"
  shows "let cs = rn_log (sv_raft (cl_server y)); api = api_new (Some (raft_state (sv_raft (cl_server y)))) in
    (\<forall>rest. api_handle S api (get_path (''/v1/job/'' @ rest)) =
       Inr (let name = trim_start_matches ''/v1/job/'' rest in
            if name = [] then bad_request S ''job name is required''
            else case last_job name cs of Some j \<Rightarrow> response_ok S (OneJob j) | None \<Rightarrow> not_found S)) \<and>
    (\<forall>rest. \<not> prefix ''/v1/job/'' rest \<longrightarrow> trim_start_matches ''/v1/job/'' rest = rest) \<and>
    (\<forall>s\<in>set (cl_sessions y). \<forall>j resp. (Req_JobRegister j, resp) \<in> set (ss_served s) \<longrightarrow>
       (\<exists>before later. cs = before @ UpsertJob j # later \<and>
          last_job (jb_name j) cs = fold (job_after (jb_name j)) later (Some j)))"
proof -
  let ?cs = "rn_log (sv_raft (cl_server y))" and ?st = "raft_state (sv_raft (cl_server y))"
  have inv: "answers_inv y" by (rule answering.reachable_inv [OF assms])
  then have "replay ?cs state_new = Some ?st" by (simp add: answers_inv_def raft_inv_def)
  from get_job_replay [OF this] have last: "get_job ?st name = last_job name ?cs" for name
    by (simp add: last_job_def get_job_def state_new_def)
  have api: "api_handle S (api_new (Some ?st)) (get_path (''/v1/job/'' @ rest)) =
      Inr (let name = trim_start_matches ''/v1/job/'' rest in
           if name = [] then bad_request S ''job name is required''
           else case last_job name ?cs of Some j \<Rightarrow> response_ok S (OneJob j) | None \<Rightarrow> not_found S)" for rest
    unfolding get_job_path by (simp add: handle_get_job_def api_new_def last Let_def split: option.split)
  have kept: "\<exists>before later. ?cs = before @ UpsertJob j # later \<and>
      last_job (jb_name j) ?cs = fold (job_after (jb_name j)) later (Some j)"
    if "s \<in> set (cl_sessions y)" "(Req_JobRegister j, resp) \<in> set (ss_served s)" for s j resp
  proof -
    have "UpsertJob j \<in> set ?cs"
      using inv that by (force simp: answers_inv_def list_all_iff writes_logged_def answers_def logged_def)
    then obtain before later where cs: "?cs = before @ UpsertJob j # later" by (auto simp: in_set_conv_decomp)
    show ?thesis by (intro exI [of _ before] exI [of _ later]) (simp add: cs last_job_def)
  qed
  have "\<forall>rest. \<not> prefix ''/v1/job/'' rest \<longrightarrow> trim_start_matches ''/v1/job/'' rest = rest"
    using trim_nothing by blast
  with api kept show ?thesis unfolding Let_def by blast
qed

text \<open>The server after a node and two jobs were registered over connections.\<close>

lemma registered_job_is_served_witness:
  "\<exists>y. reachable cluster_init (cluster_step True benign no_crates letters) y \<and>
     (\<forall>S. api_handle S (api_new (Some (raft_state (sv_raft (cl_server y))))) (get_path (''/v1/job/'' @ ''a'')) =
        Inr (response_ok S (OneJob (sample_job\<lparr>jb_name := ''a''\<rparr>))) \<and>
      api_handle S (api_new (Some (raft_state (sv_raft (cl_server y))))) (get_path (''/v1/job/'' @ ''c'')) =
        Inr (not_found S))"
proof -
  obtain ss where ss: "reachable cluster_init (cluster_step True benign no_crates letters)
      (with_parts (ep_raft booked) (ep_queue booked) (started\<lparr>cl_sessions := ss\<rparr>))"
    using booked_reachable by blast
  have last: "last_job ''a'' (rn_log (ep_raft booked)) = Some (sample_job\<lparr>jb_name := ''a''\<rparr>)"
    "last_job ''c'' (rn_log (ep_raft booked)) = None"
    by code_simp+
  have trim: "trim_start_matches ''/v1/job/'' ''a'' = ''a''" "trim_start_matches ''/v1/job/'' ''c'' = ''c''"
    by (simp_all add: trim_nothing)
  note served = registered_job_is_served [OF ss, unfolded Let_def, THEN conjunct1, rule_format]
  have "api_handle S (api_new (Some (raft_state (ep_raft booked)))) (get_path (''/v1/job/'' @ ''a'')) =
        Inr (response_ok S (OneJob (sample_job\<lparr>jb_name := ''a''\<rparr>)))"
    "api_handle S (api_new (Some (raft_state (ep_raft booked)))) (get_path (''/v1/job/'' @ ''c'')) = Inr (not_found S)" for S
    using served [of S "''a''"] served [of S "''c''"] unfolding trim with_parts_simps by (simp_all add: last)
  with ss show ?thesis
    by (intro exI [of _ "with_parts (ep_raft booked) (ep_queue booked) (started\<lparr>cl_sessions := ss\<rparr>)"])
      (simp only: with_parts_simps simp_thms)
qed

end
